(* ===== verification/Prelude.thy ===== *)
theory Prelude
  imports Main "HOL-Library.Word"
begin

section \<open>Prelude: bytes, little-endian integers, the result monad\<close>

text \<open>
  What every component shares: bytes as 8-bit words, Rust's \<open>to_le_bytes\<close> and
  \<open>from_le_bytes\<close>, checked and saturating \<open>usize\<close> arithmetic on a host whose
  largest \<open>usize\<close> is a parameter, UTF-8 validity (\<open>String::from_utf8\<close>), and the two
  forms of Rust's \<open>?\<close> operator: on a plain result and on a result computed from a
  mutable state.  The collection \<open>wire\<close> holds the rewrite rules the codecs share.
\<close>

named_theorems wire \<open>rewrite rules for encoders and decoders\<close>

unbundle bit_operations_syntax

type_synonym byte = "8 word"
type_synonym u32 = "32 word"
type_synonym u64 = "64 word"
type_synonym bytes = "byte list"

subsection \<open>String literals as bytes\<close>

definition ascii :: "string \<Rightarrow> bytes" where
  "ascii s = map of_char s"

lemma length_ascii [simp]: "length (ascii s) = length s"
  by (simp add: ascii_def)

subsection \<open>Little-endian integers\<close>

text \<open>\<open>to_le k w\<close> is \<open>w.to_le_bytes()\<close> for a \<open>k\<close>-byte integer, \<open>of_le\<close> its inverse.\<close>

primrec to_le :: "nat \<Rightarrow> 'a::len word \<Rightarrow> bytes" where
  "to_le 0 w = []"
| "to_le (Suc k) w = ucast w # to_le k (drop_bit 8 w)"

primrec of_le :: "bytes \<Rightarrow> 'a::len word" where
  "of_le [] = 0"
| "of_le (b # bs) = ucast b OR push_bit 8 (of_le bs)"

lemma length_to_le [simp]: "length (to_le k w) = k"
  by (induction k arbitrary: w) auto

lemma nth_to_le: "i < k \<Longrightarrow> to_le k w ! i = ucast (drop_bit (8 * i) w)"
proof (induction k arbitrary: w i)
  case 0
  then show ?case by simp
next
  case (Suc k)
  then show ?case
    by (cases i) (simp_all add: ac_simps)
qed

lemma bit_of_le:
  "bit (of_le bs :: 'a::len word) n \<longleftrightarrow>
     n < LENGTH('a) \<and> n div 8 < length bs \<and> bit (bs ! (n div 8)) (n mod 8)"
proof (induction bs arbitrary: n)
  case Nil
  then show ?case by simp
next
  case (Cons b bs)
  show ?case
  proof (cases "n < 8")
    case True
    then show ?thesis
      by (auto simp: bit_or_iff bit_push_bit_iff bit_unsigned_iff dest: bit_imp_le_length)
  next
    case False
    then obtain m where m: "n = m + 8"
      by (metis add.commute le_add_diff_inverse not_less)
    have "\<not> bit b (m + 8)"
      using bit_imp_le_length [of b "m + 8"] by auto
    moreover have "(m + 8) div 8 = Suc (m div 8)" by simp
    ultimately show ?thesis
      using Cons.IH [of m] by (auto simp: m bit_or_iff bit_push_bit_iff bit_unsigned_iff dest: bit_imp_le_length)
  qed
qed

lemma of_le_to_le:
  assumes "LENGTH('a) \<le> 8 * k"
  shows "of_le (to_le k w) = (w :: 'a::len word)"
proof (rule bit_word_eqI)
  fix n
  assume n: "n < LENGTH('a)"
  then have lt: "n div 8 < k" using assms by linarith
  have idx: "8 * (n div 8) + n mod 8 = n" by simp
  show "bit (of_le (to_le k w) :: 'a word) n = bit w n"
    using n lt by (simp add: bit_of_le nth_to_le bit_unsigned_iff bit_drop_bit_eq idx)
qed

lemma to_le_of_le:
  assumes len: "length bs = k" and fits: "8 * k \<le> LENGTH('a)"
  shows "to_le k (of_le bs :: 'a::len word) = bs"
proof (rule nth_equalityI)
  show "length (to_le k (of_le bs :: 'a word)) = length bs" by (simp add: len)
next
  fix i
  assume i: "i < length (to_le k (of_le bs :: 'a word))"
  then have ik: "i < k" by simp
  have "ucast (drop_bit (8 * i) (of_le bs :: 'a word)) = bs ! i"
  proof (rule bit_word_eqI)
    fix n
    assume n: "n < LENGTH(8)"
    then have "8 * i + n < LENGTH('a)" using ik fits by simp
    then show "bit (ucast (drop_bit (8 * i) (of_le bs :: 'a word)) :: byte) n = bit (bs ! i) n"
      using n ik len by (auto simp: bit_unsigned_iff bit_drop_bit_eq bit_of_le)
  qed
  then show "to_le k (of_le bs :: 'a word) ! i = bs ! i"
    using ik by (simp add: nth_to_le)
qed

lemma of_le_u32 [wire, simp]: "of_le (to_le 4 w) = (w :: u32)"
  by (rule of_le_to_le) simp

lemma of_le_u64 [wire, simp]: "of_le (to_le 8 w) = (w :: u64)"
  by (rule of_le_to_le) simp

lemma to_le_inject_u32 [simp]: "to_le 4 v = to_le 4 w \<longleftrightarrow> v = (w :: u32)"
  by (metis of_le_u32)

lemma to_le_inject_u64 [simp]: "to_le 8 v = to_le 8 w \<longleftrightarrow> v = (w :: u64)"
  by (metis of_le_u64)

lemma xor_right_cancel: "a XOR c = b XOR c \<longleftrightarrow> a = (b :: 'a::len word)"
proof
  assume "a XOR c = b XOR c"
  then have "(a XOR c) XOR c = (b XOR c) XOR c" by simp
  then show "a = b" by (simp only: xor.assoc xor_self_eq xor.right_neutral)
qed simp

subsection \<open>Sizes: \<open>usize\<close> on a host whose largest value is \<open>umax\<close>\<close>

text \<open>
  A \<open>usize\<close> is a natural number at most \<open>umax\<close>, the host's \<open>usize::MAX\<close>.  A
  \<open>u32\<close> always fits (\<open>len as usize\<close> is lossless on the 32- and 64-bit hosts the crate
  supports), a \<open>u64\<close> may not.
\<close>

definition U32_MAX :: nat where "U32_MAX = 2 ^ 32 - 1"
definition U64_MAX :: nat where "U64_MAX = 2 ^ 64 - 1"

definition u32_try_from :: "nat \<Rightarrow> u32 option" where
  "u32_try_from n = (if n \<le> U32_MAX then Some (of_nat n) else None)"

definition u64_try_from :: "nat \<Rightarrow> u64 option" where
  "u64_try_from n = (if n \<le> U64_MAX then Some (of_nat n) else None)"

definition usize_try_from :: "nat \<Rightarrow> u64 \<Rightarrow> nat option" where
  "usize_try_from umax w = (if unat w \<le> umax then Some (unat w) else None)"

definition usize_checked_add :: "nat \<Rightarrow> nat \<Rightarrow> nat \<Rightarrow> nat option" where
  "usize_checked_add umax a b = (if a + b \<le> umax then Some (a + b) else None)"

definition usize_saturating_mul :: "nat \<Rightarrow> nat \<Rightarrow> nat \<Rightarrow> nat" where
  "usize_saturating_mul umax a b = min umax (a * b)"

lemma unat_of_nat_u32: "n \<le> U32_MAX \<Longrightarrow> unat (of_nat n :: u32) = n"
  by (simp add: U32_MAX_def unat_of_nat take_bit_eq_mod)

lemma unat_of_nat_u64: "n \<le> U64_MAX \<Longrightarrow> unat (of_nat n :: u64) = n"
  by (simp add: U64_MAX_def unat_of_nat take_bit_eq_mod)

lemma unat_eqD: "unat w = k \<Longrightarrow> w = of_nat k"
  by auto

lemma u32_try_from_Some: "u32_try_from n = Some w \<longleftrightarrow> n = unat w"
proof -
  have "unat w < 2 ^ 32" by (rule order_less_le_trans [OF unsigned_less]) simp
  then have "unat w \<le> U32_MAX" by (simp add: U32_MAX_def)
  then show ?thesis by (auto simp: u32_try_from_def unat_of_nat_u32)
qed

lemma u64_try_from_Some: "u64_try_from n = Some w \<longleftrightarrow> n = unat w"
proof -
  have "unat w < 2 ^ 64" by (rule order_less_le_trans [OF unsigned_less]) simp
  then have "unat w \<le> U64_MAX" by (simp add: U64_MAX_def)
  then show ?thesis by (auto simp: u64_try_from_def unat_of_nat_u64)
qed

lemma u32_try_from_None: "u32_try_from n = None \<longleftrightarrow> U32_MAX < n"
  by (auto simp: u32_try_from_def)

lemma u64_try_from_None: "u64_try_from n = None \<longleftrightarrow> U64_MAX < n"
  by (auto simp: u64_try_from_def)

subsection \<open>UTF-8 validity\<close>

definition utf8_cont :: "byte \<Rightarrow> bool" where
  "utf8_cont b \<longleftrightarrow> 0x80 \<le> b \<and> b \<le> 0xBF"

text \<open>
  The well-formed UTF-8 byte sequences (Unicode, table 3-7), which is what
  \<open>String::from_utf8\<close> accepts: shortest forms only, no surrogates, nothing above
  U+10FFFF.
\<close>

fun utf8_valid :: "bytes \<Rightarrow> bool" where
  "utf8_valid [] = True"
| "utf8_valid (a # bs) =
    (if a < 0x80 then utf8_valid bs
     else (case bs of
       [] \<Rightarrow> False
     | b # cs \<Rightarrow>
       (if 0xC2 \<le> a \<and> a \<le> 0xDF then utf8_cont b \<and> utf8_valid cs
        else (case cs of
          [] \<Rightarrow> False
        | c # ds \<Rightarrow>
          (if 0xE0 \<le> a \<and> a \<le> 0xEF then
             utf8_cont b \<and> utf8_cont c \<and>
             (a = 0xE0 \<longrightarrow> 0xA0 \<le> b) \<and> (a = 0xED \<longrightarrow> b \<le> 0x9F) \<and> utf8_valid ds
           else (case ds of
             [] \<Rightarrow> False
           | d # es \<Rightarrow>
             0xF0 \<le> a \<and> a \<le> 0xF4 \<and>
             utf8_cont b \<and> utf8_cont c \<and> utf8_cont d \<and>
             (a = 0xF0 \<longrightarrow> 0x90 \<le> b) \<and> (a = 0xF4 \<longrightarrow> b \<le> 0x8F) \<and> utf8_valid es))))))"

definition from_utf8 :: "bytes \<Rightarrow> bytes option" where
  "from_utf8 bs = (if utf8_valid bs then Some bs else None)"

lemma from_utf8_Some [simp]: "from_utf8 bs = Some s \<longleftrightarrow> s = bs \<and> utf8_valid bs"
  by (auto simp: from_utf8_def)

lemma utf8_valid_from_utf8: "utf8_valid bs \<Longrightarrow> from_utf8 bs = Some bs"
  by simp

subsection \<open>The \<open>?\<close> operator\<close>

text \<open>
  \<open>rbind\<close> is \<open>?\<close> on a result; \<open>sbind\<close> is \<open>?\<close> in a function that also mutates a state
  (\<open>&mut self\<close>, a reader, the file system): the first error returns at once, with the
  state as it is then.
\<close>

definition rbind :: "'e + 'a \<Rightarrow> ('a \<Rightarrow> 'e + 'b) \<Rightarrow> 'e + 'b" where
  "rbind r f = (case r of Inl e \<Rightarrow> Inl e | Inr x \<Rightarrow> f x)"

definition ok_or :: "'e \<Rightarrow> 'a option \<Rightarrow> 'e + 'a" where
  "ok_or e x = (case x of None \<Rightarrow> Inl e | Some y \<Rightarrow> Inr y)"

definition sret :: "'a \<Rightarrow> 's \<Rightarrow> ('e + 'a) \<times> 's" where
  "sret x s = (Inr x, s)"

definition sfail :: "'e \<Rightarrow> 's \<Rightarrow> ('e + 'a) \<times> 's" where
  "sfail e s = (Inl e, s)"

definition slift :: "'e + 'a \<Rightarrow> 's \<Rightarrow> ('e + 'a) \<times> 's" where
  "slift r s = (r, s)"

definition sbind ::
  "('s \<Rightarrow> ('e + 'a) \<times> 's) \<Rightarrow> ('a \<Rightarrow> 's \<Rightarrow> ('e + 'b) \<times> 's) \<Rightarrow> 's \<Rightarrow> ('e + 'b) \<times> 's" where
  "sbind m f s = (case m s of (Inl e, s') \<Rightarrow> (Inl e, s') | (Inr x, s') \<Rightarrow> f x s')"

definition smap_err :: "('d \<Rightarrow> 'e) \<Rightarrow> ('s \<Rightarrow> ('d + 'a) \<times> 's) \<Rightarrow> 's \<Rightarrow> ('e + 'a) \<times> 's" where
  "smap_err g m s = (case m s of (Inl e, s') \<Rightarrow> (Inl (g e), s') | (Inr x, s') \<Rightarrow> (Inr x, s'))"

lemma rbind_simps [simp]:
  "rbind (Inl e) f = Inl e"
  "rbind (Inr x) f = f x"
  by (simp_all add: rbind_def)

lemma rbind_Inr_iff: "rbind r f = Inr y \<longleftrightarrow> (\<exists>x. r = Inr x \<and> f x = Inr y)"
  by (cases r) auto

lemma ok_or_simps [simp]:
  "ok_or e None = Inl e"
  "ok_or e (Some x) = Inr x"
  by (simp_all add: ok_or_def)

lemma ok_or_Inr [simp]: "ok_or e x = Inr y \<longleftrightarrow> x = Some y"
  by (cases x) auto

lemma ok_or_Inl [simp]: "ok_or e x = Inl d \<longleftrightarrow> x = None \<and> d = e"
  by (cases x) auto

lemma sret_apply [simp]: "sret x s = (Inr x, s)"
  by (simp add: sret_def)

lemma sfail_apply [simp]: "sfail e s = (Inl e, s)"
  by (simp add: sfail_def)

lemma slift_apply [simp]: "slift r s = (r, s)"
  by (simp add: slift_def)

lemma sbind_Inr: "m s = (Inr x, s') \<Longrightarrow> sbind m f s = f x s'"
  by (simp add: sbind_def)

lemma sbind_Inl: "m s = (Inl e, s') \<Longrightarrow> sbind m f s = (Inl e, s')"
  by (simp add: sbind_def)

lemma sbind_pure [simp]:
  "sbind (sret x) f = f x"
  "sbind (sfail e) f = sfail e"
  "sbind (slift (Inr x)) f = f x"
  "sbind (slift (Inl e)) f = sfail e"
  by (auto simp: sbind_def fun_eq_iff)

lemma sbind_Inr_iff:
  "sbind m f s = (Inr y, s'') \<longleftrightarrow> (\<exists>x s'. m s = (Inr x, s') \<and> f x s' = (Inr y, s''))"
  by (auto simp: sbind_def split: prod.splits sum.splits)

lemma sbind_Inl_iff:
  "sbind m f s = (Inl e, s'') \<longleftrightarrow>
     m s = (Inl e, s'') \<or> (\<exists>x s'. m s = (Inr x, s') \<and> f x s' = (Inl e, s''))"
  by (auto simp: sbind_def split: prod.splits sum.splits)

lemma sbind_InrE:
  assumes "sbind m f s = (Inr y, s'')"
  obtains x s' where "m s = (Inr x, s')" and "f x s' = (Inr y, s'')"
  using assms by (auto simp: sbind_Inr_iff)

lemma sbind_InlE:
  assumes "sbind m f s = (Inl e, s'')"
  obtains (stop) "m s = (Inl e, s'')"
    | (run) x s' where "m s = (Inr x, s')" and "f x s' = (Inl e, s'')"
  using assms by (auto simp: sbind_Inl_iff)

lemma slift_Inr [simp]: "slift r s = (Inr x, s') \<longleftrightarrow> r = Inr x \<and> s' = s"
  by auto

lemma smap_err_Inr: "m s = (Inr x, s') \<Longrightarrow> smap_err g m s = (Inr x, s')"
  by (simp add: smap_err_def)

lemma smap_err_Inl: "m s = (Inl e, s') \<Longrightarrow> smap_err g m s = (Inl (g e), s')"
  by (simp add: smap_err_def)

lemma smap_err_Inr_iff: "smap_err g m s = (Inr x, s') \<longleftrightarrow> m s = (Inr x, s')"
  by (auto simp: smap_err_def split: prod.splits sum.splits)

subsection \<open>Lists\<close>

lemma take_length_append [simp]: "n = length xs \<Longrightarrow> take n (xs @ ys) = xs"
  by simp

lemma drop_length_append [simp]: "n = length xs \<Longrightarrow> drop n (xs @ ys) = ys"
  by simp

lemma take_min_append: "take (min n (length xs)) (xs @ ys) = take n xs"
  by (simp add: min_def)

lemma nth_take_drop: "n < k \<Longrightarrow> m + k \<le> length xs \<Longrightarrow> take k (drop m xs) ! n = xs ! (m + n)"
  by simp

lemma xor_changes:
  fixes b c :: byte
  assumes "c \<noteq> 0"
  shows "b \<noteq> b XOR c"
proof
  assume "b = b XOR c"
  then have "b XOR b = b XOR (b XOR c)" by simp
  with assms show False by (simp flip: xor.assoc)
qed

end
