(* ===== verification/Vocabulary.thy ===== *)
theory Vocabulary
  imports Prelude
begin

section \<open>Vocabulary: identifiers, metrics, metadata values, paths\<close>

text \<open>
  The values the crate handles but does not define.  \<open>DistanceMetric\<close>, \<open>VectorId\<close> and
  \<open>Value\<close> come from \<open>iqdb_types\<close>; their variants are the ones the crate's own matches
  list (\<open>src/format.rs\<close>, \<open>src/wal.rs\<close>).  \<open>DistanceMetric\<close> is non-exhaustive, so a
  variant the crate has no arm for is \<open>OtherMetric\<close>.  Floats are their bit patterns, since
  the crate only ever moves them through \<open>to_le_bytes\<close> and \<open>from_bits\<close>; an \<open>i64\<close> is its
  two's complement word.  A \<open>String\<close> is its bytes, valid UTF-8 by \<open>well_formed\<close> predicates
  where that matters.
\<close>

datatype distance_metric =
    Cosine | DotProduct | Euclidean | Manhattan | Hamming | OtherMetric nat

datatype vector_id = U64 u64 | Bytes bytes

type_synonym f32 = u32

datatype metadata_value =
    VString bytes
  | VInt u64
  | VFloat u64
  | VBool bool
  | VNull

text \<open>
  \<open>Metadata\<close> is abstract: the crate reads it with \<open>len\<close> and \<open>iter\<close> and builds it by
  collecting the decoded pairs.  Those three operations are the parameter.
\<close>

record 'm metadata_ops =
  meta_len :: "'m \<Rightarrow> nat"
  meta_iter :: "'m \<Rightarrow> (bytes \<times> metadata_value) list"
  meta_collect :: "(bytes \<times> metadata_value) list \<Rightarrow> 'm"

fun value_utf8 :: "metadata_value \<Rightarrow> bool" where
  "value_utf8 (VString s) = utf8_valid s"
| "value_utf8 _ = True"

text \<open>
  What the crate relies on: \<open>len\<close> counts what \<open>iter\<close> yields, keys and string values are
  UTF-8 (they are Rust \<open>String\<close>s), and collecting what \<open>iter\<close> yields rebuilds the map.
\<close>

definition metadata_ok :: "'m metadata_ops \<Rightarrow> bool" where
  "metadata_ok M \<longleftrightarrow>
     (\<forall>m. meta_len M m = length (meta_iter M m)) \<and>
     (\<forall>m. meta_collect M (meta_iter M m) = m) \<and>
     (\<forall>m. \<forall>(k, v) \<in> set (meta_iter M m). utf8_valid k \<and> value_utf8 v)"

lemma metadata_okD:
  assumes "metadata_ok M"
  shows "meta_len M m = length (meta_iter M m)"
    and "meta_collect M (meta_iter M m) = m"
    and "(k, v) \<in> set (meta_iter M m) \<Longrightarrow> utf8_valid k"
    and "(k, v) \<in> set (meta_iter M m) \<Longrightarrow> value_utf8 v"
  using assms by (auto simp: metadata_ok_def)

subsection \<open>Paths\<close>

text \<open>
  A \<open>std::path::Path\<close> is its components (no empty or \<open>.\<close> components), absolute or
  relative.  \<open>Path False []\<close> is the empty path, \<open>Path True []\<close> the root.
  \<open>parent\<close> and \<open>file_name\<close> follow the standard library: a relative path of one
  component has the empty path as its parent, not \<open>None\<close>.
\<close>

datatype path = Path (is_absolute: bool) (components: "string list")

fun path_parent :: "path \<Rightarrow> path option" where
  "path_parent (Path a cs) = (if cs = [] then None else Some (Path a (butlast cs)))"

fun path_file_name :: "path \<Rightarrow> string option" where
  "path_file_name (Path a cs) =
     (if cs = [] \<or> last cs = ''..'' then None else Some (last cs))"

fun path_join :: "path \<Rightarrow> string \<Rightarrow> path" where
  "path_join (Path a cs) name = Path a (cs @ [name])"

text \<open>Appending to the last component, which is \<open>OsString::push\<close> on a path.\<close>

fun path_push_os :: "path \<Rightarrow> string \<Rightarrow> path" where
  "path_push_os (Path a cs) ext =
     (if cs = [] then Path a [ext] else Path a (butlast cs @ [last cs @ ext]))"

lemma path_parent_join [simp]: "path_parent (path_join d n) = Some d"
  by (cases d) simp

lemma path_push_os_neq [simp]: "ext \<noteq> [] \<Longrightarrow> path_push_os p ext \<noteq> p"
proof (cases p)
  case (Path a cs)
  assume "ext \<noteq> []"
  then show ?thesis
    using Path by (cases cs rule: rev_cases) auto
qed

subsection \<open>Errors of \<open>std::io\<close>\<close>

datatype io_kind = NotFound | UnexpectedEof | InvalidInput | AlreadyExists | OtherKind

datatype io_error = IoError (io_error_kind: io_kind) (io_error_msg: string)

end
