(* ===== verification/Errors.thy ===== *)
theory Errors
  imports Vocabulary
begin

section \<open>The domain error (\<open>src/error.rs\<close>)\<close>

text \<open>
  \<open>PersistError\<close>, one constructor per variant.  The nested \<open>IqdbError\<close> belongs to
  another crate and is the type parameter \<open>'ie\<close>.
\<close>

datatype 'ie persist_error =
    Io path io_error
  | BadMagic bytes
  | UnsupportedVersion u32 u32
  | ChecksumMismatch u32 u32
  | TruncatedHeader nat nat
  | TruncatedPayload u64 u64
  | InvalidMetric byte
  | UnsupportedMetric distance_metric
  | InvalidIndexType bytes bytes
  | InvalidPayload string
  | CompressionError string
  | IndexBuild 'ie
  | Unsupported string string

text \<open>\<open>Result<T>\<close>.\<close>

type_synonym ('ie, 'a) result = "'ie persist_error + 'a"

text \<open>A fallible operation on a mutable state \<open>'s\<close>.\<close>

type_synonym ('s, 'ie, 'a) prog = "'s \<Rightarrow> ('ie persist_error + 'a) \<times> 's"

text \<open>\<open>std::error::Error::source\<close>: the two variants that wrap another error.\<close>

fun error_source :: "'ie persist_error \<Rightarrow> (io_error + 'ie) option" where
  "error_source (Io p source) = Some (Inl source)"
| "error_source (IndexBuild e) = Some (Inr e)"
| "error_source _ = None"

text \<open>\<open>ForgeError::kind\<close> and \<open>ForgeError::caption\<close>.\<close>

primrec error_kind :: "'ie persist_error \<Rightarrow> string" where
  "error_kind (Io p source) = ''Io''"
| "error_kind (BadMagic found) = ''BadMagic''"
| "error_kind (UnsupportedVersion found supported) = ''UnsupportedVersion''"
| "error_kind (ChecksumMismatch expected computed) = ''ChecksumMismatch''"
| "error_kind (TruncatedHeader needed found) = ''TruncatedHeader''"
| "error_kind (TruncatedPayload needed found) = ''TruncatedPayload''"
| "error_kind (InvalidMetric tag) = ''InvalidMetric''"
| "error_kind (UnsupportedMetric metric) = ''UnsupportedMetric''"
| "error_kind (InvalidIndexType found expected) = ''InvalidIndexType''"
| "error_kind (InvalidPayload reason) = ''InvalidPayload''"
| "error_kind (CompressionError reason) = ''Compression''"
| "error_kind (IndexBuild e) = ''IndexBuild''"
| "error_kind (Unsupported feature available_in) = ''Unsupported''"

primrec error_caption :: "'ie persist_error \<Rightarrow> string" where
  "error_caption (Io p source) = ''OS-level I/O failure on a snapshot file''"
| "error_caption (BadMagic found) = ''file is not an iqdb snapshot''"
| "error_caption (UnsupportedVersion found supported) =
     ''snapshot format version is not supported by this build''"
| "error_caption (ChecksumMismatch expected computed) = ''payload CRC32 does not match the header''"
| "error_caption (TruncatedHeader needed found) = ''file ended before the full header could be read''"
| "error_caption (TruncatedPayload needed found) = ''file ended before the full payload could be read''"
| "error_caption (InvalidMetric tag) =
     ''metric tag does not correspond to any known distance metric''"
| "error_caption (UnsupportedMetric metric) = ''distance metric has no on-disk tag in this build''"
| "error_caption (InvalidIndexType found expected) =
     ''header's index-type tag does not match the caller's I''"
| "error_caption (InvalidPayload reason) = ''payload bytes decoded to a structurally invalid index''"
| "error_caption (CompressionError reason) = ''a compression or decompression step failed''"
| "error_caption (IndexBuild e) = ''a downstream Index::new or insert returned an error''"
| "error_caption (Unsupported feature available_in) =
     ''the requested feature lands in a later version of iqdb-persist''"

text \<open>\<open>From<IqdbError>\<close>, which \<open>?\<close> applies to an index operation's result.\<close>

definition from_iqdb :: "'ie \<Rightarrow> 'ie persist_error" where
  "from_iqdb e = IndexBuild e"

definition map_iqdb :: "'ie + 'a \<Rightarrow> ('ie, 'a) result" where
  "map_iqdb r = (case r of Inl e \<Rightarrow> Inl (from_iqdb e) | Inr x \<Rightarrow> Inr x)"

lemma map_iqdb_simps [simp]:
  "map_iqdb (Inl e) = Inl (IndexBuild e)"
  "map_iqdb (Inr x) = Inr x"
  by (simp_all add: map_iqdb_def from_iqdb_def)

text \<open>The variants that carry a source are the two that wrap another error.\<close>

lemma error_source_by_kind:
  "error_source e \<noteq> None \<longleftrightarrow> error_kind e = ''Io'' \<or> error_kind e = ''IndexBuild''"
  by (cases e) simp_all

end
