(* ===== verification/Checksum.thy ===== *)
theory Checksum
  imports Errors
begin

section \<open>Payload checksums (\<open>src/checksum.rs\<close>)\<close>

text \<open>
  \<open>crc32fast::hash\<close> is another crate's function and so the argument \<open>crc\<close>.  Everything
  below holds for any such function, except what is proved in the locale
  \<open>crc_detects\<close>: there, that a change of one byte changes the checksum.
\<close>

definition compute :: "(bytes \<Rightarrow> u32) \<Rightarrow> bytes \<Rightarrow> u32" where
  "compute crc bs = crc bs"

definition verify :: "(bytes \<Rightarrow> u32) \<Rightarrow> bytes \<Rightarrow> u32 \<Rightarrow> ('ie, unit) result" where
  "verify crc bs expected =
     (let computed = compute crc bs
      in if computed = expected then Inr () else Inl (ChecksumMismatch expected computed))"

lemma verify_ok_iff: "verify crc bs e = Inr u \<longleftrightarrow> compute crc bs = e"
  by (auto simp: verify_def Let_def)

lemma verify_compute [simp]: "verify crc bs (compute crc bs) = Inr ()"
  by (simp add: verify_def)

lemma verify_mismatch:
  "compute crc bs \<noteq> e \<Longrightarrow> verify crc bs e = Inl (ChecksumMismatch e (compute crc bs))"
  by (simp add: verify_def Let_def)

locale crc_detects =
  fixes crc :: "bytes \<Rightarrow> u32"
  assumes detects: "b \<noteq> c \<Longrightarrow> crc (xs @ b # ys) \<noteq> crc (xs @ c # ys)"
begin

lemma detects_update:
  assumes "i < length bs" and "bs ! i \<noteq> b"
  shows "crc (bs[i := b]) \<noteq> crc bs"
proof -
  have "bs = take i bs @ bs ! i # drop (Suc i) bs"
    using assms(1) by (rule id_take_nth_drop)
  moreover have "bs[i := b] = take i bs @ b # drop (Suc i) bs"
    using assms(1) by (simp add: upd_conv_take_nth_drop)
  ultimately show ?thesis
    using assms(2) detects by metis
qed

lemma verify_flipped:
  assumes "i < length bs" and "bs ! i \<noteq> b"
  shows "verify crc (bs[i := b]) (compute crc bs) =
           Inl (ChecksumMismatch (compute crc bs) (compute crc (bs[i := b])))"
  using detects_update [OF assms] by (simp add: verify_def compute_def Let_def)

end

subsection \<open>The IEEE polynomial\<close>

text \<open>
  The module documents its checksum as the CRC-32 of the IEEE polynomial.  The bitwise form
  of that function (reflected, polynomial \<open>0xEDB88320\<close>, initial value and final
  exclusive-or all ones) is what \<open>crc_detects\<close> is interpreted on.  It detects any change of
  one byte because each register step is injective.
\<close>

definition crc_step :: "u32 \<Rightarrow> u32" where
  "crc_step c = (if bit c 0 then drop_bit 1 c XOR 0xEDB88320 else drop_bit 1 c)"

definition crc_byte :: "u32 \<Rightarrow> byte \<Rightarrow> u32" where
  "crc_byte c b = (crc_step ^^ 8) (c XOR ucast b)"

definition crc32_ieee :: "bytes \<Rightarrow> u32" where
  "crc32_ieee bs = NOT (foldl crc_byte 0xFFFFFFFF bs)"

lemma bit31_poly: "bit (0xEDB88320 :: u32) 31"
  by simp

lemma crc_step_top: "bit (crc_step c) 31 \<longleftrightarrow> bit c 0"
  using bit31_poly by (auto simp: crc_step_def bit_xor_iff bit_drop_bit_eq dest: bit_imp_le_length)

lemma inj_crc_step: "inj crc_step"
proof (rule injI)
  fix c d
  assume eq: "crc_step c = crc_step d"
  then have low: "bit c 0 \<longleftrightarrow> bit d 0" by (metis crc_step_top)
  with eq have hi: "drop_bit 1 c = drop_bit 1 d"
    by (auto simp: crc_step_def xor_right_cancel split: if_splits)
  show "c = d"
  proof (rule bit_word_eqI)
    fix n
    show "bit c n = bit d n"
    proof (cases n)
      case 0
      then show ?thesis using low by simp
    next
      case (Suc m)
      have "bit (drop_bit 1 c) m = bit (drop_bit 1 d) m" by (simp only: hi)
      then show ?thesis by (simp add: Suc bit_drop_bit_eq)
    qed
  qed
qed

lemma inj_crc_byte_state: "crc_byte c b = crc_byte d b \<Longrightarrow> c = d"
proof -
  assume "crc_byte c b = crc_byte d b"
  then have "c XOR ucast b = d XOR ucast b"
    unfolding crc_byte_def by (rule injD [OF inj_fn [OF inj_crc_step]])
  then show "c = d" by (simp only: xor_right_cancel)
qed

lemma inj_crc_byte_input: "crc_byte c a = crc_byte c b \<Longrightarrow> a = b"
proof -
  assume "crc_byte c a = crc_byte c b"
  then have "c XOR ucast a = c XOR (ucast b :: u32)"
    unfolding crc_byte_def by (rule injD [OF inj_fn [OF inj_crc_step]])
  then have "ucast a XOR c = ucast b XOR (c :: u32)" by (simp only: xor.commute)
  then have eq: "(ucast a :: u32) = ucast b" by (simp only: xor_right_cancel)
  show "a = b"
  proof (rule bit_word_eqI)
    fix n
    assume "n < LENGTH(8)"
    moreover have "bit (ucast a :: u32) n = bit (ucast b :: u32) n" by (simp only: eq)
    ultimately show "bit a n = bit b n" by (simp add: bit_unsigned_iff)
  qed
qed

lemma foldl_crc_byte_inj: "foldl crc_byte c bs = foldl crc_byte d bs \<Longrightarrow> c = d"
  by (induction bs arbitrary: c d) (auto dest: inj_crc_byte_state)

lemma crc32_ieee_detects:
  assumes "b \<noteq> c"
  shows "crc32_ieee (xs @ b # ys) \<noteq> crc32_ieee (xs @ c # ys)"
proof
  assume "crc32_ieee (xs @ b # ys) = crc32_ieee (xs @ c # ys)"
  then have "foldl crc_byte (crc_byte (foldl crc_byte 0xFFFFFFFF xs) b) ys =
             foldl crc_byte (crc_byte (foldl crc_byte 0xFFFFFFFF xs) c) ys"
    by (simp add: crc32_ieee_def)
  then have "b = c" by (rule inj_crc_byte_input [OF foldl_crc_byte_inj])
  with assms show False by simp
qed

interpretation ieee: crc_detects crc32_ieee
  by unfold_locales (rule crc32_ieee_detects)

text \<open>The check value of the standard: the CRC-32 of the nine digits.\<close>

lemma crc_byte_unfold:
  "crc_byte c b = crc_step (crc_step (crc_step (crc_step
     (crc_step (crc_step (crc_step (crc_step (c XOR ucast b))))))))"
  by (simp add: crc_byte_def eval_nat_numeral)

lemma crc32_ieee_check: "crc32_ieee (ascii ''123456789'') = 0xCBF43926"
  by (simp add: crc32_ieee_def ascii_def crc_byte_unfold crc_step_def bit_0)

end
