(* ===== verification/Config.thy ===== *)
theory Config
  imports Errors
begin

section \<open>Configuration (\<open>src/config.rs\<close>)\<close>

text \<open>
  A \<open>Duration\<close> is a number of nanoseconds.  The level of \<open>Zstd\<close> is an \<open>i32\<close>, kept
  as a 32-bit word and read with \<open>sint\<close>.
\<close>

datatype fsync_policy = Always | Periodic nat | Never

datatype compression = NoCompression | Zstd u32 | Lz4

record persist_config =
  cfg_path :: path
  wal_enabled :: bool
  cfg_fsync_policy :: fsync_policy
  cfg_compression :: compression

definition config_new :: "path \<Rightarrow> persist_config" where
  "config_new p = \<lparr>cfg_path = p, wal_enabled = False,
     cfg_fsync_policy = Always, cfg_compression = NoCompression\<rparr>"

definition config_default :: persist_config where
  "config_default = \<lparr>cfg_path = Path False [], wal_enabled = False,
     cfg_fsync_policy = Always, cfg_compression = NoCompression\<rparr>"

lemma config_default_eq: "config_default = config_new (Path False [])"
  by (simp add: config_default_def config_new_def)

end
