(* ===== verification/Format.thy ===== *)
theory Format
  imports Config
begin

section \<open>The snapshot header and its wire format (\<open>src/format.rs\<close>)\<close>

text \<open>
  \<open>FileHeader\<close>, \<open>write_header\<close> and \<open>read_header\<close> with their helpers, over models of the
  two standard traits they use: a \<open>reader\<close> is the bytes still to come, the number already
  read, and what ends the stream (end of file, or an I/O error); a \<open>writer\<close> is the bytes
  written and, for a sink that can fail, the room left and the error.  The lemmas give the
  byte image of a header, both directions of the round trip, and the errors.
\<close>

subsection \<open>\<open>std::io::Read\<close> and \<open>std::io::Write\<close>\<close>

record reader =
  rrest :: bytes
  rpos :: nat
  rend :: "io_error option"

definition cursor_new :: "bytes \<Rightarrow> reader" where
  "cursor_new bs = \<lparr>rrest = bs, rpos = 0, rend = None\<rparr>"

definition read_exact :: "nat \<Rightarrow> reader \<Rightarrow> (io_error + bytes) \<times> reader" where
  "read_exact n r =
     (if n \<le> length (rrest r)
      then (Inr (take n (rrest r)), r\<lparr>rrest := drop n (rrest r), rpos := rpos r + n\<rparr>)
      else (Inl (case rend r of
                   None \<Rightarrow> IoError UnexpectedEof ''failed to fill whole buffer''
                 | Some e \<Rightarrow> e),
            r\<lparr>rrest := [], rpos := rpos r + length (rrest r)\<rparr>))"

record writer =
  wbuf :: bytes
  wroom :: "(nat \<times> io_error) option"

definition vec_writer :: "bytes \<Rightarrow> writer" where
  "vec_writer buf = \<lparr>wbuf = buf, wroom = None\<rparr>"

definition write_all_dyn :: "bytes \<Rightarrow> writer \<Rightarrow> (io_error + unit) \<times> writer" where
  "write_all_dyn bs w =
     (case wroom w of
        None \<Rightarrow> (Inr (), w\<lparr>wbuf := wbuf w @ bs\<rparr>)
      | Some (room, e) \<Rightarrow>
          if length bs \<le> room
          then (Inr (), w\<lparr>wbuf := wbuf w @ bs, wroom := Some (room - length bs, e)\<rparr>)
          else (Inl e, w\<lparr>wbuf := wbuf w @ take room bs, wroom := Some (0, e)\<rparr>))"

subsection \<open>The header\<close>

definition MAGIC :: bytes where "MAGIC = ascii ''IQDBPRST''"
definition CURRENT_VERSION :: u32 where "CURRENT_VERSION = 2"
definition MIN_SUPPORTED_VERSION :: u32 where "MIN_SUPPORTED_VERSION = 1"
definition MAX_INDEX_TYPE_LEN :: nat where "MAX_INDEX_TYPE_LEN = 4096"

record file_header =
  fh_magic :: bytes
  fh_version :: u32
  fh_index_type :: bytes
  fh_dim :: nat
  fh_metric :: distance_metric
  fh_n_vectors :: nat
  fh_crc32 :: u32

fun metric_to_tag :: "distance_metric \<Rightarrow> ('ie, byte) result" where
  "metric_to_tag Cosine = Inr 0"
| "metric_to_tag DotProduct = Inr 1"
| "metric_to_tag Euclidean = Inr 2"
| "metric_to_tag Manhattan = Inr 3"
| "metric_to_tag Hamming = Inr 4"
| "metric_to_tag metric = Inl (UnsupportedMetric metric)"

definition tag_to_metric :: "byte \<Rightarrow> ('ie, distance_metric) result" where
  "tag_to_metric tag =
     (if tag = 0 then Inr Cosine
      else if tag = 1 then Inr DotProduct
      else if tag = 2 then Inr Euclidean
      else if tag = 3 then Inr Manhattan
      else if tag = 4 then Inr Hamming
      else Inl (InvalidMetric tag))"

definition usize_to_u64 :: "nat \<Rightarrow> string \<Rightarrow> ('ie, u64) result" where
  "usize_to_u64 value what =
     ok_or (InvalidPayload
       (if what = ''dim'' then ''dim does not fit in u64''
        else if what = ''n_vectors'' then ''n_vectors does not fit in u64''
        else if what = ''index_type_len'' then ''index_type length does not fit in u64''
        else ''usize value does not fit in u64''))
      (u64_try_from value)"

definition u64_to_usize :: "nat \<Rightarrow> u64 \<Rightarrow> string \<Rightarrow> ('ie, nat) result" where
  "u64_to_usize umax value what =
     ok_or (InvalidPayload
       (if what = ''dim'' then ''dim does not fit in usize on this host''
        else if what = ''n_vectors'' then ''n_vectors does not fit in usize on this host''
        else if what = ''index_type_len''
          then ''index_type length does not fit in usize on this host''
        else ''u64 value does not fit in usize on this host''))
      (usize_try_from umax value)"

definition write_all :: "bytes \<Rightarrow> (writer, 'ie, unit) prog" where
  "write_all bs = smap_err (Io (Path False [])) (write_all_dyn bs)"

definition read_exact_or_truncated :: "nat \<Rightarrow> (reader, 'ie, bytes) prog" where
  "read_exact_or_truncated n =
     smap_err
       (\<lambda>e. if io_error_kind e = UnexpectedEof then TruncatedHeader n 0
            else Io (Path False []) e)
       (read_exact n)"

definition write_header :: "file_header \<Rightarrow> (writer, 'ie, unit) prog" where
  "write_header h =
     sbind (write_all (fh_magic h)) (\<lambda>_.
     sbind (write_all (to_le 4 (fh_version h))) (\<lambda>_.
     sbind (slift (usize_to_u64 (length (fh_index_type h)) ''index_type_len'')) (\<lambda>it_len.
     sbind (write_all (to_le 8 it_len)) (\<lambda>_.
     sbind (write_all (fh_index_type h)) (\<lambda>_.
     sbind (slift (usize_to_u64 (fh_dim h) ''dim'')) (\<lambda>dim_u64.
     sbind (write_all (to_le 8 dim_u64)) (\<lambda>_.
     sbind (slift (metric_to_tag (fh_metric h))) (\<lambda>tag.
     sbind (write_all [tag]) (\<lambda>_.
     sbind (slift (usize_to_u64 (fh_n_vectors h) ''n_vectors'')) (\<lambda>n_u64.
     sbind (write_all (to_le 8 n_u64)) (\<lambda>_.
     write_all (to_le 4 (fh_crc32 h)))))))))))))"

definition read_header :: "nat \<Rightarrow> (reader, 'ie, file_header) prog" where
  "read_header umax =
     sbind (read_exact_or_truncated 8) (\<lambda>magic.
     if magic \<noteq> MAGIC then sfail (BadMagic magic) else
     sbind (read_exact_or_truncated 4) (\<lambda>buf4.
     let version = of_le buf4 in
     if \<not> (MIN_SUPPORTED_VERSION \<le> version \<and> version \<le> CURRENT_VERSION)
     then sfail (UnsupportedVersion version CURRENT_VERSION) else
     sbind (read_exact_or_truncated 8) (\<lambda>buf8.
     sbind (slift (u64_to_usize umax (of_le buf8) ''index_type_len'')) (\<lambda>it_len.
     if it_len > MAX_INDEX_TYPE_LEN
     then sfail (InvalidPayload ''index_type length exceeds the 4 KiB cap'') else
     sbind (read_exact_or_truncated it_len) (\<lambda>it_bytes.
     sbind (slift (ok_or (InvalidPayload ''index_type is not valid UTF-8'')
                         (from_utf8 it_bytes))) (\<lambda>index_type.
     sbind (read_exact_or_truncated 8) (\<lambda>buf8.
     sbind (slift (u64_to_usize umax (of_le buf8) ''dim'')) (\<lambda>dim.
     sbind (read_exact_or_truncated 1) (\<lambda>metric_buf.
     sbind (slift (tag_to_metric (metric_buf ! 0))) (\<lambda>metric.
     sbind (read_exact_or_truncated 8) (\<lambda>buf8.
     sbind (slift (u64_to_usize umax (of_le buf8) ''n_vectors'')) (\<lambda>n_vectors.
     sbind (read_exact_or_truncated 4) (\<lambda>buf4.
     sret \<lparr>fh_magic = magic, fh_version = version, fh_index_type = index_type,
       fh_dim = dim, fh_metric = metric, fh_n_vectors = n_vectors,
       fh_crc32 = of_le buf4\<rparr>)))))))))))))"


subsection \<open>Reading and writing, step by step\<close>

lemma read_exact_ok:
  "length xs = n \<Longrightarrow>
   read_exact_or_truncated n \<lparr>rrest = xs @ ys, rpos = p, rend = e\<rparr> =
     (Inr xs, \<lparr>rrest = ys, rpos = p + n, rend = e\<rparr>)"
  by (simp add: read_exact_or_truncated_def smap_err_def read_exact_def)

lemma read_exact_one:
  "read_exact_or_truncated (Suc 0) \<lparr>rrest = x # ys, rpos = p, rend = e\<rparr> =
     (Inr [x], \<lparr>rrest = ys, rpos = Suc p, rend = e\<rparr>)"
  by (simp add: read_exact_or_truncated_def smap_err_def read_exact_def)

lemma read_exact_Inr_iff:
  "read_exact_or_truncated n r = (Inr xs, r') \<longleftrightarrow>
     n \<le> length (rrest r) \<and> xs = take n (rrest r) \<and>
     r' = r\<lparr>rrest := drop n (rrest r), rpos := rpos r + n\<rparr>"
  by (auto simp: read_exact_or_truncated_def smap_err_Inr_iff read_exact_def)

lemma read_exact_split:
  assumes "read_exact_or_truncated n r = (Inr xs, r')"
  shows "rrest r = xs @ rrest r'" and "length xs = n" and "rpos r' = rpos r + n"
    and "rend r' = rend r"
  using assms by (auto simp: read_exact_Inr_iff)

lemma read_exact_short:
  "length bs < n \<Longrightarrow>
   read_exact_or_truncated n \<lparr>rrest = bs, rpos = p, rend = None\<rparr> =
     (Inl (TruncatedHeader n 0), \<lparr>rrest = [], rpos = p + length bs, rend = None\<rparr>)"
  by (simp add: read_exact_or_truncated_def smap_err_def read_exact_def)

lemma write_all_vec [simp]:
  "write_all bs (vec_writer buf) = (Inr (), vec_writer (buf @ bs))"
  by (simp add: write_all_def smap_err_def write_all_dyn_def vec_writer_def)

lemma usize_to_u64_Inr: "usize_to_u64 n what = Inr w \<longleftrightarrow> n = unat w"
  by (simp add: usize_to_u64_def u64_try_from_Some)

lemma u64_to_usize_Inr: "u64_to_usize umax w what = Inr n \<longleftrightarrow> n = unat w \<and> n \<le> umax"
  by (auto simp: u64_to_usize_def usize_try_from_def)

lemma usize_to_u64_fits: "n \<le> U64_MAX \<Longrightarrow> usize_to_u64 n what = Inr (of_nat n)"
  by (simp add: usize_to_u64_Inr unat_of_nat_u64)

lemma u64_to_usize_fits:
  "n \<le> U64_MAX \<Longrightarrow> n \<le> umax \<Longrightarrow> u64_to_usize umax (of_nat n) what = Inr n"
  by (simp add: u64_to_usize_Inr unat_of_nat_u64)

subsection \<open>Metric tags\<close>

text \<open>The on-disk contract as a table: the tag of each metric the format knows.\<close>

definition metric_tag :: "distance_metric \<Rightarrow> byte option" where
  "metric_tag m = map_of [(Cosine, 0), (DotProduct, 1), (Euclidean, 2), (Manhattan, 3), (Hamming, 4)] m"

lemma metric_to_tag_Inr: "metric_to_tag m = Inr t \<longleftrightarrow> metric_tag m = Some t"
  by (cases m) (auto simp: metric_tag_def)

lemma tag_to_metric_Inr: "tag_to_metric t = Inr m \<longleftrightarrow> metric_tag m = Some t"
  by (cases m) (auto simp: metric_tag_def tag_to_metric_def)

lemma metric_tag_inject: "metric_tag m = Some t \<Longrightarrow> metric_tag m' = Some t \<Longrightarrow> m = m'"
  by (metis Inr_inject tag_to_metric_Inr)

lemma tag_to_metric_Inl: "4 < t \<Longrightarrow> tag_to_metric t = Inl (InvalidMetric t)"
  by (auto simp: tag_to_metric_def)

subsection \<open>The image of a header\<close>

text \<open>
  \<open>header_image tag h\<close> is the layout of the module's documentation, with the metric's tag
  byte given.  \<open>header_ok\<close> says which headers the reader accepts on a host: the magic, a
  supported version, an index type of at most 4 KiB of UTF-8, a metric with a tag, sizes
  that fit the host.
\<close>

definition header_image :: "byte \<Rightarrow> file_header \<Rightarrow> bytes" where
  "header_image tag h =
     fh_magic h @ to_le 4 (fh_version h) @
     to_le 8 (of_nat (length (fh_index_type h)) :: u64) @ fh_index_type h @
     to_le 8 (of_nat (fh_dim h) :: u64) @ [tag] @
     to_le 8 (of_nat (fh_n_vectors h) :: u64) @ to_le 4 (fh_crc32 h)"

definition writable :: "file_header \<Rightarrow> byte \<Rightarrow> bool" where
  "writable h tag \<longleftrightarrow>
     metric_tag (fh_metric h) = Some tag \<and>
     length (fh_index_type h) \<le> U64_MAX \<and> fh_dim h \<le> U64_MAX \<and> fh_n_vectors h \<le> U64_MAX"

definition header_ok :: "nat \<Rightarrow> file_header \<Rightarrow> bool" where
  "header_ok umax h \<longleftrightarrow>
     fh_magic h = MAGIC \<and>
     MIN_SUPPORTED_VERSION \<le> fh_version h \<and> fh_version h \<le> CURRENT_VERSION \<and>
     utf8_valid (fh_index_type h) \<and> length (fh_index_type h) \<le> min MAX_INDEX_TYPE_LEN umax \<and>
     (\<exists>tag. writable h tag) \<and> fh_dim h \<le> umax \<and> fh_n_vectors h \<le> umax"

lemma length_MAGIC [simp]: "length MAGIC = 8"
  by (simp add: MAGIC_def)

lemma length_header_image:
  "fh_magic h = MAGIC \<Longrightarrow> length (header_image tag h) = 41 + length (fh_index_type h)"
  by (simp add: header_image_def)

lemma write_header_image:
  assumes "writable h tag"
  shows "write_header h (vec_writer buf) = (Inr (), vec_writer (buf @ header_image tag h))"
proof -
  have tag: "metric_to_tag (fh_metric h) = Inr tag"
    using assms by (simp add: writable_def metric_to_tag_Inr)
  show ?thesis
    using assms
    by (simp add: write_header_def sbind_def usize_to_u64_fits tag writable_def
        header_image_def del: to_le.simps)
qed

lemma unat_u64_le [simp]: "unat (w :: u64) \<le> U64_MAX"
  by (metis u64_try_from_None u64_try_from_Some leI option.distinct(1))

lemma write_header_vec_Inr:
  assumes "write_header h (vec_writer buf) = (Inr () :: ('ie, unit) result, w)"
  obtains tag where "writable h tag" and "w = vec_writer (buf @ header_image tag h)"
proof -
  from assms obtain tag where "writable h tag"
    by (auto simp: write_header_def sbind_Inr_iff usize_to_u64_Inr writable_def
        metric_to_tag_Inr simp del: to_le.simps)
  moreover from this have "write_header h (vec_writer buf) =
      (Inr () :: ('ie, unit) result, vec_writer (buf @ header_image tag h))"
    by (rule write_header_image)
  ultimately show thesis using assms by (intro that [of tag]) simp_all
qed

subsection \<open>Reading back what was written, and only that\<close>

lemma read_header_image:
  assumes ok: "header_ok umax h" and tag: "writable h tag"
  shows "read_header umax \<lparr>rrest = header_image tag h @ rest, rpos = p, rend = e\<rparr> =
    (Inr h, \<lparr>rrest = rest, rpos = p + 41 + length (fh_index_type h), rend = e\<rparr>)"
proof -
  have metric: "tag_to_metric tag = Inr (fh_metric h)"
    using tag by (simp add: tag_to_metric_Inr writable_def)
  have sizes: "length (fh_index_type h) \<le> U64_MAX" "fh_dim h \<le> U64_MAX" "fh_n_vectors h \<le> U64_MAX"
    using tag by (auto simp: writable_def)
  show ?thesis
    using ok sizes
    by (cases h)
      (simp add: read_header_def header_image_def sbind_def read_exact_ok read_exact_one header_ok_def
        u64_to_usize_fits metric utf8_valid_from_utf8 del: to_le.simps)
qed

lemma read_header_steps:
  assumes "read_header umax r = (Inr h :: ('ie, file_header) result, r')"
  obtains r1 r2 r3 r4 r5 r6 r7 b4 b8 i8 it bt n8 c4 where
    "read_exact_or_truncated 8 r = (Inr MAGIC :: ('ie, bytes) result, r1)"
    and "read_exact_or_truncated 4 r1 = (Inr b4 :: ('ie, bytes) result, r2)"
    and "read_exact_or_truncated 8 r2 = (Inr i8 :: ('ie, bytes) result, r3)"
    and "read_exact_or_truncated (unat (of_le i8 :: u64)) r3 =
           (Inr it :: ('ie, bytes) result, r4)"
    and "read_exact_or_truncated 8 r4 = (Inr b8 :: ('ie, bytes) result, r5)"
    and "read_exact_or_truncated (Suc 0) r5 = (Inr bt :: ('ie, bytes) result, r6)"
    and "read_exact_or_truncated 8 r6 = (Inr n8 :: ('ie, bytes) result, r7)"
    and "read_exact_or_truncated 4 r7 = (Inr c4 :: ('ie, bytes) result, r')"
    and "fh_magic h = MAGIC" and "fh_version h = of_le b4" and "fh_crc32 h = of_le c4"
    and "fh_dim h = unat (of_le b8 :: u64)" and "fh_n_vectors h = unat (of_le n8 :: u64)"
    and "metric_tag (fh_metric h) = Some (bt ! 0)"
    and "MIN_SUPPORTED_VERSION \<le> fh_version h" and "fh_version h \<le> CURRENT_VERSION"
    and "fh_index_type h = it" and "utf8_valid it" and "fh_dim h \<le> umax" and "fh_n_vectors h \<le> umax"
    and "unat (of_le i8 :: u64) \<le> min MAX_INDEX_TYPE_LEN umax"
proof -
  show thesis
    using assms unfolding read_header_def
    by (clarsimp simp: Let_def u64_to_usize_Inr tag_to_metric_Inr split: if_splits elim!: sbind_InrE)
      (rule that, assumption+, simp_all)
qed

lemma to_le_of_le_u32: "length bs = 4 \<Longrightarrow> to_le 4 (of_le bs :: u32) = bs"
  by (rule to_le_of_le) simp_all

lemma to_le_of_le_u64: "length bs = 8 \<Longrightarrow> to_le 8 (of_le bs :: u64) = bs"
  by (rule to_le_of_le) simp_all

lemma read_header_sound:
  assumes "read_header umax r = (Inr h :: ('ie, file_header) result, r')"
  obtains tag where "header_ok umax h" and "writable h tag"
    and "rrest r = header_image tag h @ rrest r'"
    and "rpos r' = rpos r + length (header_image tag h)"
proof -
  obtain r1 r2 r3 r4 r5 r6 r7 b4 b8 i8 it bt n8 c4 where
    steps: "read_exact_or_truncated 8 r = (Inr MAGIC :: ('ie, bytes) result, r1)"
      "read_exact_or_truncated 4 r1 = (Inr b4 :: ('ie, bytes) result, r2)"
      "read_exact_or_truncated 8 r2 = (Inr i8 :: ('ie, bytes) result, r3)"
      "read_exact_or_truncated (unat (of_le i8 :: u64)) r3 =
         (Inr it :: ('ie, bytes) result, r4)"
      "read_exact_or_truncated 8 r4 = (Inr b8 :: ('ie, bytes) result, r5)"
      "read_exact_or_truncated (Suc 0) r5 = (Inr bt :: ('ie, bytes) result, r6)"
      "read_exact_or_truncated 8 r6 = (Inr n8 :: ('ie, bytes) result, r7)"
      "read_exact_or_truncated 4 r7 = (Inr c4 :: ('ie, bytes) result, r')"
    and fields: "fh_magic h = MAGIC" "fh_version h = of_le b4" "fh_crc32 h = of_le c4"
      "fh_dim h = unat (of_le b8 :: u64)" "fh_n_vectors h = unat (of_le n8 :: u64)"
      "metric_tag (fh_metric h) = Some (bt ! 0)"
    and ok: "MIN_SUPPORTED_VERSION \<le> fh_version h" "fh_version h \<le> CURRENT_VERSION"
      "fh_index_type h = it" "utf8_valid it" "fh_dim h \<le> umax" "fh_n_vectors h \<le> umax"
      "unat (of_le i8 :: u64) \<le> min MAX_INDEX_TYPE_LEN umax"
    by (rule read_header_steps [OF assms])
  note splits = steps [THEN read_exact_split(1)]
  note lens = steps [THEN read_exact_split(2)]
  have it: "length (fh_index_type h) = unat (of_le i8 :: u64)" using lens(4) ok(3) by simp
  have bt: "[bt ! 0] = bt" using lens(6) by (cases bt) auto
  have w: "writable h (bt ! 0)" by (simp add: writable_def fields it)
  have img: "header_image (bt ! 0) h = MAGIC @ b4 @ i8 @ it @ b8 @ bt @ n8 @ c4"
    using lens
    by (simp add: header_image_def fields it bt ok(3) to_le_of_le_u32 to_le_of_le_u64
        del: to_le.simps)
  show thesis
  proof (rule that)
    show "header_ok umax h" using ok it w by (auto simp: header_ok_def fields)
    show "writable h (bt ! 0)" by (rule w)
    show "rrest r = header_image (bt ! 0) h @ rrest r'"
      unfolding img by (simp add: splits)
    show "rpos r' = rpos r + length (header_image (bt ! 0) h)"
      using steps [THEN read_exact_split(3)] lens unfolding img by simp
  qed
qed

subsection \<open>Reading more input\<close>

text \<open>
  A reader program is \<open>extendable\<close> when more input never changes its answer, except that
  it may turn a truncation into something else.  The combinators keep this, so
  \<open>read_header\<close> has it.
\<close>

definition extendable :: "(reader, 'ie, 'a) prog \<Rightarrow> bool" where
  "extendable m \<longleftrightarrow>
     (\<forall>xs ys p. case m \<lparr>rrest = xs, rpos = p, rend = None\<rparr> of
        (Inr v, r') \<Rightarrow> rend r' = None \<and>
           m \<lparr>rrest = xs @ ys, rpos = p, rend = None\<rparr> = (Inr v, r'\<lparr>rrest := rrest r' @ ys\<rparr>)
      | (Inl e, r') \<Rightarrow> (\<exists>n. e = TruncatedHeader n 0 \<and> n \<le> MAX_INDEX_TYPE_LEN) \<or>
           fst (m \<lparr>rrest = xs @ ys, rpos = p, rend = None\<rparr>) = Inl e)"

named_theorems extend \<open>programs that are extendable\<close>

lemma extendable_Inr:
  assumes "extendable m" and "m \<lparr>rrest = xs, rpos = p, rend = None\<rparr> = (Inr v, r')"
  shows "\<exists>xs' p'. r' = \<lparr>rrest = xs', rpos = p', rend = None\<rparr> \<and>
    m \<lparr>rrest = xs @ ys, rpos = p, rend = None\<rparr> = (Inr v, \<lparr>rrest = xs' @ ys, rpos = p', rend = None\<rparr>)"
  using assms(1) [unfolded extendable_def, rule_format, where xs = xs and p = p and ys = ys] assms(2)
  by (cases r') simp

lemma extendable_Inl:
  assumes "extendable m" and "m \<lparr>rrest = xs, rpos = p, rend = None\<rparr> = (Inl e, r')"
  shows "(\<exists>n. e = TruncatedHeader n 0 \<and> n \<le> MAX_INDEX_TYPE_LEN) \<or>
    fst (m \<lparr>rrest = xs @ ys, rpos = p, rend = None\<rparr>) = Inl e"
  using assms(1) [unfolded extendable_def, rule_format, where xs = xs and p = p and ys = ys] assms(2) by simp

lemma extendable_pure [extend]:
  "extendable (sret x)" "extendable (sfail e)" "extendable (slift r)"
  by (auto simp: extendable_def split: sum.splits)

lemma extendable_sbind [extend]:
  assumes m: "extendable m" and f: "\<And>x. extendable (f x)"
  shows "extendable (sbind m f)"
  unfolding extendable_def
proof (intro allI)
  fix xs ys p
  let ?r = "\<lparr>rrest = xs, rpos = p, rend = None\<rparr>"
  let ?R = "\<lparr>rrest = xs @ ys, rpos = p, rend = None\<rparr>"
  obtain v r' where run: "m ?r = (v, r')" by (cases "m ?r")
  show "case sbind m f ?r of
      (Inr v, r') \<Rightarrow> rend r' = None \<and> sbind m f ?R = (Inr v, r'\<lparr>rrest := rrest r' @ ys\<rparr>)
    | (Inl e, r') \<Rightarrow> (\<exists>n. e = TruncatedHeader n 0 \<and> n \<le> MAX_INDEX_TYPE_LEN) \<or>
        fst (sbind m f ?R) = Inl e"
  proof (cases v)
    case (Inl e)
    then show ?thesis
      using extendable_Inl [OF m, of xs p e r' ys] run
      by (cases "m ?R") (auto simp: sbind_def)
  next
    case (Inr x)
    then obtain xs' p' where r': "r' = \<lparr>rrest = xs', rpos = p', rend = None\<rparr>"
      and ext: "m ?R = (Inr x, \<lparr>rrest = xs' @ ys, rpos = p', rend = None\<rparr>)"
      using extendable_Inr [OF m, of xs p x r' ys] run by auto
    have steps: "sbind m f ?r = f x r'" "sbind m f ?R = f x \<lparr>rrest = xs' @ ys, rpos = p', rend = None\<rparr>"
      using run Inr ext by (simp_all add: sbind_def)
    show ?thesis
      using f [of x, unfolded extendable_def, rule_format, where xs = xs' and p = p' and ys = ys]
      unfolding steps r' .
  qed
qed

lemma extendable_read [extend]: "n \<le> MAX_INDEX_TYPE_LEN \<Longrightarrow> extendable (read_exact_or_truncated n)"
  by (auto simp: extendable_def read_exact_or_truncated_def smap_err_def read_exact_def)

lemma extendable_if [extend]: "(b \<Longrightarrow> extendable m) \<Longrightarrow> (\<not> b \<Longrightarrow> extendable m') \<Longrightarrow>
  extendable (if b then m else m')"
  by simp

lemma extendable_read_header: "extendable (read_header umax)"
  unfolding read_header_def Let_def
  by (intro extend) (simp_all add: MAX_INDEX_TYPE_LEN_def)

lemma read_header_prefix_Inl:
  assumes full: "read_header umax \<lparr>rrest = xs @ ys, rpos = p, rend = None\<rparr> =
      (Inr h :: ('ie, file_header) result, r')"
    and short: "length ys > length (rrest r')"
  shows "\<exists>n r. read_header umax \<lparr>rrest = xs, rpos = p, rend = None\<rparr> =
      (Inl (TruncatedHeader n 0) :: ('ie, file_header) result, r) \<and> n \<le> MAX_INDEX_TYPE_LEN"
proof -
  obtain v r where run: "read_header umax \<lparr>rrest = xs, rpos = p, rend = None\<rparr> =
      (v :: ('ie, file_header) result, r)"
    using prod.exhaust by blast
  show ?thesis
  proof (cases v)
    case (Inl e)
    with extendable_Inl [OF extendable_read_header run [unfolded Inl], of ys] full run
    show ?thesis by auto
  next
    case (Inr h')
    with extendable_Inr [OF extendable_read_header run [unfolded Inr], of ys] full short
    show ?thesis by auto
  qed
qed

subsection \<open>What a read answers\<close>

text \<open>
  \<open>header_checks\<close> lists, for a byte buffer, every check the reader makes in the order of the
  format, each with the error of its failure.  It is stated by absolute positions in the
  buffer: the magic at 0, the version at 8, the length \<open>L\<close> of the index type at 12, the
  index type at 20, the dimension behind it at \<open>20 + L\<close>, the metric at \<open>28 + L\<close>, the number of
  vectors at \<open>29 + L\<close> and the checksum at \<open>37 + L\<close>.  \<open>header_fields\<close> is the header these
  positions hold.
\<close>

definition word_at :: "bytes \<Rightarrow> nat \<Rightarrow> nat" where
  "word_at bs p = unat (of_le (take 8 (drop p bs)) :: u64)"

definition header_checks :: "nat \<Rightarrow> bytes \<Rightarrow> (bool \<times> 'ie persist_error) list" where
  "header_checks umax bs =
     (let n = length bs; version = of_le (take 4 (drop 8 bs)); L = word_at bs 12 in
      [(8 \<le> n, TruncatedHeader 8 0),
       (take 8 bs = MAGIC, BadMagic (take 8 bs)),
       (12 \<le> n, TruncatedHeader 4 0),
       (version \<in> {1, 2}, UnsupportedVersion version 2),
       (20 \<le> n, TruncatedHeader 8 0),
       (L \<le> umax, InvalidPayload ''index_type length does not fit in usize on this host''),
       (L \<le> 4096, InvalidPayload ''index_type length exceeds the 4 KiB cap''),
       (20 + L \<le> n, TruncatedHeader L 0),
       (utf8_valid (take L (drop 20 bs)), InvalidPayload ''index_type is not valid UTF-8''),
       (28 + L \<le> n, TruncatedHeader 8 0),
       (word_at bs (20 + L) \<le> umax, InvalidPayload ''dim does not fit in usize on this host''),
       (29 + L \<le> n, TruncatedHeader 1 0),
       (bs ! (28 + L) \<le> 4, InvalidMetric (bs ! (28 + L))),
       (37 + L \<le> n, TruncatedHeader 8 0),
       (word_at bs (29 + L) \<le> umax, InvalidPayload ''n_vectors does not fit in usize on this host''),
       (41 + L \<le> n, TruncatedHeader 4 0)])"

definition header_fields :: "bytes \<Rightarrow> file_header" where
  "header_fields bs =
     (let L = word_at bs 12 in
      \<lparr>fh_magic = MAGIC, fh_version = of_le (take 4 (drop 8 bs)), fh_index_type = take L (drop 20 bs),
       fh_dim = word_at bs (20 + L),
       fh_metric = [Cosine, DotProduct, Euclidean, Manhattan, Hamming] ! unat (bs ! (28 + L)),
       fh_n_vectors = word_at bs (29 + L), fh_crc32 = of_le (take 4 (drop (37 + L) bs))\<rparr>)"

text \<open>The answer of a list of checks: the error of the first that fails, or the value.\<close>

definition verdict :: "(bool \<times> 'ie persist_error) list \<Rightarrow> 'a \<Rightarrow> ('ie, 'a) result" where
  "verdict checks x =
     (case find (\<lambda>(ok, e). \<not> ok) checks of None \<Rightarrow> Inr x | Some (ok, e) \<Rightarrow> Inl e)"

lemma verdict_simps:
  "verdict [] x = Inr x"
  "verdict ((ok, e) # checks) x = (if ok then verdict checks x else Inl e)"
  by (simp_all add: verdict_def)

text \<open>A program at a position of the buffer, and the checks that its first step makes.\<close>

definition reader_at :: "bytes \<Rightarrow> nat \<Rightarrow> reader" where
  "reader_at bs p = \<lparr>rrest = drop p bs, rpos = p, rend = None\<rparr>"

lemma verdict_read:
  fixes f :: "bytes \<Rightarrow> (reader, 'ie, 'a) prog"
  assumes "p \<le> length bs" and "q = p + n"
    and "q \<le> length bs \<Longrightarrow> fst (f (take n (drop p bs)) (reader_at bs q)) = verdict checks x"
  shows "fst (sbind (read_exact_or_truncated n) f (reader_at bs p)) =
    verdict ((q \<le> length bs, TruncatedHeader n 0) # checks) x"
proof (cases "q \<le> length bs")
  case True
  then have "read_exact_or_truncated n (reader_at bs p) = (Inr (take n (drop p bs)) :: ('ie, bytes) result, reader_at bs q)"
    using assms(1,2) by (simp add: read_exact_Inr_iff reader_at_def add.commute)
  then show ?thesis using True assms(3) by (simp add: sbind_def verdict_simps)
next
  case False
  then have "fst (read_exact_or_truncated n (reader_at bs p)) = (Inl (TruncatedHeader n 0) :: ('ie, bytes) result)"
    using assms(1,2) by (simp add: read_exact_or_truncated_def smap_err_def read_exact_def reader_at_def)
  then show ?thesis using False by (auto simp: sbind_def verdict_simps split: prod.splits)
qed

lemma verdict_if:
  assumes "b \<longleftrightarrow> \<not> c" and "e' = e" and "c \<Longrightarrow> fst (m s) = verdict checks x"
  shows "fst ((if b then sfail e' else m) s) = verdict ((c, e) # checks) x"
  using assms by (simp add: verdict_simps sfail_def)

lemma verdict_slift:
  assumes "c \<Longrightarrow> r = Inr y" and "\<not> c \<Longrightarrow> r = Inl e" and "c \<Longrightarrow> fst (f y s) = verdict checks x"
  shows "fst (sbind (slift r) f s) = verdict ((c, e) # checks) x"
  using assms by (cases c) (simp_all add: verdict_simps sbind_def slift_def)

lemma version_supported: "MIN_SUPPORTED_VERSION \<le> v \<and> v \<le> CURRENT_VERSION \<longleftrightarrow> v \<in> {1, 2}"
  for v :: u32
proof
  assume "MIN_SUPPORTED_VERSION \<le> v \<and> v \<le> CURRENT_VERSION"
  then have "1 \<le> unat v \<and> unat v \<le> 2"
    by (simp add: word_le_nat_alt MIN_SUPPORTED_VERSION_def CURRENT_VERSION_def)
  then have "unat v \<in> {1, 2}" by auto
  then show "v \<in> {1, 2}" by (auto dest: unat_eqD)
qed (auto simp: MIN_SUPPORTED_VERSION_def CURRENT_VERSION_def)

lemma tag_to_metric_at:
  "tag_to_metric t = (if t \<le> 4 then Inr ([Cosine, DotProduct, Euclidean, Manhattan, Hamming] ! unat t)
     else Inl (InvalidMetric t))"
proof (cases "t \<le> 4")
  case True
  then have "unat t \<le> 4" by (simp add: word_le_nat_alt)
  then have "unat t \<in> {0, 1, 2, 3, 4}" by auto
  then have "t \<in> {0, 1, 2, 3, 4}" by (auto dest: unat_eqD)
  then show ?thesis by (auto simp: tag_to_metric_def)
next
  case False
  then show ?thesis by (auto simp: tag_to_metric_def)
qed

definition unfit_name :: "string \<Rightarrow> string" where
  "unfit_name what =
     (if what = ''dim'' then ''dim does not fit in usize on this host''
      else if what = ''n_vectors'' then ''n_vectors does not fit in usize on this host''
      else if what = ''index_type_len'' then ''index_type length does not fit in usize on this host''
      else ''u64 value does not fit in usize on this host'')"

lemma u64_to_usize_name:
  "u64_to_usize umax w what = ok_or (InvalidPayload (unfit_name what)) (usize_try_from umax w)"
  by (simp add: u64_to_usize_def unfit_name_def)

text \<open>The three numbers of the header are read alike.\<close>

lemma verdict_number:
  assumes "p \<le> length bs" and "q = p + 8" and "unfit_name what = name"
    and "q \<le> length bs \<Longrightarrow> word_at bs p \<le> umax \<Longrightarrow> fst (f (word_at bs p) (reader_at bs q)) = verdict checks x"
  shows "fst (sbind (read_exact_or_truncated 8) (\<lambda>buf.
      sbind (slift (u64_to_usize umax (of_le buf) what)) f) (reader_at bs p)) =
    verdict ((q \<le> length bs, TruncatedHeader 8 0) #
      (word_at bs p \<le> umax, InvalidPayload name) # checks) x"
  using assms
  by (intro verdict_read verdict_slift) (simp_all add: u64_to_usize_name usize_try_from_def word_at_def)

lemma read_header_at: "fst (read_header umax (reader_at bs 0)) = verdict (header_checks umax bs) (header_fields bs)"
  unfolding read_header_def header_checks_def Let_def
  apply (rule verdict_read, simp, simp)
  apply (rule verdict_if, simp, simp)
  apply (rule verdict_read, simp, simp)
  apply (rule verdict_if, simp add: version_supported, simp add: CURRENT_VERSION_def)
  apply (rule verdict_number, simp, simp, simp add: unfit_name_def)
  apply (rule verdict_if, simp add: MAX_INDEX_TYPE_LEN_def not_le, simp)
  apply (rule verdict_read, simp, simp)
  apply (rule verdict_slift [where y = "take (word_at bs 12) (drop 20 bs)"], simp, simp add: from_utf8_def)
  apply (rule verdict_number, simp, simp, simp add: unfit_name_def)
  apply (rule verdict_read, simp, simp)
  apply (rule verdict_slift, simp add: tag_to_metric_at, simp add: tag_to_metric_at)
  apply (rule verdict_number, simp, simp, simp add: unfit_name_def)
  apply (rule verdict_read, simp, simp)
  apply (simp add: verdict_simps header_fields_def Let_def)
  done

subsection \<open>Properties of the header format\<close>

text \<open>The header of the documentation's example.\<close>

definition example_header :: file_header where
  "example_header = \<lparr>fh_magic = MAGIC, fh_version = CURRENT_VERSION,
     fh_index_type = ascii ''flat'', fh_dim = 8, fh_metric = Euclidean,
     fh_n_vectors = 3, fh_crc32 = 0\<rparr>"

lemma example_writable: "writable example_header 2"
  by (simp add: example_header_def writable_def metric_tag_def ascii_def U64_MAX_def)

lemma example_header_ok: "header_ok U32_MAX example_header"
  using example_writable
  by (auto simp: header_ok_def example_header_def MIN_SUPPORTED_VERSION_def CURRENT_VERSION_def
      MAX_INDEX_TYPE_LEN_def ascii_def U32_MAX_def)

lemma header_ok_writable: "header_ok umax h \<Longrightarrow> \<exists>tag. writable h tag"
  by (simp add: header_ok_def)

lemma cursor_new_eq: "\<lparr>rrest = bs, rpos = 0, rend = None\<rparr> = cursor_new bs"
  by (simp add: cursor_new_def)

text \<open>
  C18. A header that is acceptable on the host (\<open>header_ok\<close>) is written without error, and
  reading the written bytes, whatever follows them, gives the same header back and leaves
  the cursor exactly behind it.
\<close>

theorem header_round_trip:
  assumes "header_ok umax h"
  shows "\<exists>img. write_header h (vec_writer buf) = (Inr (), vec_writer (buf @ img)) \<and>
    read_header umax (cursor_new (img @ rest)) =
      (Inr h, \<lparr>rrest = rest, rpos = length img, rend = None\<rparr>)"
proof -
  obtain tag where tag: "writable h tag" using header_ok_writable [OF assms] ..
  have "length (header_image tag h) = 41 + length (fh_index_type h)"
    using assms by (simp add: length_header_image header_ok_def)
  then show ?thesis
    by (intro exI [of _ "header_image tag h"])
      (simp add: cursor_new_def read_header_image [OF assms tag] write_header_image [OF tag])
qed

theorem header_round_trip_witness:
  "\<exists>img. write_header example_header (vec_writer []) = (Inr (), vec_writer img) \<and>
    read_header U32_MAX (cursor_new (img @ ascii ''payload'')) =
      (Inr example_header, \<lparr>rrest = ascii ''payload'', rpos = length img, rend = None\<rparr>)"
  using header_round_trip [OF example_header_ok, of "[]"] by simp

text \<open>
  C19. The format is canonical: whatever bytes the reader accepts, the header it returns is
  acceptable on the host, and writing that header gives exactly the bytes that were read.
\<close>

theorem header_canonical:
  assumes "read_header umax (cursor_new bs) = (Inr h :: ('ie, file_header) result, r')"
  shows "header_ok umax h \<and> rpos r' \<le> length bs \<and> rrest r' = drop (rpos r') bs \<and>
    write_header h (vec_writer []) = (Inr (), vec_writer (take (rpos r') bs))"
proof -
  obtain tag where "header_ok umax h" and w: "writable h tag"
    and "rrest (cursor_new bs) = header_image tag h @ rrest r'"
    and "rpos r' = rpos (cursor_new bs) + length (header_image tag h)"
    by (rule read_header_sound [OF assms])
  then show ?thesis
    using write_header_image [OF w, of "[]"] by (simp add: cursor_new_def)
qed

theorem header_canonical_witness:
  "\<exists>bs r'. read_header U32_MAX (cursor_new bs) = (Inr example_header :: (unit, file_header) result, r') \<and>
    write_header example_header (vec_writer []) = (Inr (), vec_writer (take (rpos r') bs))"
proof -
  let ?bs = "header_image 2 example_header @ [7, 7]"
  obtain r' where r: "read_header U32_MAX (cursor_new ?bs) =
      (Inr example_header :: (unit, file_header) result, r')"
    using read_header_image [OF example_header_ok example_writable, of "[7, 7]" 0 None]
    unfolding cursor_new_def by blast
  with header_canonical [OF r] show ?thesis by blast
qed

text \<open>
  C28. A file that ends inside its header is reported as a truncated header, wherever it was
  cut; the field being read is never longer than 4 KiB, so a crafted length cannot ask for a
  larger buffer.  The \<open>found\<close> field of the error is always 0.
\<close>

theorem header_truncated:
  assumes "header_ok umax h" and "write_header h (vec_writer []) = (Inr () :: ('ie, unit) result, vec_writer img)"
    and "k < length img"
  shows "\<exists>needed r. needed \<le> 4096 \<and>
    read_header umax (cursor_new (take k img)) =
      (Inl (TruncatedHeader needed 0) :: ('ie, file_header) result, r)"
proof -
  obtain tag where tag: "writable h tag" and img: "img = header_image tag h"
    by (rule write_header_vec_Inr [OF assms(2)]) (simp add: vec_writer_def)
  have "read_header umax \<lparr>rrest = take k img @ drop k img, rpos = 0, rend = None\<rparr> =
      (Inr h :: ('ie, file_header) result,
       \<lparr>rrest = [], rpos = 0 + 41 + length (fh_index_type h), rend = None\<rparr>)"
    using read_header_image [OF assms(1) tag, of "[]" 0 None] by (simp add: img)
  from read_header_prefix_Inl [OF this] show ?thesis
    using assms(3) by (auto simp: cursor_new_eq MAX_INDEX_TYPE_LEN_def)
qed

theorem header_truncated_witness:
  "\<exists>img needed r. length img = 45 \<and> needed \<le> 4096 \<and>
    read_header U32_MAX (cursor_new (take 21 img)) =
      (Inl (TruncatedHeader needed 0) :: (unit, file_header) result, r)"
proof -
  let ?img = "header_image 2 example_header"
  have len: "length ?img = 45"
    using length_header_image [of example_header 2] by (simp add: example_header_def ascii_def)
  have w: "write_header example_header (vec_writer []) = (Inr () :: (unit, unit) result, vec_writer ?img)"
    using write_header_image [OF example_writable, of "[]"] by simp
  have k: "21 < length ?img" by (simp add: len)
  show ?thesis using header_truncated [OF example_header_ok w k] len by blast
qed

text \<open>
  C29. What \<open>read_header\<close> answers on any byte buffer.  The reader makes the checks of
  \<open>header_checks\<close> in the order of the format: it fails with the error of the first check that
  does not hold (the field that is cut off, the magic, the version, the length or the encoding
  of the index type, a number too large for the host, the metric tag), and when all hold it
  returns the header whose fields stand at their positions.
\<close>

theorem read_header_errors:
  "(fst (read_header umax (cursor_new bs)) :: ('ie, file_header) result) =
    (case find (\<lambda>(ok, e). \<not> ok) (header_checks umax bs) of
       None \<Rightarrow> Inr (header_fields bs)
     | Some (ok, e) \<Rightarrow> Inl e)"
  using read_header_at [of umax bs] by (simp add: reader_at_def cursor_new_def verdict_def)

lemma u64_to_usize_unfit:
  "n \<le> U64_MAX \<Longrightarrow> umax < n \<Longrightarrow> u64_to_usize umax (of_nat n) ''dim'' =
     Inl (InvalidPayload ''dim does not fit in usize on this host'')"
  "n \<le> U64_MAX \<Longrightarrow> umax < n \<Longrightarrow> u64_to_usize umax (of_nat n) ''n_vectors'' =
     Inl (InvalidPayload ''n_vectors does not fit in usize on this host'')"
  by (simp_all add: u64_to_usize_def usize_try_from_def unat_of_nat_u64)

text \<open>
  Snapshots are portable between hosts: a header accepted on one host is read with the
  same fields on any other whose \<open>usize\<close> holds them, and is otherwise refused with an
  error that names the field, never truncated to the smaller width.
\<close>

theorem header_portable:
  assumes "read_header umax (cursor_new bs) = (Inr h :: ('ie, file_header) result, r')"
    and "MAX_INDEX_TYPE_LEN \<le> umax'"
  shows "fst (read_header umax' (cursor_new bs)) =
    (if umax' < fh_dim h
       then Inl (InvalidPayload ''dim does not fit in usize on this host'')
     else if umax' < fh_n_vectors h
       then Inl (InvalidPayload ''n_vectors does not fit in usize on this host'')
     else Inr h :: ('ie, file_header) result)"
proof -
  obtain tag where ok: "header_ok umax h" and w: "writable h tag"
    and bs: "bs = header_image tag h @ rrest r'"
    by (rule read_header_sound [OF assms(1)]) (simp add: cursor_new_def)
  have metric: "tag_to_metric tag = Inr (fh_metric h)"
    using w by (simp add: tag_to_metric_Inr writable_def)
  show ?thesis
    using ok w assms(2)
    by (cases h) (simp add: bs cursor_new_def read_header_def header_image_def sbind_def
        read_exact_ok read_exact_one header_ok_def writable_def u64_to_usize_fits
        u64_to_usize_unfit metric utf8_valid_from_utf8 not_less del: to_le.simps)
qed

theorem header_portable_witness:
  "\<exists>bs. fst (read_header U64_MAX (cursor_new bs)) =
      (Inr (example_header\<lparr>fh_dim := 2 ^ 40\<rparr>) :: (unit, file_header) result) \<and>
    fst (read_header U32_MAX (cursor_new bs)) =
      (Inl (InvalidPayload ''dim does not fit in usize on this host'') :: (unit, file_header) result)"
proof -
  let ?h = "example_header\<lparr>fh_dim := 2 ^ 40\<rparr>"
  have w: "writable ?h 2"
    using example_writable by (simp add: writable_def U64_MAX_def)
  have ok: "header_ok U64_MAX ?h"
    using example_header_ok w by (auto simp: header_ok_def U32_MAX_def U64_MAX_def example_header_def)
  have r: "read_header U64_MAX (cursor_new (header_image 2 ?h)) =
      (Inr ?h :: (unit, file_header) result,
       \<lparr>rrest = [], rpos = 41 + length (fh_index_type ?h), rend = None\<rparr>)"
    using read_header_image [OF ok w, of "[]" 0 None] by (simp add: cursor_new_def)
  have "fst (read_header U32_MAX (cursor_new (header_image 2 ?h))) =
      (Inl (InvalidPayload ''dim does not fit in usize on this host'') :: (unit, file_header) result)"
    using header_portable [OF r, of U32_MAX] by (simp add: MAX_INDEX_TYPE_LEN_def U32_MAX_def)
  then show ?thesis using r by (intro exI [of _ "header_image 2 ?h"]) simp
qed

text \<open>
  The metric tags are a fixed bijection between the five known metrics and the bytes 0
  to 4, in both directions, and everything outside it is an error that carries the offending
  value: an unknown byte on load, a metric without a tag on save.
\<close>

theorem metric_tags:
  "(tag_to_metric t = Inr m \<longleftrightarrow> metric_to_tag m = Inr t) \<and>
   (tag_to_metric t = Inl e \<longleftrightarrow> 4 < t \<and> e = InvalidMetric t) \<and>
   (metric_to_tag m = Inl e' \<longleftrightarrow> (\<exists>k. m = OtherMetric k) \<and> e' = UnsupportedMetric m)"
proof (intro conjI)
  show "tag_to_metric t = Inr m \<longleftrightarrow> metric_to_tag m = Inr t"
    by (simp add: tag_to_metric_Inr metric_to_tag_Inr)
  show "tag_to_metric t = Inl e \<longleftrightarrow> 4 < t \<and> e = InvalidMetric t"
  proof
    assume inl: "tag_to_metric t = Inl e"
    then show "4 < t \<and> e = InvalidMetric t" by (auto simp: tag_to_metric_at split: if_splits)
  qed (simp add: tag_to_metric_at not_le)
  show "metric_to_tag m = Inl e' \<longleftrightarrow> (\<exists>k. m = OtherMetric k) \<and> e' = UnsupportedMetric m"
    by (cases m) auto
qed

end
