(* ===== verification/Compression.thy ===== *)
theory Compression
  imports Config
begin

section \<open>Snapshot-payload compression (\<open>src/compression.rs\<close>)\<close>

text \<open>
  The two codecs are other crates behind cargo features; both the features and the codec
  functions are the fields of a \<open>codec\<close> record.  \<open>codec_ok\<close> is what the crate relies on:
  decompressing what was compressed gives the input back.  Everything the module decides
  itself is modelled: the scheme tags, the level check, the length check after
  decompression and the decompression-ratio guard.
\<close>

record codec =
  zstd_feature :: bool
  lz4_feature :: bool
  zstd_encode_all :: "bytes \<Rightarrow> u32 \<Rightarrow> bytes option"
  zstd_decode_all :: "bytes \<Rightarrow> bytes option"
  lz4_compress :: "bytes \<Rightarrow> bytes"
  lz4_decompress :: "bytes \<Rightarrow> nat \<Rightarrow> bytes option"

definition codec_ok :: "codec \<Rightarrow> bool" where
  "codec_ok C \<longleftrightarrow>
     (\<forall>raw level data. zstd_encode_all C raw level = Some data \<longrightarrow>
        zstd_decode_all C data = Some raw) \<and>
     (\<forall>raw. lz4_decompress C (lz4_compress C raw) (length raw) = Some raw)"

definition SCHEME_NONE :: byte where "SCHEME_NONE = 0"
definition SCHEME_ZSTD :: byte where "SCHEME_ZSTD = 1"
definition SCHEME_LZ4 :: byte where "SCHEME_LZ4 = 2"
definition MAX_DECOMPRESS_RATIO :: nat where "MAX_DECOMPRESS_RATIO = 4096"

lemmas scheme_defs = SCHEME_NONE_def SCHEME_ZSTD_def SCHEME_LZ4_def

fun scheme_tag :: "compression \<Rightarrow> byte" where
  "scheme_tag NoCompression = SCHEME_NONE"
| "scheme_tag (Zstd level) = SCHEME_ZSTD"
| "scheme_tag Lz4 = SCHEME_LZ4"

definition encode_zstd :: "codec \<Rightarrow> bytes \<Rightarrow> u32 \<Rightarrow> ('ie, bytes) result" where
  "encode_zstd C raw level =
     (if zstd_feature C then
        if \<not> (1 \<le> sint level \<and> sint level \<le> 22)
        then Inl (CompressionError ''zstd level must be in 1..=22'')
        else ok_or (CompressionError ''zstd compression failed'') (zstd_encode_all C raw level)
      else Inl (Unsupported ''Zstd compression'' ''the `zstd` cargo feature''))"

definition decode_zstd :: "codec \<Rightarrow> bytes \<Rightarrow> nat \<Rightarrow> ('ie, bytes) result" where
  "decode_zstd C data uncompressed_len =
     (if zstd_feature C then
        rbind (ok_or (CompressionError ''zstd decompression failed'') (zstd_decode_all C data))
          (\<lambda>out. if length out \<noteq> uncompressed_len
                 then Inl (CompressionError
                   ''zstd decompressed length does not match the recorded length'')
                 else Inr out)
      else Inl (Unsupported ''Zstd decompression'' ''the `zstd` cargo feature''))"

definition encode_lz4 :: "codec \<Rightarrow> bytes \<Rightarrow> ('ie, bytes) result" where
  "encode_lz4 C raw =
     (if lz4_feature C then Inr (lz4_compress C raw)
      else Inl (Unsupported ''LZ4 compression'' ''the `lz4` cargo feature''))"

definition decode_lz4 :: "codec \<Rightarrow> bytes \<Rightarrow> nat \<Rightarrow> ('ie, bytes) result" where
  "decode_lz4 C data uncompressed_len =
     (if lz4_feature C then
        rbind (ok_or (CompressionError ''lz4 decompression failed'')
                 (lz4_decompress C data uncompressed_len))
          (\<lambda>out. if length out \<noteq> uncompressed_len
                 then Inl (CompressionError
                   ''lz4 decompressed length does not match the recorded length'')
                 else Inr out)
      else Inl (Unsupported ''LZ4 decompression'' ''the `lz4` cargo feature''))"

fun encode :: "codec \<Rightarrow> compression \<Rightarrow> bytes \<Rightarrow> ('ie, bytes) result" where
  "encode C NoCompression raw = Inr raw"
| "encode C (Zstd level) raw = encode_zstd C raw level"
| "encode C Lz4 raw = encode_lz4 C raw"

definition decode :: "nat \<Rightarrow> codec \<Rightarrow> byte \<Rightarrow> bytes \<Rightarrow> nat \<Rightarrow> ('ie, bytes) result" where
  "decode umax C tag data uncompressed_len =
     (if tag \<noteq> SCHEME_NONE \<and>
         uncompressed_len > usize_saturating_mul umax (length data) MAX_DECOMPRESS_RATIO
      then Inl (InvalidPayload
        ''declared uncompressed size exceeds the decompression-ratio guard'')
      else if tag = SCHEME_NONE then Inr data
      else if tag = SCHEME_ZSTD then decode_zstd C data uncompressed_len
      else if tag = SCHEME_LZ4 then decode_lz4 C data uncompressed_len
      else Inl (InvalidPayload ''unknown compression scheme tag''))"

subsection \<open>Properties\<close>

text \<open>
  A payload whose compressed form is smaller by more than the ratio guard allows.
\<close>

definition too_dense :: "nat \<Rightarrow> compression \<Rightarrow> bytes \<Rightarrow> bytes \<Rightarrow> bool" where
  "too_dense umax scheme raw data \<longleftrightarrow>
     scheme \<noteq> NoCompression \<and> min umax (4096 * length data) < length raw"

text \<open>The identity codecs, with both features on.\<close>

definition stored_codec :: codec where
  "stored_codec = \<lparr>zstd_feature = True, lz4_feature = True,
     zstd_encode_all = (\<lambda>raw level. Some raw), zstd_decode_all = Some,
     lz4_compress = (\<lambda>raw. raw), lz4_decompress = (\<lambda>data n. Some data)\<rparr>"

lemma stored_codec_ok: "codec_ok stored_codec"
  by (simp add: codec_ok_def stored_codec_def)

lemma decode_encoded:
  assumes "codec_ok C" and "encode C scheme raw = (Inr data :: ('ie, bytes) result)"
  shows "decode umax C (scheme_tag scheme) data (length raw) =
    (if too_dense umax scheme raw data
     then Inl (InvalidPayload ''declared uncompressed size exceeds the decompression-ratio guard'')
     else Inr raw :: ('ie, bytes) result)"
  using assms
  by (cases scheme)
    (auto simp: decode_def scheme_defs too_dense_def usize_saturating_mul_def codec_ok_def
      encode_zstd_def encode_lz4_def decode_zstd_def decode_lz4_def MAX_DECOMPRESS_RATIO_def
      mult.commute split: if_splits)

text \<open>
  C20. Compression round trip, with the guard made explicit.  Whatever scheme the payload was
  encoded with, decoding it with the recorded tag and length gives the payload back, except
  when it was compressed by more than a factor of 4096: then the decoder refuses it as a
  decompression bomb, although the encoder produced it.
\<close>

theorem encode_decode:
  assumes "codec_ok C" and "encode C scheme raw = (Inr data :: ('ie, bytes) result)"
  shows "decode umax C (scheme_tag scheme) data (length raw) =
    (if too_dense umax scheme raw data
     then Inl (InvalidPayload ''declared uncompressed size exceeds the decompression-ratio guard'')
     else Inr raw :: ('ie, bytes) result)"
  using assms by (rule decode_encoded)

theorem encode_decode_witness:
  "encode stored_codec (Zstd 3) [1, 2, 3] = (Inr [1, 2, 3] :: (unit, bytes) result) \<and>
   decode U32_MAX stored_codec (scheme_tag (Zstd 3)) [1, 2, 3] 3 = (Inr [1, 2, 3] :: (unit, bytes) result)"
proof -
  have e: "encode stored_codec (Zstd 3) [1, 2, 3] = (Inr [1, 2, 3] :: (unit, bytes) result)"
    by (simp add: stored_codec_def encode_zstd_def)
  show ?thesis
    using e encode_decode [OF stored_codec_ok e, of U32_MAX]
    by (simp add: too_dense_def U32_MAX_def numeral_3_eq_3)
qed

text \<open>
  C27. When decoding succeeds, and what it returns.  A region stored without compression gives
  its bytes back whatever length is declared for it: neither the length nor the ratio is
  checked there.  A compressed region is decoded exactly when its codec is compiled in and
  succeeds, the result has the declared length, and that length is at most 4096 times the
  size of the compressed data.
\<close>

theorem decode_bounded:
  "decode umax C tag data n = (Inr raw :: ('ie, bytes) result) \<longleftrightarrow>
    tag = SCHEME_NONE \<and> raw = data \<or>
    (tag = SCHEME_ZSTD \<and> zstd_feature C \<and> zstd_decode_all C data = Some raw \<or>
     tag = SCHEME_LZ4 \<and> lz4_feature C \<and> lz4_decompress C data n = Some raw) \<and>
    length raw = n \<and> n \<le> min (4096 * length data) umax"
  by (auto simp: decode_def decode_zstd_def decode_lz4_def rbind_Inr_iff usize_saturating_mul_def
      MAX_DECOMPRESS_RATIO_def scheme_defs split: if_splits)

end
