(* ===== verification/Wal_Codec.thy ===== *)
theory Wal_Codec
  imports Errors
begin

section \<open>Record bodies of the write-ahead log (\<open>src/wal.rs\<close>)\<close>

text \<open>
  The encoders append to the log's scratch buffer, so they are programs on a byte buffer;
  the decoders run on \<open>Cur\<close>, the bounds-checked cursor over a record body.  The locale
  \<open>wal_field\<close> is the contract of one field: what the encoder appends, and that the decoder
  reads it back from the middle of a body.  Every field of a record is an interpretation of
  it, and the loops over the components of a vector and the entries of the metadata are its
  lemmas \<open>put_each\<close> and \<open>get_each\<close>.
\<close>

subsection \<open>Tags\<close>

definition OP_INSERT :: byte where "OP_INSERT = 1"
definition OP_DELETE :: byte where "OP_DELETE = 2"

definition VID_U64 :: byte where "VID_U64 = 0"
definition VID_BYTES :: byte where "VID_BYTES = 1"

definition VAL_STRING :: byte where "VAL_STRING = 0"
definition VAL_INT :: byte where "VAL_INT = 1"
definition VAL_FLOAT :: byte where "VAL_FLOAT = 2"
definition VAL_BOOL :: byte where "VAL_BOOL = 3"
definition VAL_NULL :: byte where "VAL_NULL = 4"

lemmas wal_tags =
  OP_INSERT_def OP_DELETE_def VID_U64_def VID_BYTES_def VAL_STRING_def VAL_INT_def
  VAL_FLOAT_def VAL_BOOL_def VAL_NULL_def

subsection \<open>Encoders\<close>

definition push :: "byte \<Rightarrow> (bytes, 'ie, unit) prog" where
  "push b buf = (Inr (), buf @ [b])"

definition extend_from_slice :: "bytes \<Rightarrow> (bytes, 'ie, unit) prog" where
  "extend_from_slice bs buf = (Inr (), buf @ bs)"

text \<open>A \<open>for\<close> loop whose body may return early with \<open>?\<close>.\<close>

primrec for_each :: "('a \<Rightarrow> ('s, 'ie, unit) prog) \<Rightarrow> 'a list \<Rightarrow> ('s, 'ie, unit) prog" where
  "for_each put [] = sret ()"
| "for_each put (x # xs) = sbind (put x) (\<lambda>_. for_each put xs)"

definition put_u32_len :: "string \<Rightarrow> nat \<Rightarrow> (bytes, 'ie, unit) prog" where
  "put_u32_len reason n =
     sbind (slift (ok_or (InvalidPayload reason) (u32_try_from n))) (\<lambda>len.
       extend_from_slice (to_le 4 len))"

fun encode_vector_id :: "vector_id \<Rightarrow> (bytes, 'ie, unit) prog" where
  "encode_vector_id (U64 n) =
     sbind (push VID_U64) (\<lambda>_. extend_from_slice (to_le 8 n))"
| "encode_vector_id (Bytes b) =
     sbind (push VID_BYTES) (\<lambda>_.
     let len = (of_nat (length b) :: u64) in
     sbind (extend_from_slice (to_le 8 len)) (\<lambda>_. extend_from_slice b))"

fun encode_value :: "metadata_value \<Rightarrow> (bytes, 'ie, unit) prog" where
  "encode_value (VString s) =
     sbind (push VAL_STRING) (\<lambda>_.
     sbind (put_u32_len ''metadata string length does not fit in u32'' (length s)) (\<lambda>_.
     extend_from_slice s))"
| "encode_value (VInt i) = sbind (push VAL_INT) (\<lambda>_. extend_from_slice (to_le 8 i))"
| "encode_value (VFloat f) = sbind (push VAL_FLOAT) (\<lambda>_. extend_from_slice (to_le 8 f))"
| "encode_value (VBool b) = sbind (push VAL_BOOL) (\<lambda>_. push (if b then 1 else 0))"
| "encode_value VNull = push VAL_NULL"

text \<open>The body of the loop of \<open>encode_metadata\<close>, then the function.\<close>

definition encode_entry :: "bytes \<times> metadata_value \<Rightarrow> (bytes, 'ie, unit) prog" where
  "encode_entry e =
     sbind (put_u32_len ''metadata key length does not fit in u32'' (length (fst e))) (\<lambda>_.
     sbind (extend_from_slice (fst e)) (\<lambda>_.
     encode_value (snd e)))"

definition encode_metadata :: "'m metadata_ops \<Rightarrow> 'm \<Rightarrow> (bytes, 'ie, unit) prog" where
  "encode_metadata M meta =
     sbind (put_u32_len ''metadata entry count does not fit in u32'' (meta_len M meta)) (\<lambda>_.
     for_each encode_entry (meta_iter M meta))"

definition encode_component :: "f32 \<Rightarrow> (bytes, 'ie, unit) prog" where
  "encode_component c = extend_from_slice (to_le 4 c)"

text \<open>
  What \<open>append_insert\<close> and \<open>append_delete\<close> put into the cleared scratch buffer before
  they call \<open>commit_record\<close>.
\<close>

definition encode_insert ::
  "'m metadata_ops \<Rightarrow> vector_id \<Rightarrow> f32 list \<Rightarrow> 'm option \<Rightarrow> (bytes, 'ie, unit) prog" where
  "encode_insert M vid vector meta =
     sbind (push OP_INSERT) (\<lambda>_.
     sbind (encode_vector_id vid) (\<lambda>_.
     sbind (put_u32_len ''vector length does not fit in u32'' (length vector)) (\<lambda>_.
     sbind (for_each encode_component vector) (\<lambda>_.
     case meta of
       Some m \<Rightarrow> sbind (push 1) (\<lambda>_. encode_metadata M m)
     | None \<Rightarrow> push 0))))"

definition encode_delete :: "vector_id \<Rightarrow> (bytes, 'ie, unit) prog" where
  "encode_delete vid = sbind (push OP_DELETE) (\<lambda>_. encode_vector_id vid)"

subsection \<open>The cursor\<close>

record cur =
  cbytes :: bytes
  cpos :: nat

definition cur_new :: "bytes \<Rightarrow> cur" where
  "cur_new bs = \<lparr>cbytes = bs, cpos = 0\<rparr>"

definition slice_get :: "bytes \<Rightarrow> nat \<Rightarrow> nat \<Rightarrow> bytes option" where
  "slice_get bs i j = (if i \<le> j \<and> j \<le> length bs then Some (take (j - i) (drop i bs)) else None)"

definition cur_take :: "nat \<Rightarrow> nat \<Rightarrow> (cur, 'ie, bytes) prog" where
  "cur_take umax n r =
     sbind (slift (ok_or (InvalidPayload ''WAL record offset overflow'')
                         (usize_checked_add umax (cpos r) n))) (\<lambda>end'.
     sbind (slift (ok_or (InvalidPayload ''WAL record ended mid-field'')
                         (slice_get (cbytes r) (cpos r) end'))) (\<lambda>slice r.
     (Inr slice, r\<lparr>cpos := end'\<rparr>))) r"

definition cur_u8 :: "nat \<Rightarrow> (cur, 'ie, byte) prog" where
  "cur_u8 umax = sbind (cur_take umax 1) (\<lambda>b. sret (b ! 0))"

definition cur_u32 :: "nat \<Rightarrow> (cur, 'ie, u32) prog" where
  "cur_u32 umax = sbind (cur_take umax 4) (\<lambda>b. sret (of_le b))"

definition cur_u64 :: "nat \<Rightarrow> (cur, 'ie, u64) prog" where
  "cur_u64 umax = sbind (cur_take umax 8) (\<lambda>b. sret (of_le b))"

text \<open>An \<open>i64\<close> and an \<open>f64\<close> are the words that carry them.\<close>

definition cur_i64 :: "nat \<Rightarrow> (cur, 'ie, u64) prog" where
  "cur_i64 umax = cur_u64 umax"

definition cur_f32 :: "nat \<Rightarrow> (cur, 'ie, f32) prog" where
  "cur_f32 umax = sbind (cur_take umax 4) (\<lambda>b. sret (of_le b))"

definition cur_f64 :: "nat \<Rightarrow> (cur, 'ie, u64) prog" where
  "cur_f64 umax = cur_u64 umax"

definition cur_bytes :: "nat \<Rightarrow> nat \<Rightarrow> (cur, 'ie, bytes) prog" where
  "cur_bytes umax n = cur_take umax n"

subsection \<open>Decoders\<close>

datatype 'm wal_record =
    Insert vector_id "f32 list" "'m option"
  | Delete vector_id

text \<open>\<open>for _ in 0..n { v.push(get()?) }\<close>\<close>

primrec collect_n :: "nat \<Rightarrow> ('s, 'ie, 'a) prog \<Rightarrow> ('s, 'ie, 'a list) prog" where
  "collect_n 0 get = sret []"
| "collect_n (Suc n) get = sbind get (\<lambda>x. sbind (collect_n n get) (\<lambda>xs. sret (x # xs)))"

definition decode_vector_id :: "nat \<Rightarrow> (cur, 'ie, vector_id) prog" where
  "decode_vector_id umax =
     sbind (cur_u8 umax) (\<lambda>kind.
     if kind = VID_U64 then sbind (cur_u64 umax) (\<lambda>n. sret (U64 n))
     else if kind = VID_BYTES then
       sbind (cur_u64 umax) (\<lambda>n.
       sbind (slift (ok_or (InvalidPayload ''WAL vector-id length does not fit in usize'')
                           (usize_try_from umax n))) (\<lambda>len.
       sbind (cur_bytes umax len) (\<lambda>b. sret (Bytes b))))
     else sfail (InvalidPayload ''unknown WAL vector-id kind''))"

definition decode_value :: "nat \<Rightarrow> (cur, 'ie, metadata_value) prog" where
  "decode_value umax =
     sbind (cur_u8 umax) (\<lambda>tag.
     if tag = VAL_STRING then
       sbind (cur_u32 umax) (\<lambda>len.
       sbind (cur_bytes umax (unat len)) (\<lambda>b.
       sbind (slift (ok_or (InvalidPayload ''WAL metadata string is not valid UTF-8'')
                           (from_utf8 b))) (\<lambda>s.
       sret (VString s))))
     else if tag = VAL_INT then sbind (cur_i64 umax) (\<lambda>i. sret (VInt i))
     else if tag = VAL_FLOAT then sbind (cur_f64 umax) (\<lambda>f. sret (VFloat f))
     else if tag = VAL_BOOL then sbind (cur_u8 umax) (\<lambda>b. sret (VBool (b \<noteq> 0)))
     else if tag = VAL_NULL then sret VNull
     else sfail (InvalidPayload ''unknown WAL metadata value tag''))"

definition decode_entry :: "nat \<Rightarrow> (cur, 'ie, bytes \<times> metadata_value) prog" where
  "decode_entry umax =
     sbind (cur_u32 umax) (\<lambda>key_len.
     sbind (cur_bytes umax (unat key_len)) (\<lambda>b.
     sbind (slift (ok_or (InvalidPayload ''WAL metadata key is not valid UTF-8'')
                         (from_utf8 b))) (\<lambda>key.
     sbind (decode_value umax) (\<lambda>value.
     sret (key, value)))))"

definition decode_metadata :: "nat \<Rightarrow> 'm metadata_ops \<Rightarrow> (cur, 'ie, 'm) prog" where
  "decode_metadata umax M =
     sbind (cur_u32 umax) (\<lambda>n.
     sbind (collect_n (unat n) (decode_entry umax)) (\<lambda>entries.
     sret (meta_collect M entries)))"

definition decode_body :: "nat \<Rightarrow> 'm metadata_ops \<Rightarrow> (cur, 'ie, 'm wal_record) prog" where
  "decode_body umax M =
     sbind (cur_u8 umax) (\<lambda>op.
     if op = OP_INSERT then
       sbind (decode_vector_id umax) (\<lambda>id.
       sbind (cur_u32 umax) (\<lambda>vec_len.
       sbind (collect_n (unat vec_len) (cur_f32 umax)) (\<lambda>v.
       sbind (cur_u8 umax) (\<lambda>has_meta.
       sbind (if has_meta = 1 then sbind (decode_metadata umax M) (\<lambda>m. sret (Some m))
              else sret None) (\<lambda>meta.
       sret (Insert id v meta))))))
     else if op = OP_DELETE then sbind (decode_vector_id umax) (\<lambda>id. sret (Delete id))
     else sfail (InvalidPayload ''unknown WAL op code''))"

definition decode_record ::
  "nat \<Rightarrow> 'm metadata_ops \<Rightarrow> bytes \<Rightarrow> ('ie, 'm wal_record) result" where
  "decode_record umax M body = fst (decode_body umax M (cur_new body))"

subsection \<open>Cursor and buffer steps\<close>

text \<open>A cursor that has consumed \<open>pre\<close> and has \<open>rest\<close> to come.\<close>

definition at_cur :: "bytes \<Rightarrow> bytes \<Rightarrow> cur" where
  "at_cur pre rest = \<lparr>cbytes = pre @ rest, cpos = length pre\<rparr>"

lemma cur_new_at: "cur_new bs = at_cur [] bs"
  by (simp add: cur_new_def at_cur_def)

lemma push_apply [simp]: "push b buf = (Inr (), buf @ [b])"
  by (simp add: push_def)

lemma extend_apply [simp]: "extend_from_slice bs buf = (Inr (), buf @ bs)"
  by (simp add: extend_from_slice_def)

lemma sbind_push [simp]: "sbind (push b) f buf = f () (buf @ [b])"
  by (simp add: sbind_def)

lemma sbind_extend [simp]: "sbind (extend_from_slice bs) f buf = f () (buf @ bs)"
  by (simp add: sbind_def)

lemma put_u32_len_Inr:
  "put_u32_len reason n buf = (Inr (), buf') \<longleftrightarrow> n \<le> U32_MAX \<and> buf' = buf @ to_le 4 (of_nat n :: u32)"
  by (auto simp: put_u32_len_def sbind_Inr_iff u32_try_from_def split: if_splits)

lemma put_u32_len_Inl:
  "put_u32_len reason n buf = (Inl e, buf') \<longleftrightarrow> U32_MAX < n \<and> e = InvalidPayload reason \<and> buf' = buf"
  by (auto simp: put_u32_len_def sbind_Inl_iff u32_try_from_def split: if_splits)

lemma cur_take_at:
  assumes "length xs = n" and "length pre + n \<le> umax"
  shows "cur_take umax n (at_cur pre (xs @ ys)) = (Inr xs, at_cur (pre @ xs) ys)"
  using assms by (simp add: cur_take_def usize_checked_add_def slice_get_def at_cur_def)

lemma cur_take_one:
  "Suc (length pre) \<le> umax \<Longrightarrow>
     cur_take umax (Suc 0) (at_cur pre (b # ys)) = (Inr [b], at_cur (pre @ [b]) ys)"
  by (simp add: cur_take_def usize_checked_add_def slice_get_def at_cur_def)

lemma cur_take_short:
  assumes "length rest < n" and "length pre + n \<le> umax"
  shows "cur_take umax n (at_cur pre rest) =
    (Inl (InvalidPayload ''WAL record ended mid-field''), at_cur pre rest)"
  using assms by (simp add: cur_take_def usize_checked_add_def slice_get_def at_cur_def)

lemma cur_u8_at:
  "length pre + 1 \<le> umax \<Longrightarrow> cur_u8 umax (at_cur pre (b # ys)) = (Inr b, at_cur (pre @ [b]) ys)"
  by (simp add: cur_u8_def sbind_def cur_take_one)

lemma cur_u32_at:
  "length pre + 4 \<le> umax \<Longrightarrow>
     cur_u32 umax (at_cur pre (to_le 4 w @ ys)) = (Inr w, at_cur (pre @ to_le 4 w) ys)"
  by (simp add: cur_u32_def sbind_def cur_take_at del: to_le.simps)

lemma cur_f32_at:
  "length pre + 4 \<le> umax \<Longrightarrow>
     cur_f32 umax (at_cur pre (to_le 4 w @ ys)) = (Inr w, at_cur (pre @ to_le 4 w) ys)"
  by (simp add: cur_f32_def sbind_def cur_take_at del: to_le.simps)

lemma cur_u64_at:
  "length pre + 8 \<le> umax \<Longrightarrow>
     cur_u64 umax (at_cur pre (to_le 8 w @ ys)) = (Inr w, at_cur (pre @ to_le 8 w) ys)"
  by (simp add: cur_u64_def sbind_def cur_take_at del: to_le.simps)

lemmas cur_at = cur_u8_at cur_u32_at cur_f32_at cur_u64_at cur_take_at

subsection \<open>The contract of a field\<close>

text \<open>
  \<open>put\<close> appends the image of a value, or fails; \<open>get\<close> reads the image of an acceptable
  value back, wherever it stands in a body that fits the host's address space.
\<close>

locale wal_field =
  fixes put :: "'a \<Rightarrow> bytes \<Rightarrow> ('ie persist_error + unit) \<times> bytes"
    and get :: "cur \<Rightarrow> ('ie persist_error + 'a) \<times> cur"
    and img :: "'a \<Rightarrow> bytes"
    and ok :: "'a \<Rightarrow> bool"
    and umax :: nat
  assumes put_img: "put x buf = (Inr (), buf') \<Longrightarrow> buf' = buf @ img x"
    and get_img: "ok x \<Longrightarrow> length pre + length (img x) \<le> umax \<Longrightarrow>
      get (at_cur pre (img x @ rest)) = (Inr x, at_cur (pre @ img x) rest)"
begin

lemma put_each: "for_each put xs buf = (Inr (), buf') \<Longrightarrow> buf' = buf @ concat (map img xs)"
proof (induction xs arbitrary: buf)
  case Nil
  then show ?case by simp
next
  case (Cons x xs)
  from Cons.prems obtain s where "put x buf = (Inr (), s)" and rest: "for_each put xs s = (Inr (), buf')"
    by (auto elim: sbind_InrE)
  then have "s = buf @ img x" by (intro put_img)
  with Cons.IH [OF rest] show ?case by simp
qed

lemma get_each:
  assumes "\<forall>x\<in>set xs. ok x" and "length pre + length (concat (map img xs)) \<le> umax"
  shows "collect_n (length xs) get (at_cur pre (concat (map img xs) @ rest)) =
    (Inr xs, at_cur (pre @ concat (map img xs)) rest)"
  using assms
proof (induction xs arbitrary: pre)
  case Nil
  then show ?case by simp
next
  case (Cons x xs)
  have "get (at_cur pre (img x @ concat (map img xs) @ rest)) =
      (Inr x, at_cur (pre @ img x) (concat (map img xs) @ rest))"
    using Cons.prems by (intro get_img) simp_all
  then show ?case
    using Cons.IH [of "pre @ img x"] Cons.prems by (simp add: sbind_def)
qed

lemma put_get:
  assumes "put x buf = (Inr (), buf')" and "ok x" and "length pre + length (img x) \<le> umax"
  shows "\<exists>bs. buf' = buf @ bs \<and> get (at_cur pre (bs @ rest)) = (Inr x, at_cur (pre @ bs) rest)"
  using put_img [OF assms(1)] get_img [OF assms(2,3)] by blast

end

subsection \<open>The fields of a record\<close>

fun vector_id_image :: "vector_id \<Rightarrow> bytes" where
  "vector_id_image (U64 n) = VID_U64 # to_le 8 n"
| "vector_id_image (Bytes b) = VID_BYTES # to_le 8 (of_nat (length b) :: u64) @ b"

fun value_image :: "metadata_value \<Rightarrow> bytes" where
  "value_image (VString s) = VAL_STRING # to_le 4 (of_nat (length s) :: u32) @ s"
| "value_image (VInt i) = VAL_INT # to_le 8 i"
| "value_image (VFloat f) = VAL_FLOAT # to_le 8 f"
| "value_image (VBool b) = [VAL_BOOL, if b then 1 else 0]"
| "value_image VNull = [VAL_NULL]"

definition entry_image :: "bytes \<times> metadata_value \<Rightarrow> bytes" where
  "entry_image e = to_le 4 (of_nat (length (fst e)) :: u32) @ fst e @ value_image (snd e)"

definition metadata_image :: "'m metadata_ops \<Rightarrow> 'm \<Rightarrow> bytes" where
  "metadata_image M m =
     to_le 4 (of_nat (meta_len M m) :: u32) @ concat (map entry_image (meta_iter M m))"

definition component_image :: "f32 \<Rightarrow> bytes" where
  "component_image c = to_le 4 c"

fun record_image :: "'m metadata_ops \<Rightarrow> 'm wal_record \<Rightarrow> bytes" where
  "record_image M (Insert vid v meta) =
     OP_INSERT # vector_id_image vid @ to_le 4 (of_nat (length v) :: u32) @
     concat (map component_image v) @
     (case meta of None \<Rightarrow> [0] | Some m \<Rightarrow> 1 # metadata_image M m)"
| "record_image M (Delete vid) = OP_DELETE # vector_id_image vid"

text \<open>What the two append operations put into the scratch buffer.\<close>

fun encode_record :: "'m metadata_ops \<Rightarrow> 'm wal_record \<Rightarrow> (bytes, 'ie, unit) prog" where
  "encode_record M (Insert vid v meta) = encode_insert M vid v meta"
| "encode_record M (Delete vid) = encode_delete vid"

text \<open>
  A field is acceptable when its image is at most \<open>u32::MAX\<close> bytes, as a record body must
  be, and its strings are UTF-8.
\<close>

definition value_ok :: "metadata_value \<Rightarrow> bool" where
  "value_ok v \<longleftrightarrow> value_utf8 v \<and> length (value_image v) \<le> U32_MAX"

definition entry_ok :: "bytes \<times> metadata_value \<Rightarrow> bool" where
  "entry_ok e \<longleftrightarrow> utf8_valid (fst e) \<and> value_utf8 (snd e) \<and> length (entry_image e) \<le> U32_MAX"

lemma U32_le_U64: "n \<le> U32_MAX \<Longrightarrow> n \<le> U64_MAX"
  by (simp add: U32_MAX_def U64_MAX_def)

interpretation component: wal_field encode_component "cur_f32 umax" component_image
    "\<lambda>c. True" umax for umax
  by unfold_locales (auto simp: encode_component_def component_image_def cur_f32_at simp del: to_le.simps)

interpretation vector_id: wal_field encode_vector_id "decode_vector_id umax" vector_id_image
    "\<lambda>vid. length (vector_id_image vid) \<le> U32_MAX" umax for umax
proof
  fix x buf buf'
  assume "encode_vector_id x buf = (Inr () :: ('ie, unit) result, buf')"
  then show "buf' = buf @ vector_id_image x"
    by (cases x) (auto simp: Let_def simp del: to_le.simps)
next
  fix x and pre rest :: bytes
  assume ok: "length (vector_id_image x) \<le> U32_MAX" "length pre + length (vector_id_image x) \<le> umax"
  show "decode_vector_id umax (at_cur pre (vector_id_image x @ rest)) =
      (Inr x :: ('ie, vector_id) result, at_cur (pre @ vector_id_image x) rest)"
  proof (cases x)
    case (U64 n)
    then show ?thesis
      using ok by (simp add: decode_vector_id_def sbind_def cur_at wal_tags del: to_le.simps)
  next
    case (Bytes b)
    then show ?thesis
      using ok
      by (simp add: decode_vector_id_def sbind_def cur_at wal_tags usize_try_from_def cur_bytes_def
          unat_of_nat_u64 U32_le_U64 del: to_le.simps)
  qed
qed

interpretation meta_value: wal_field encode_value "decode_value umax" value_image value_ok umax for umax
proof
  fix x buf buf'
  assume "encode_value x buf = (Inr () :: ('ie, unit) result, buf')"
  then show "buf' = buf @ value_image x"
    by (cases x) (auto simp: put_u32_len_Inr elim!: sbind_InrE simp del: to_le.simps)
next
  fix x and pre rest :: bytes
  assume ok: "value_ok x" "length pre + length (value_image x) \<le> umax"
  show "decode_value umax (at_cur pre (value_image x @ rest)) =
      (Inr x :: ('ie, metadata_value) result, at_cur (pre @ value_image x) rest)"
    using ok
    by (cases x)
      (simp_all add: decode_value_def value_ok_def sbind_def cur_at wal_tags cur_bytes_def
        unat_of_nat_u32 cur_i64_def cur_f64_def utf8_valid_from_utf8 del: to_le.simps)
qed

interpretation entry: wal_field encode_entry "decode_entry umax" entry_image entry_ok umax for umax
proof
  fix x buf buf'
  assume "encode_entry x buf = (Inr () :: ('ie, unit) result, buf')"
  then show "buf' = buf @ entry_image x"
    by (auto simp: encode_entry_def entry_image_def put_u32_len_Inr elim!: sbind_InrE
        dest!: meta_value.put_img simp del: to_le.simps)
next
  fix x and pre rest :: bytes
  assume ok: "entry_ok x" "length pre + length (entry_image x) \<le> umax"
  obtain k v where x: "x = (k, v)" by (cases x)
  have "value_ok v" using ok(1) by (simp add: x entry_ok_def value_ok_def entry_image_def)
  note get = meta_value.get_img [OF this, where pre = "pre @ to_le 4 (of_nat (length k) :: u32) @ k"
      and rest = rest and umax = umax, simplified]
  show "decode_entry umax (at_cur pre (entry_image x @ rest)) =
      (Inr x :: ('ie, bytes \<times> metadata_value) result, at_cur (pre @ entry_image x) rest)"
    using ok
    by (simp add: x decode_entry_def entry_ok_def entry_image_def sbind_def cur_at cur_bytes_def
        unat_of_nat_u32 utf8_valid_from_utf8 get del: to_le.simps)
qed

text \<open>Counts never exceed the bytes they count.\<close>

lemma length_concat_ge: "\<forall>x\<in>set xs. 1 \<le> length (f x) \<Longrightarrow> length xs \<le> length (concat (map f xs))"
proof (induction xs)
  case Nil
  then show ?case by simp
next
  case (Cons x xs)
  then show ?case by (cases "f x") auto
qed

lemma length_entry_image: "4 \<le> length (entry_image e)"
  by (simp add: entry_image_def)

lemma length_component_image [simp]: "length (component_image c) = 4"
  by (simp add: component_image_def)

lemma entries_count: "length es \<le> length (concat (map entry_image es))"
  using length_entry_image by (intro length_concat_ge) (auto intro: order_trans [OF _ length_entry_image])

lemma components_count: "length v \<le> length (concat (map component_image v))"
  by (intro length_concat_ge) simp

lemma entry_in_concat: "e \<in> set es \<Longrightarrow> length (entry_image e) \<le> length (concat (map entry_image es))"
  by (induction es) auto

definition metadata_fits :: "'m metadata_ops \<Rightarrow> 'm \<Rightarrow> bool" where
  "metadata_fits M m \<longleftrightarrow> metadata_ok M \<and> length (metadata_image M m) \<le> U32_MAX"

lemma metadata_fits_entries:
  assumes "metadata_fits M m" and "e \<in> set (meta_iter M m)"
  shows "entry_ok e"
proof (cases e)
  case (Pair k v)
  have "length (entry_image e) \<le> U32_MAX"
    using assms entry_in_concat [of e "meta_iter M m"] by (auto simp: metadata_fits_def metadata_image_def)
  moreover have "metadata_ok M" using assms(1) by (simp add: metadata_fits_def)
  ultimately show ?thesis
    using metadata_okD(3,4) [of M k v m] assms(2) by (simp add: entry_ok_def Pair)
qed

interpretation metadata: wal_field "encode_metadata M" "decode_metadata umax M" "metadata_image M"
    "metadata_fits M" umax for M umax
proof
  fix x buf buf'
  assume "encode_metadata M x buf = (Inr () :: ('ie, unit) result, buf')"
  then show "buf' = buf @ metadata_image M x"
    by (auto simp: encode_metadata_def metadata_image_def put_u32_len_Inr elim!: sbind_InrE
        dest!: entry.put_each simp del: to_le.simps)
next
  fix x and pre rest :: bytes
  assume fits: "metadata_fits M x" and room: "length pre + length (metadata_image M x) \<le> umax"
  let ?n = "to_le 4 (of_nat (meta_len M x) :: u32)"
  have M: "metadata_ok M" and len: "meta_len M x = length (meta_iter M x)"
    using fits metadata_okD(1) [of M x] by (auto simp: metadata_fits_def)
  have count: "unat (of_nat (meta_len M x) :: u32) = length (meta_iter M x)"
    using fits entries_count [of "meta_iter M x"]
    by (simp add: len metadata_fits_def metadata_image_def unat_of_nat_u32)
  have "\<forall>e\<in>set (meta_iter M x). entry_ok e" using fits by (auto intro: metadata_fits_entries)
  note get = entry.get_each [OF this, where pre = "pre @ ?n" and umax = umax and rest = rest]
  show "decode_metadata umax M (at_cur pre (metadata_image M x @ rest)) =
      (Inr x :: ('ie, 'a) result, at_cur (pre @ metadata_image M x) rest)"
    using room count
    by (simp add: decode_metadata_def metadata_image_def sbind_def cur_at metadata_okD(2) [OF M]
        get [simplified] del: to_le.simps)
qed

subsection \<open>Whole records\<close>

definition record_ok :: "'m metadata_ops \<Rightarrow> 'm wal_record \<Rightarrow> bool" where
  "record_ok M r \<longleftrightarrow> metadata_ok M \<and> length (record_image M r) \<le> U32_MAX"

lemma record_ok_Insert:
  assumes "record_ok M (Insert vid v meta)"
  shows "length (vector_id_image vid) \<le> U32_MAX"
    and "unat (of_nat (length v) :: u32) = length v"
    and "meta = Some m \<Longrightarrow> metadata_fits M m"
  using assms components_count [of v]
  by (auto simp: record_ok_def metadata_fits_def intro!: unat_of_nat_u32 split: option.splits)

interpretation mutation: wal_field "encode_record M" "decode_body umax M" "record_image M"
    "record_ok M" umax for M umax
proof
  fix x buf buf'
  assume run: "encode_record M x buf = (Inr () :: ('ie, unit) result, buf')"
  show "buf' = buf @ record_image M x"
  proof (cases x)
    case (Insert vid v meta)
    then show ?thesis
      using run
      by (auto simp: encode_insert_def put_u32_len_Inr elim!: sbind_InrE split: option.splits
          dest!: vector_id.put_img component.put_each metadata.put_img simp del: to_le.simps)
  next
    case (Delete vid)
    then show ?thesis using run by (auto simp: encode_delete_def dest: vector_id.put_img)
  qed
next
  fix x and pre rest :: bytes
  assume ok: "record_ok M x" and room: "length pre + length (record_image M x) \<le> umax"
  show "decode_body umax M (at_cur pre (record_image M x @ rest)) =
      (Inr x :: ('ie, 'a wal_record) result, at_cur (pre @ record_image M x) rest)"
  proof (cases x)
    case (Delete vid)
    then show ?thesis
      using ok room
      by (simp add: decode_body_def sbind_def cur_at wal_tags record_ok_def vector_id.get_img)
  next
    case (Insert vid v meta)
    note fits = record_ok_Insert [OF ok [unfolded Insert]]
    have "\<forall>c\<in>set v. True" by simp
    note comps = component.get_each [OF this, where umax = umax]
    show ?thesis
    proof (cases meta)
      case None
      then show ?thesis
        using room fits(1)
        by (simp add: Insert decode_body_def sbind_def cur_at wal_tags vector_id.get_img comps fits(2)
            del: to_le.simps)
    next
      case (Some m)
      then show ?thesis
        using room fits(1)
        by (simp add: Insert decode_body_def sbind_def cur_at wal_tags vector_id.get_img comps fits(2)
            metadata.get_img fits(3) [OF Some] del: to_le.simps)
    qed
  qed
qed

subsection \<open>When a record can be encoded\<close>

lemma put_u32_len_ok: "n \<le> U32_MAX \<Longrightarrow> put_u32_len reason n buf = (Inr (), buf @ to_le 4 (of_nat n :: u32))"
  by (simp add: put_u32_len_Inr)

lemma encode_vector_id_ok: "encode_vector_id vid buf = (Inr (), buf @ vector_id_image vid)"
  by (cases vid) (simp_all add: Let_def)

lemma encode_value_ok:
  "length (value_image v) \<le> U32_MAX \<Longrightarrow> encode_value v buf = (Inr (), buf @ value_image v)"
  by (cases v) (simp_all add: sbind_def put_u32_len_ok)

lemma encode_entry_ok:
  "length (entry_image e) \<le> U32_MAX \<Longrightarrow> encode_entry e buf = (Inr (), buf @ entry_image e)"
  by (simp add: encode_entry_def entry_image_def sbind_def put_u32_len_ok encode_value_ok)

lemma for_each_ok:
  assumes "\<And>x buf. x \<in> set xs \<Longrightarrow> put x buf = (Inr (), buf @ img x)"
  shows "for_each put xs buf = (Inr (), buf @ concat (map img xs))"
  using assms
proof (induction xs arbitrary: buf)
  case Nil
  then show ?case by simp
next
  case (Cons x xs)
  then show ?case by (simp add: sbind_def)
qed

lemma encode_metadata_ok:
  assumes "metadata_fits M m"
  shows "encode_metadata M m buf = (Inr (), buf @ metadata_image M m)"
proof -
  have "metadata_ok M" using assms by (simp add: metadata_fits_def)
  then have "meta_len M m \<le> U32_MAX"
    using assms entries_count [of "meta_iter M m"] metadata_okD(1) [of M m]
    by (auto simp: metadata_fits_def metadata_image_def)
  then show ?thesis
    using metadata_fits_entries [OF assms]
    by (simp add: encode_metadata_def metadata_image_def sbind_def put_u32_len_ok
        for_each_ok [where img = entry_image] encode_entry_ok entry_ok_def)
qed

lemma encode_record_ok:
  assumes "record_ok M r"
  shows "encode_record M r buf = (Inr (), buf @ record_image M r)"
proof (cases r)
  case (Delete vid)
  then show ?thesis by (simp add: encode_delete_def encode_vector_id_ok)
next
  case (Insert vid v meta)
  have "length v \<le> U32_MAX"
    using assms components_count [of v] by (auto simp: Insert record_ok_def split: option.splits)
  then show ?thesis
    using record_ok_Insert(3) [OF assms [unfolded Insert]]
    by (cases meta)
      (simp_all add: Insert encode_insert_def sbind_def encode_vector_id_ok put_u32_len_ok
        encode_metadata_ok for_each_ok [where img = component_image] encode_component_def
        component_image_def)
qed

subsection \<open>The errors of encoders and decoders\<close>

definition invalid_only :: "('s, 'ie, 'a) prog \<Rightarrow> bool" where
  "invalid_only m \<longleftrightarrow> (\<forall>r e r'. m r = (Inl e, r') \<longrightarrow> (\<exists>reason. e = InvalidPayload reason))"

named_theorems invalid \<open>programs whose only error is an invalid payload\<close>

lemma invalid_sbind [invalid]:
  "invalid_only m \<Longrightarrow> (\<And>x. invalid_only (f x)) \<Longrightarrow> invalid_only (sbind m f)"
  unfolding invalid_only_def by (blast elim!: sbind_InlE)

lemma invalid_pure [invalid]:
  "invalid_only (sret x)" "invalid_only (sfail (InvalidPayload reason))"
  "invalid_only (slift (ok_or (InvalidPayload reason) y))"
  by (auto simp: invalid_only_def)

lemma invalid_if [invalid]:
  "invalid_only m \<Longrightarrow> invalid_only m' \<Longrightarrow> invalid_only (if b then m else m')"
  by simp

lemma invalid_take [invalid]: "invalid_only (cur_take umax n)"
  by (auto simp: invalid_only_def cur_take_def sbind_Inl_iff)

lemma invalid_prims [invalid]:
  "invalid_only (cur_u8 umax)" "invalid_only (cur_u32 umax)" "invalid_only (cur_u64 umax)"
  "invalid_only (cur_i64 umax)" "invalid_only (cur_f64 umax)" "invalid_only (cur_f32 umax)"
  "invalid_only (cur_bytes umax n)"
  unfolding cur_u8_def cur_u32_def cur_u64_def cur_f32_def cur_i64_def cur_f64_def cur_bytes_def
  by (intro invalid)+

lemma invalid_collect [invalid]: "invalid_only get \<Longrightarrow> invalid_only (collect_n n get)"
  by (induction n) (auto intro!: invalid)

lemma invalid_fields [invalid]:
  "invalid_only (decode_vector_id umax)" "invalid_only (decode_value umax)"
  unfolding decode_vector_id_def decode_value_def by (intro invalid)+

lemma invalid_entry [invalid]: "invalid_only (decode_entry umax)"
  unfolding decode_entry_def by (intro invalid)

lemma invalid_metadata [invalid]: "invalid_only (decode_metadata umax M)"
  unfolding decode_metadata_def by (intro invalid)

lemma invalid_body: "invalid_only (decode_body umax M)"
  unfolding decode_body_def by (intro invalid)

lemma invalid_writes [invalid]:
  "invalid_only (push b)" "invalid_only (extend_from_slice bs)"
  by (auto simp: invalid_only_def)

lemma invalid_put_len [invalid]: "invalid_only (put_u32_len reason n)"
  unfolding put_u32_len_def by (intro invalid)

lemma invalid_for_each [invalid]: "(\<And>x. invalid_only (put x)) \<Longrightarrow> invalid_only (for_each put xs)"
  by (induction xs) (auto intro!: invalid)

lemma invalid_encode_field [invalid]:
  "invalid_only (encode_vector_id vid)" "invalid_only (encode_value v)" "invalid_only (encode_component c)"
proof -
  show "invalid_only (encode_vector_id vid)" by (cases vid) (auto simp: Let_def intro!: invalid)
  show "invalid_only (encode_value v)" by (cases v) (auto intro!: invalid)
  show "invalid_only (encode_component c)" unfolding encode_component_def by (intro invalid)
qed

lemma invalid_encode_record: "invalid_only (encode_record M r)"
proof -
  have entry: "invalid_only (encode_entry e)" for e
    unfolding encode_entry_def by (intro invalid)
  have meta: "invalid_only (encode_metadata M m)" for m
    unfolding encode_metadata_def by (intro invalid entry)
  show ?thesis
    by (cases r)
      (auto simp: encode_insert_def encode_delete_def intro!: invalid meta split: option.split)
qed

lemma decode_record_Inl:
  "decode_record umax M body = Inl e \<Longrightarrow> \<exists>reason. e = InvalidPayload reason"
  using invalid_body [unfolded invalid_only_def, rule_format, of umax M "cur_new body" e]
  by (cases "decode_body umax M (cur_new body) :: ('a persist_error + 'b wal_record) \<times> cur")
    (auto simp: decode_record_def)

lemma decode_record_image:
  assumes "record_ok M r" and "length (record_image M r) \<le> umax"
  shows "decode_record umax M (record_image M r) = Inr r"
  using assms
  by (simp add: decode_record_def cur_new_at mutation.get_img [where pre = "[]" and rest = "[]", simplified])

subsection \<open>Properties\<close>

text \<open>Metadata made of one flag per entry, which serves the examples.\<close>

fun flag_of :: "bytes \<times> metadata_value \<Rightarrow> bool" where
  "flag_of (k, VBool b) = b"
| "flag_of (k, v) = False"

definition flag_ops :: "bool list metadata_ops" where
  "flag_ops = \<lparr>meta_len = length, meta_iter = map (\<lambda>b. (ascii ''flag'', VBool b)), meta_collect = map flag_of\<rparr>"

lemma flag_ops_ok: "metadata_ok flag_ops"
  unfolding metadata_ok_def by (auto simp: flag_ops_def ascii_def comp_def)

definition example_record :: "bool list wal_record" where
  "example_record = Insert (Bytes [1, 2, 3]) [0x3F800000, 0x40000000] (Some [True, False])"

lemma example_record_ok: "record_ok flag_ops example_record"
  unfolding record_ok_def
  by (rule conjI [OF flag_ops_ok])
    (simp add: example_record_def flag_ops_def component_image_def metadata_image_def
      entry_image_def U32_MAX_def)

text \<open>
  C14. WAL record round trip.  A mutation whose record body fits a frame (\<open>u32::MAX\<close> bytes)
  is always encoded, and decoding the body gives the same mutation back: the same id, the
  same bit patterns of the vector and the same metadata.
\<close>

theorem wal_record_round_trip:
  assumes "record_ok M r" and "length (record_image M r) \<le> umax"
  shows "\<exists>body. encode_record M r [] = (Inr () :: ('ie, unit) result, body) \<and>
    decode_record umax M body = (Inr r :: ('ie, 'm wal_record) result)"
  by (simp add: decode_record_image [OF assms] encode_record_ok [OF assms(1)])

theorem wal_record_round_trip_witness:
  "\<exists>body. encode_record flag_ops example_record [] = (Inr () :: (unit, unit) result, body) \<and>
    decode_record U32_MAX flag_ops body = (Inr example_record :: (unit, bool list wal_record) result)"
  using wal_record_round_trip [OF example_record_ok, of U32_MAX] example_record_ok
  by (simp add: record_ok_def)

end
