(* ===== verification/Wal_Frames.thy ===== *)
theory Wal_Frames
  imports Wal_Codec Checksum
begin

section \<open>Frames of the write-ahead log (\<open>src/wal.rs\<close>)\<close>

text \<open>
  \<open>parse_records\<close> scans a log image by position, as the code does.  Its specification works
  on the remaining bytes instead: \<open>next_frame\<close> splits off one intact frame, \<open>frames\<close> is
  the list of intact bodies up to the first damage, and \<open>decode_all\<close> decodes them in order.
  \<open>parse_records_spec\<close> says that the scan computes exactly this, and the consequences (round
  trip, torn tails, damaged bytes) are proved on the specification.
\<close>

definition WAL_MAGIC :: bytes where "WAL_MAGIC = ascii ''IQDBWAL'' @ [0]"
definition WAL_VERSION :: u32 where "WAL_VERSION = 1"
definition MAX_RECORD_LEN :: nat where "MAX_RECORD_LEN = 256 * 1024 * 1024"

lemma length_WAL_MAGIC [simp]: "length WAL_MAGIC = 8"
  by (simp add: WAL_MAGIC_def)

subsection \<open>The scan\<close>

definition clone_first8 :: "bytes \<Rightarrow> bytes" where
  "clone_first8 bs =
     (let n = min (length bs) 8 in take n bs @ drop n (replicate 8 0))"

text \<open>The little-endian word at a position, \<open>u32::from_le_bytes([bytes[pos], ...])\<close>.\<close>

definition u32_at :: "bytes \<Rightarrow> nat \<Rightarrow> u32" where
  "u32_at bs pos = of_le (take 4 (drop pos bs))"

function parse_frames ::
  "nat \<Rightarrow> (bytes \<Rightarrow> u32) \<Rightarrow> 'm metadata_ops \<Rightarrow> bytes \<Rightarrow> nat \<Rightarrow> 'm wal_record list \<Rightarrow>
   ('ie, 'm wal_record list) result" where
  "parse_frames umax crc M bytes pos records =
     (if pos < length bytes then
        if length bytes - pos < 8 then Inr records
        else
          let len = unat (u32_at bytes pos); sum = u32_at bytes (pos + 4) in
          if len > MAX_RECORD_LEN then Inr records
          else
            let body_start = pos + 8 in
            case usize_checked_add umax body_start len of
              None \<Rightarrow> Inr records
            | Some body_end \<Rightarrow>
                if body_end > length bytes then Inr records
                else
                  let body = take (body_end - body_start) (drop body_start bytes) in
                  if compute crc body \<noteq> sum then Inr records
                  else
                    (case decode_record umax M body of
                       Inl e \<Rightarrow> Inl e
                     | Inr r \<Rightarrow> parse_frames umax crc M bytes body_end (records @ [r]))
      else Inr records)"
  by pat_completeness auto
termination
  by (relation "measure (\<lambda>(umax, crc, M, bytes, pos, records). length bytes - pos)")
    (auto simp: usize_checked_add_def split: if_splits)

declare parse_frames.simps [simp del]

definition parse_records ::
  "nat \<Rightarrow> (bytes \<Rightarrow> u32) \<Rightarrow> 'm metadata_ops \<Rightarrow> bytes \<Rightarrow> ('ie, 'm wal_record list) result" where
  "parse_records umax crc M bytes =
     (if length bytes < 12 then Inr []
      else if take 8 bytes \<noteq> WAL_MAGIC then Inl (BadMagic (clone_first8 bytes))
      else
        let version = u32_at bytes 8 in
        if version \<noteq> WAL_VERSION then Inl (UnsupportedVersion version WAL_VERSION)
        else parse_frames umax crc M bytes 12 [])"

subsection \<open>Specification\<close>

definition next_frame :: "(bytes \<Rightarrow> u32) \<Rightarrow> bytes \<Rightarrow> (bytes \<times> bytes) option" where
  "next_frame crc bs =
     (let len = unat (of_le (take 4 bs) :: u32); rest = drop 8 bs; body = take len rest in
      if 8 \<le> length bs \<and> len \<le> MAX_RECORD_LEN \<and> len \<le> length rest \<and>
         crc body = of_le (take 4 (drop 4 bs))
      then Some (body, drop len rest) else None)"

lemma next_frame_shrinks: "next_frame crc bs = Some (body, rest) \<Longrightarrow> length rest < length bs"
  by (auto simp: next_frame_def Let_def split: if_splits)

function frames :: "(bytes \<Rightarrow> u32) \<Rightarrow> bytes \<Rightarrow> bytes list" where
  "frames crc bs = (case next_frame crc bs of None \<Rightarrow> [] | Some (body, rest) \<Rightarrow> body # frames crc rest)"
  by pat_completeness auto
termination
  by (relation "measure (\<lambda>(crc, bs). length bs)") (auto dest: next_frame_shrinks)

declare frames.simps [simp del]

primrec decode_all :: "nat \<Rightarrow> 'm metadata_ops \<Rightarrow> bytes list \<Rightarrow> ('ie, 'm wal_record list) result" where
  "decode_all umax M [] = Inr []"
| "decode_all umax M (b # bs) =
     rbind (decode_record umax M b) (\<lambda>r. rbind (decode_all umax M bs) (\<lambda>rs. Inr (r # rs)))"

text \<open>The bytes of one committed frame, and of a whole log.\<close>

definition frame_image :: "(bytes \<Rightarrow> u32) \<Rightarrow> bytes \<Rightarrow> bytes" where
  "frame_image crc body = to_le 4 (of_nat (length body) :: u32) @ to_le 4 (crc body) @ body"

definition wal_header :: bytes where
  "wal_header = WAL_MAGIC @ to_le 4 WAL_VERSION"

definition log_image :: "(bytes \<Rightarrow> u32) \<Rightarrow> bytes list \<Rightarrow> bytes" where
  "log_image crc bodies = wal_header @ concat (map (frame_image crc) bodies)"

lemma length_wal_header [simp]: "length wal_header = 12"
  by (simp add: wal_header_def)

lemma length_frame_image [simp]: "length (frame_image crc body) = 8 + length body"
  by (simp add: frame_image_def)

subsection \<open>The scan computes the specification\<close>

lemma parse_frames_spec:
  assumes "length bytes \<le> umax"
  shows "parse_frames umax crc M bytes pos records =
    (rbind (decode_all umax M (frames crc (drop pos bytes))) (\<lambda>rs. Inr (records @ rs))
      :: ('ie, 'm wal_record list) result)"
proof (induction "length bytes - pos" arbitrary: pos records rule: less_induct)
  case less
  let ?bs = "drop pos bytes"
  show ?case
  proof (cases "next_frame crc ?bs")
    case None
    then have stop: "frames crc ?bs = []" by (simp add: frames.simps)
    have "parse_frames umax crc M bytes pos records = Inr records"
      using None assms
      by (subst parse_frames.simps)
        (auto simp: next_frame_def Let_def u32_at_def compute_def usize_checked_add_def
          add.commute split: if_splits)
    then show ?thesis by (simp add: stop)
  next
    case (Some fr)
    obtain body rest where fr: "fr = (body, rest)" by (cases fr)
    let ?len = "unat (of_le (take 4 ?bs) :: u32)"
    have fits: "8 + ?len \<le> length bytes - pos" "?len \<le> MAX_RECORD_LEN"
      and body: "body = take ?len (drop 8 ?bs)" and rest: "rest = drop (pos + (8 + ?len)) bytes"
      and sum: "crc body = of_le (take 4 (drop 4 ?bs))"
      using Some by (auto simp: fr next_frame_def Let_def ac_simps split: if_splits)
    have go: "parse_frames umax crc M bytes pos records =
      (case decode_record umax M body of Inl e \<Rightarrow> Inl e
       | Inr r \<Rightarrow> parse_frames umax crc M bytes (pos + (8 + ?len)) (records @ [r]))"
      using fits sum assms body
      by (subst parse_frames.simps)
        (auto simp: Let_def u32_at_def compute_def usize_checked_add_def ac_simps)
    have IH: "parse_frames umax crc M bytes (pos + (8 + ?len)) rs =
        (rbind (decode_all umax M (frames crc rest)) (\<lambda>rs'. Inr (rs @ rs'))
          :: ('ie, 'm wal_record list) result)" for rs
      unfolding rest using fits(1) by (intro less.hyps) simp
    have "frames crc ?bs = body # frames crc rest"
      by (subst frames.simps) (simp add: Some fr)
    then show ?thesis
      unfolding go IH
      by (simp add: rbind_def split: sum.splits)
  qed
qed

lemma parse_records_log:
  assumes "length bs + 12 \<le> umax"
  shows "parse_records umax crc M (wal_header @ bs) = decode_all umax M (frames crc bs)"
proof -
  have "u32_at (wal_header @ bs) 8 = WAL_VERSION"
    by (simp add: u32_at_def wal_header_def del: to_le.simps)
  moreover have "take 8 (wal_header @ bs) = WAL_MAGIC" by (simp add: wal_header_def)
  ultimately show ?thesis
    using assms by (simp add: parse_records_def Let_def parse_frames_spec rbind_def split: sum.splits)
qed

subsection \<open>Frames, whole and damaged\<close>

lemma MAX_RECORD_LEN_u32: "n \<le> MAX_RECORD_LEN \<Longrightarrow> n \<le> U32_MAX"
  by (simp add: MAX_RECORD_LEN_def U32_MAX_def)

lemma next_frame_image:
  "length body \<le> MAX_RECORD_LEN \<Longrightarrow> next_frame crc (frame_image crc body @ rest) = Some (body, rest)"
  by (simp add: next_frame_def frame_image_def Let_def unat_of_nat_u32 MAX_RECORD_LEN_u32 del: to_le.simps)

lemma next_frame_torn:
  assumes "length body \<le> U32_MAX" and "k < length (frame_image crc body)"
  shows "next_frame crc (take k (frame_image crc body)) = None"
proof (cases "k < 8")
  case True
  then show ?thesis by (simp add: next_frame_def Let_def)
next
  case False
  then have "take 4 (take k (frame_image crc body)) = to_le 4 (of_nat (length body) :: u32)"
    by (simp add: frame_image_def del: to_le.simps)
  then show ?thesis
    using assms False by (auto simp: next_frame_def Let_def unat_of_nat_u32 simp del: to_le.simps)
qed

text \<open>
  A torn frame still announces its length, so bytes that follow it are taken for the rest of
  its body.
\<close>

lemma next_frame_torn_then:
  assumes "length body \<le> U32_MAX" and "4 \<le> k" and "k + length ys < length (frame_image crc body)"
  shows "next_frame crc (take k (frame_image crc body) @ ys) = None"
proof -
  have "take 4 (take k (frame_image crc body) @ ys) = to_le 4 (of_nat (length body) :: u32)"
    using assms(2) by (simp add: frame_image_def del: to_le.simps)
  then show ?thesis
    using assms by (auto simp: next_frame_def Let_def unat_of_nat_u32 simp del: to_le.simps)
qed

text \<open>
  With enough bytes behind it the torn frame is filled with bytes that are not its own.
  \<open>misread\<close> says that the checksum in the frame's head does not happen to be the one of the
  bytes that fill it.
\<close>

definition misread :: "(bytes \<Rightarrow> u32) \<Rightarrow> bytes \<Rightarrow> bool" where
  "misread crc bs \<longleftrightarrow>
     crc (take (unat (of_le (take 4 bs) :: u32)) (drop 8 bs)) \<noteq> of_le (take 4 (drop 4 bs))"

definition unfilled :: "(bytes \<Rightarrow> u32) \<Rightarrow> nat \<Rightarrow> bytes \<Rightarrow> bytes \<Rightarrow> bool" where
  "unfilled crc k frame ys \<longleftrightarrow> 4 \<le> k \<and> k + length ys < length frame \<or> misread crc (take k frame @ ys)"

lemma next_frame_misread: "misread crc bs \<Longrightarrow> next_frame crc bs = None"
  by (simp add: misread_def next_frame_def Let_def)

lemma next_frame_unfilled:
  assumes "length body \<le> U32_MAX" and "unfilled crc k (frame_image crc body) ys"
  shows "next_frame crc (take k (frame_image crc body) @ ys) = None"
  using assms(2) next_frame_torn_then [OF assms(1)] next_frame_misread
  unfolding unfilled_def by blast

lemma next_frame_oversize:
  assumes "MAX_RECORD_LEN < length body" and "length body \<le> U32_MAX"
  shows "next_frame crc (frame_image crc body @ rest) = None"
  using assms by (simp add: next_frame_def frame_image_def Let_def unat_of_nat_u32 del: to_le.simps)

lemma frames_append:
  assumes "\<forall>b\<in>set bodies. length b \<le> MAX_RECORD_LEN"
  shows "frames crc (concat (map (frame_image crc) bodies) @ tail) = bodies @ frames crc tail"
  using assms
proof (induction bodies)
  case Nil
  then show ?case by simp
next
  case (Cons b bs)
  then have "next_frame crc (frame_image crc b @ concat (map (frame_image crc) bs) @ tail) =
      Some (b, concat (map (frame_image crc) bs) @ tail)"
    by (intro next_frame_image) simp
  with Cons show ?case by (subst frames.simps) simp
qed

lemma frames_stop: "next_frame crc bs = None \<Longrightarrow> frames crc bs = []"
  by (subst frames.simps) simp

text \<open>
  One changed byte behind the length field makes the frame unreadable: in the checksum field
  because it no longer equals the body's checksum, in the body because the checksum function
  tells two bodies that differ in one byte apart.
\<close>

lemma next_frame_damaged:
  assumes crc: "crc_detects crc" and len: "length body \<le> MAX_RECORD_LEN"
    and i: "4 \<le> i" "i < length (frame_image crc body)" and b: "frame_image crc body ! i \<noteq> b"
  shows "next_frame crc ((frame_image crc body)[i := b] @ rest) = None"
proof -
  let ?L = "to_le 4 (of_nat (length body) :: u32)"
  have L: "unat (of_nat (length body) :: u32) = length body" using len by (simp add: unat_of_nat_u32 MAX_RECORD_LEN_u32)
  show ?thesis
  proof (cases "i < 8")
    case True
    let ?S = "to_le 4 (crc body)"
    have i4: "i - 4 < 4" using i True by simp
    have img: "(frame_image crc body)[i := b] = ?L @ ?S[i - 4 := b] @ body"
      using i True i4 by (simp add: frame_image_def list_update_append del: to_le.simps)
    have "?S ! (i - 4) \<noteq> b"
      using b i True i4 by (simp add: frame_image_def nth_append del: to_le.simps)
    then have "?S[i - 4 := b] \<noteq> ?S"
      using i4 nth_list_update_eq [of "i - 4" ?S b] by (metis length_to_le)
    then have "of_le (?S[i - 4 := b]) \<noteq> crc body"
      using to_le_of_le [of "?S[i - 4 := b]" 4, where 'a = 32] by (auto simp del: to_le.simps)
    then show ?thesis
      by (auto simp: next_frame_def Let_def img L simp del: to_le.simps)
  next
    case False
    let ?B = "body[i - 8 := b]"
    have img: "(frame_image crc body)[i := b] = ?L @ to_le 4 (crc body) @ ?B"
      using False by (auto simp: frame_image_def list_update_append simp del: to_le.simps)
    have "body ! (i - 8) \<noteq> b"
      using b False by (auto simp: frame_image_def nth_append simp del: to_le.simps split: if_splits)
    then have "crc ?B \<noteq> crc body"
      using i(2) False by (intro crc_detects.detects_update [OF crc]) auto
    then show ?thesis
      by (auto simp: next_frame_def Let_def img L simp del: to_le.simps)
  qed
qed

subsection \<open>Logs of records\<close>

lemma decode_all_append:
  "decode_all umax M (xs @ ys) =
     rbind (decode_all umax M xs) (\<lambda>rs. rbind (decode_all umax M ys) (\<lambda>rs'. Inr (rs @ rs')))"
  by (induction xs) (auto simp: rbind_def split: sum.splits)

text \<open>A record that recovery can read: its body fits a frame and the frame limit.\<close>

definition loggable :: "'m metadata_ops \<Rightarrow> 'm wal_record \<Rightarrow> bool" where
  "loggable M r \<longleftrightarrow> metadata_ok M \<and> length (record_image M r) \<le> MAX_RECORD_LEN"

lemma loggable_record_ok: "loggable M r \<Longrightarrow> record_ok M r"
  by (simp add: loggable_def record_ok_def MAX_RECORD_LEN_u32)

lemma decode_all_images:
  assumes "\<forall>r\<in>set rs. loggable M r" and "MAX_RECORD_LEN \<le> umax"
  shows "decode_all umax M (map (record_image M) rs) = Inr rs"
  using assms
  by (induction rs) (auto simp: decode_record_image loggable_record_ok loggable_def)

text \<open>The frames of a list of records, and the log file that holds them.\<close>

definition record_frames :: "(bytes \<Rightarrow> u32) \<Rightarrow> 'm metadata_ops \<Rightarrow> 'm wal_record list \<Rightarrow> bytes" where
  "record_frames crc M rs = concat (map (frame_image crc) (map (record_image M) rs))"

lemma record_frames_simps [simp]:
  "record_frames crc M [] = []"
  "record_frames crc M (r # rs) = frame_image crc (record_image M r) @ record_frames crc M rs"
  "record_frames crc M (rs @ rs') = record_frames crc M rs @ record_frames crc M rs'"
  by (simp_all add: record_frames_def)

definition wal_log :: "(bytes \<Rightarrow> u32) \<Rightarrow> 'm metadata_ops \<Rightarrow> 'm wal_record list \<Rightarrow> bytes" where
  "wal_log crc M rs = wal_header @ record_frames crc M rs"

lemma parse_then:
  assumes "\<forall>r\<in>set rs. loggable M r" and "MAX_RECORD_LEN \<le> umax"
    and "length (wal_log crc M rs @ tail) \<le> umax"
  shows "parse_records umax crc M (wal_log crc M rs @ tail) =
    rbind (decode_all umax M (frames crc tail)) (\<lambda>rs'. Inr (rs @ rs'))"
proof -
  have "frames crc (record_frames crc M rs @ tail) = map (record_image M) rs @ frames crc tail"
    unfolding record_frames_def using assms(1) by (intro frames_append) (auto simp: loggable_def)
  then show ?thesis
    using assms
    by (simp add: wal_log_def parse_records_log decode_all_append decode_all_images)
qed

lemma parse_stops:
  assumes "\<forall>r\<in>set rs. loggable M r" and "MAX_RECORD_LEN \<le> umax"
    and "length (wal_log crc M rs @ tail) \<le> umax" and "next_frame crc tail = None"
  shows "parse_records umax crc M (wal_log crc M rs @ tail) = Inr rs"
  using parse_then [OF assms(1-3)] by (simp add: frames_stop [OF assms(4)])

lemma parse_log:
  assumes "\<forall>r\<in>set rs. loggable M r" and "MAX_RECORD_LEN \<le> umax" and "length (wal_log crc M rs) \<le> umax"
  shows "parse_records umax crc M (wal_log crc M rs) = Inr rs"
  using parse_stops [OF assms(1,2), of crc "[]"] assms(3) by (simp add: next_frame_def Let_def)

text \<open>The records whose frames lie entirely within the first \<open>k\<close> bytes.\<close>

fun whole_frames :: "'m metadata_ops \<Rightarrow> nat \<Rightarrow> 'm wal_record list \<Rightarrow> 'm wal_record list" where
  "whole_frames M k [] = []"
| "whole_frames M k (r # rs) =
     (let n = 8 + length (record_image M r)
      in if n \<le> k then r # whole_frames M (k - n) rs else [])"

lemma whole_frames_prefix: "\<exists>n. whole_frames M k rs = take n rs"
proof (induction rs arbitrary: k)
  case Nil
  then show ?case by simp
next
  case (Cons r rs)
  obtain n where "whole_frames M (k - (8 + length (record_image M r))) rs = take n rs"
    using Cons by blast
  then show ?case
    by (cases "8 + length (record_image M r) \<le> k")
      (auto simp: Let_def intro: exI [of _ "Suc n"] exI [of _ 0])
qed

lemma take_record_frames:
  assumes "\<forall>r\<in>set rs. loggable M r"
  shows "\<exists>tail. take k (record_frames crc M rs) = record_frames crc M (whole_frames M k rs) @ tail \<and>
    next_frame crc tail = None"
  using assms
proof (induction rs arbitrary: k)
  case Nil
  then show ?case by (simp add: next_frame_def Let_def)
next
  case (Cons r rs)
  let ?n = "8 + length (record_image M r)"
  show ?case
  proof (cases "?n \<le> k")
    case True
    with Cons.IH [of "k - ?n"] Cons.prems show ?thesis by (auto simp: Let_def)
  next
    case False
    have "length (record_image M r) \<le> U32_MAX"
      using Cons.prems by (simp add: loggable_def MAX_RECORD_LEN_u32)
    then have "next_frame crc (take k (frame_image crc (record_image M r))) = None"
      using False by (intro next_frame_torn) simp_all
    with False show ?thesis by (simp add: Let_def)
  qed
qed

lemma parse_truncated:
  assumes "\<forall>r\<in>set rs. loggable M r" and "MAX_RECORD_LEN \<le> umax" and "length (wal_log crc M rs) \<le> umax"
  shows "parse_records umax crc M (take k (wal_log crc M rs)) = Inr (whole_frames M (k - 12) rs)"
proof (cases "k < 12")
  case True
  then have "whole_frames M (k - 12) rs = []" by (cases rs) (simp_all add: Let_def)
  moreover have "length (take k (wal_log crc M rs)) < 12" using True by simp
  ultimately show ?thesis unfolding parse_records_def by presburger
next
  case False
  obtain tail where tail: "take (k - 12) (record_frames crc M rs) =
      record_frames crc M (whole_frames M (k - 12) rs) @ tail" "next_frame crc tail = None"
    using take_record_frames [OF assms(1)] by blast
  have image: "take k (wal_log crc M rs) = wal_log crc M (whole_frames M (k - 12) rs) @ tail"
    using False tail(1) by (simp add: wal_log_def)
  have "\<forall>r\<in>set (whole_frames M (k - 12) rs). loggable M r"
    using assms(1) whole_frames_prefix [of M "k - 12" rs] by (metis in_set_takeD)
  moreover have "length (wal_log crc M (whole_frames M (k - 12) rs) @ tail) \<le> umax"
    unfolding image [symmetric] using assms(3) by simp
  ultimately show ?thesis
    unfolding image using assms(2) tail(2) by (intro parse_stops)
qed

lemma decode_all_Inl:
  "decode_all umax M bs = Inl e \<Longrightarrow> \<exists>b\<in>set bs. decode_record umax M b = Inl e"
  by (induction bs) (auto simp: rbind_def split: sum.splits)

lemma frames_whole: "body \<in> set (frames crc bs) \<Longrightarrow> length body \<le> MAX_RECORD_LEN"
proof (induction bs rule: frames.induct)
  case (1 crc bs)
  then show ?case
    by (subst (asm) (2) frames.simps)
      (auto simp: next_frame_def Let_def split: if_splits option.splits)
qed

lemma next_frame_zeros:
  assumes "crc [] = 0" and "8 \<le> n"
  shows "next_frame crc (replicate n 0) = Some ([], replicate (n - 8) 0)"
proof -
  have "of_le (replicate 4 0) = (0 :: u32)" by (simp add: numeral_eq_Suc)
  then show ?thesis using assms by (simp add: next_frame_def Let_def)
qed

subsection \<open>Properties\<close>

definition example_log :: "bool list wal_record list" where
  "example_log = [example_record, Delete (U64 7), example_record]"

lemma example_record_loggable: "loggable flag_ops example_record"
  by (simp add: loggable_def flag_ops_ok)
    (simp add: example_record_def flag_ops_def component_image_def metadata_image_def
      entry_image_def MAX_RECORD_LEN_def)

lemma example_log_loggable: "\<forall>r\<in>set example_log. loggable flag_ops r"
  using example_record_loggable
  by (simp add: example_log_def) (simp add: loggable_def flag_ops_ok MAX_RECORD_LEN_def)

lemma example_log_length: "length (wal_log crc flag_ops example_log) \<le> U32_MAX"
  by (simp add: wal_log_def example_log_def example_record_def flag_ops_def component_image_def
      metadata_image_def entry_image_def U32_MAX_def)

lemma MAX_RECORD_LEN_U32: "MAX_RECORD_LEN \<le> U32_MAX"
  by (rule MAX_RECORD_LEN_u32) simp

text \<open>
  C13. The scan refines its specification.  On a buffer (which always fits the host's address
  space) with a good header, \<open>parse_records\<close> decodes, in order, exactly the bodies of the
  intact frames that precede the first damage, and nothing behind it.
\<close>

theorem scan_refines_frames:
  assumes "length bytes \<le> umax" and "bytes = wal_header @ bs"
  shows "parse_records umax crc M bytes =
    (decode_all umax M (frames crc bs) :: ('ie, 'm wal_record list) result)"
  using assms by (simp add: parse_records_log)

theorem scan_refines_frames_witness:
  "parse_records U32_MAX crc32_ieee flag_ops (wal_header @ [1, 2, 3]) =
     (decode_all U32_MAX flag_ops (frames crc32_ieee [1, 2, 3]) :: (unit, bool list wal_record list) result)"
  by (rule scan_refines_frames [OF _ refl]) (simp add: U32_MAX_def)

text \<open>
  Log round trip.  A log that holds the frames of a list of mutations is parsed back to
  exactly that list, in append order.
\<close>

theorem wal_log_round_trip:
  assumes "\<forall>r\<in>set rs. loggable M r" and "MAX_RECORD_LEN \<le> umax" and "length (wal_log crc M rs) \<le> umax"
  shows "parse_records umax crc M (wal_log crc M rs) = (Inr rs :: ('ie, 'm wal_record list) result)"
  using assms by (rule parse_log)

theorem wal_log_round_trip_witness:
  "parse_records U32_MAX crc32_ieee flag_ops (wal_log crc32_ieee flag_ops example_log) =
     (Inr example_log :: (unit, bool list wal_record list) result)"
  using wal_log_round_trip [OF example_log_loggable MAX_RECORD_LEN_U32 example_log_length] .

text \<open>
  C16. Torn tails.  A log cut off at any byte parses without error to exactly the mutations
  whose frames lie wholly before the cut, which are a prefix of what was appended.  Nothing
  is assumed of the checksum function.
\<close>

theorem torn_tail_dropped:
  assumes "\<forall>r\<in>set rs. loggable M r" and "MAX_RECORD_LEN \<le> umax" and "length (wal_log crc M rs) \<le> umax"
  shows "parse_records umax crc M (take k (wal_log crc M rs)) =
      (Inr (whole_frames M (k - 12) rs) :: ('ie, 'm wal_record list) result) \<and>
    (\<exists>n. whole_frames M (k - 12) rs = take n rs)"
  using parse_truncated [OF assms] whole_frames_prefix by blast

lemma example_log_cut: "whole_frames flag_ops 80 example_log = [example_record, Delete (U64 7)]"
  by (simp add: example_log_def example_record_def flag_ops_def component_image_def
      metadata_image_def entry_image_def Let_def)

theorem torn_tail_dropped_witness:
  "parse_records U32_MAX crc32_ieee flag_ops (take 92 (wal_log crc32_ieee flag_ops example_log)) =
     (Inr [example_record, Delete (U64 7)] :: (unit, bool list wal_record list) result)"
  using torn_tail_dropped [OF example_log_loggable MAX_RECORD_LEN_U32 example_log_length,
      where k = 92 and 'ie = unit]
  by (simp add: example_log_cut)

text \<open>
  C17. Damage is detected.  If one byte of a frame behind its length field changes (in the
  checksum or in the body), the scan returns exactly the mutations before that frame, with
  no error: neither the damaged mutation nor any later one is replayed, although the frames
  behind it may be intact.
\<close>

theorem damaged_frame_ends_log:
  assumes crc: "crc_detects crc"
    and rs: "\<forall>r'\<in>set (rs @ [r]). loggable M r'"
    and i: "4 \<le> i" "i < length (frame_image crc (record_image M r))"
    and b: "frame_image crc (record_image M r) ! i \<noteq> b"
    and umax: "MAX_RECORD_LEN \<le> umax" "length (wal_log crc M (rs @ [r] @ rs')) \<le> umax"
  shows "parse_records umax crc M
      (wal_log crc M rs @ (frame_image crc (record_image M r))[i := b] @ record_frames crc M rs') =
    (Inr rs :: ('ie, 'm wal_record list) result)"
proof (rule parse_stops [OF _ umax(1)])
  show "next_frame crc ((frame_image crc (record_image M r))[i := b] @ record_frames crc M rs') = None"
    using rs i b by (intro next_frame_damaged [OF crc]) (simp_all add: loggable_def)
qed (use rs umax(2) in \<open>simp_all add: wal_log_def\<close>)

theorem damaged_frame_ends_log_witness:
  "\<exists>b. parse_records U32_MAX crc32_ieee flag_ops
      (wal_log crc32_ieee flag_ops [Delete (U64 7)] @
       (frame_image crc32_ieee (record_image flag_ops example_record))[20 := b] @
       record_frames crc32_ieee flag_ops [example_record]) =
    (Inr [Delete (U64 7)] :: (unit, bool list wal_record list) result)"
proof -
  let ?img = "frame_image crc32_ieee (record_image flag_ops example_record)"
  have len: "20 < length ?img" by (simp add: example_record_def)
  have b: "?img ! 20 \<noteq> ?img ! 20 + 1" by simp
  have rs: "\<forall>r'\<in>set ([Delete (U64 7)] @ [example_record]). loggable flag_ops r'"
    using example_log_loggable by (simp add: example_log_def)
  have l: "length (wal_log crc32_ieee flag_ops ([Delete (U64 7)] @ [example_record] @ [example_record])) \<le> U32_MAX"
    using example_log_length by (simp add: example_log_def wal_log_def add_ac)
  show ?thesis
    using damaged_frame_ends_log [OF ieee.crc_detects_axioms rs _ len b MAX_RECORD_LEN_U32 l] by auto
qed

lemma example_record_length: "length (record_image flag_ops example_record) = 50"
  by (simp add: example_record_def flag_ops_def component_image_def metadata_image_def entry_image_def)

definition big_record :: "bool list wal_record" where
  "big_record = Delete (Bytes (replicate (256 * 1024 * 1024) 0))"

lemma big_record_length: "length (record_image flag_ops big_record) = 10 + 256 * 1024 * 1024"
  by (simp add: big_record_def)

text \<open>
  C26. A tail of zero bytes is not dropped.  When the file was extended but the data never
  reached the disk, the tail reads as zeros.  Up to seven of them are an incomplete frame
  head and are dropped as a torn tail, but eight are a frame of length 0 whose checksum
  (CRC-32 of nothing is 0) is right: with eight or more the scan accepts that frame, cannot
  decode its empty body, and refuses the whole log.
\<close>

theorem zero_tail_refused:
  assumes "\<forall>r\<in>set rs. loggable M r" and "crc [] = 0" and "MAX_RECORD_LEN \<le> umax"
    and "length (wal_log crc M rs @ replicate n 0) \<le> umax"
  shows "parse_records umax crc M (wal_log crc M rs @ replicate n 0) =
    (if n < 8 then Inr rs else Inl (InvalidPayload ''WAL record ended mid-field'')
      :: ('ie, 'm wal_record list) result)"
proof (cases "n < 8")
  case True
  then have "next_frame crc (replicate n 0) = None" by (simp add: next_frame_def Let_def)
  then show ?thesis using True parse_stops [OF assms(1,3,4)] by simp
next
  case False
  then have frames: "frames crc (replicate n 0) = [] # frames crc (replicate (n - 8) 0)"
    by (subst frames.simps) (simp add: next_frame_zeros [where crc = crc, OF assms(2)])
  have "1 \<le> umax" using assms(3) by (simp add: MAX_RECORD_LEN_def)
  then have "decode_record umax M [] =
      (Inl (InvalidPayload ''WAL record ended mid-field'') :: ('ie, 'm wal_record) result)"
    by (simp add: decode_record_def decode_body_def cur_u8_def sbind_def cur_new_at cur_take_short)
  then show ?thesis using False by (simp add: parse_then [OF assms(1,3,4)] frames)
qed

lemma crc32_ieee_empty: "crc32_ieee [] = 0"
  by (simp add: crc32_ieee_def)

lemma example_log_zeros: "n \<le> 100 \<Longrightarrow> length (wal_log crc32_ieee flag_ops example_log @ replicate n 0) \<le> U32_MAX"
  by (simp add: wal_log_def example_log_def example_record_def flag_ops_def component_image_def
      metadata_image_def entry_image_def U32_MAX_def)

theorem zero_tail_refused_witness:
  "parse_records U32_MAX crc32_ieee flag_ops (wal_log crc32_ieee flag_ops example_log @ replicate 7 0) =
    (Inr example_log :: (unit, bool list wal_record list) result) \<and>
   parse_records U32_MAX crc32_ieee flag_ops (wal_log crc32_ieee flag_ops example_log @ replicate 9 0) =
    (Inl (InvalidPayload ''WAL record ended mid-field'') :: (unit, bool list wal_record list) result)"
  using zero_tail_refused [OF example_log_loggable crc32_ieee_empty MAX_RECORD_LEN_U32 example_log_zeros, of 7]
    zero_tail_refused [OF example_log_loggable crc32_ieee_empty MAX_RECORD_LEN_U32 example_log_zeros, of 9]
  by simp

lemma u32_at_version:
  assumes "12 \<le> length bytes" and "take 8 bytes = WAL_MAGIC" and "u32_at bytes 8 = WAL_VERSION"
  shows "bytes = wal_header @ drop 12 bytes"
proof -
  have "take 4 (drop 8 bytes) = to_le 4 WAL_VERSION"
    using to_le_of_le [of "take 4 (drop 8 bytes)" 4, where 'a = 32] assms(1,3)
    by (simp add: u32_at_def del: to_le.simps)
  then have "take 12 bytes = wal_header"
    using assms(2) take_add [of 8 4 bytes] by (simp add: wal_header_def del: to_le.simps)
  then show ?thesis by (metis append_take_drop_id)
qed

text \<open>
  Every error of the scan is one of three: the first eight bytes are not the magic (and
  are reported), the version is not 1 (and is reported), or an intact frame, of at most
  256 MiB and with the right checksum, has a body that does not decode.  In particular a
  buffer shorter than the header is never an error.
\<close>

theorem parse_records_errors:
  assumes "parse_records umax crc M bytes = (Inl e :: ('ie, 'm wal_record list) result)"
    and "length bytes \<le> umax"
  shows "12 \<le> length bytes \<and>
    (take 8 bytes \<noteq> WAL_MAGIC \<and> e = BadMagic (take 8 bytes) \<or>
     take 8 bytes = WAL_MAGIC \<and> u32_at bytes 8 \<noteq> 1 \<and> e = UnsupportedVersion (u32_at bytes 8) 1 \<or>
     (\<exists>bs body reason. bytes = wal_header @ bs \<and> body \<in> set (frames crc bs) \<and>
        length body \<le> MAX_RECORD_LEN \<and> decode_record umax M body = Inl e \<and> e = InvalidPayload reason))"
proof (cases "length bytes < 12 \<or> take 8 bytes \<noteq> WAL_MAGIC \<or> u32_at bytes 8 \<noteq> WAL_VERSION")
  case True
  then show ?thesis
    using assms(1)
    by (auto simp: parse_records_def Let_def WAL_VERSION_def clone_first8_def min_def split: if_splits)
next
  case False
  then have b: "bytes = wal_header @ drop 12 bytes" by (intro u32_at_version) simp_all
  have "length (drop 12 bytes) + 12 \<le> umax" using False assms(2) by simp
  note scan = parse_records_log [OF this, of crc M]
  have "decode_all umax M (frames crc (drop 12 bytes)) = (Inl e :: ('ie, 'm wal_record list) result)"
    unfolding scan [symmetric] b [symmetric] by (rule assms(1))
  then obtain body where body: "body \<in> set (frames crc (drop 12 bytes))"
    and e: "decode_record umax M body = (Inl e :: ('ie, 'm wal_record) result)"
    using decode_all_Inl by blast
  then show ?thesis
    using b False frames_whole [OF body] decode_record_Inl [OF e] by auto
qed

theorem parse_records_errors_witness:
  "\<exists>e. parse_records U32_MAX crc32_ieee flag_ops (replicate 12 7) =
      (Inl e :: (unit, bool list wal_record list) result) \<and> e = BadMagic (replicate 8 7)"
proof -
  have "hd (take 8 (replicate 12 7)) \<noteq> hd WAL_MAGIC" by (simp add: WAL_MAGIC_def ascii_def)
  then have ne: "take 8 (replicate 12 7) \<noteq> WAL_MAGIC" by metis
  then have r: "parse_records U32_MAX crc32_ieee flag_ops (replicate 12 7) =
      (Inl (BadMagic (clone_first8 (replicate 12 7))) :: (unit, bool list wal_record list) result)"
    by (simp add: parse_records_def)
  have "length (replicate 12 (7 :: byte)) \<le> U32_MAX" by (simp add: U32_MAX_def)
  from parse_records_errors [OF r this] have "clone_first8 (replicate 12 7) = replicate 8 (7 :: byte)"
    using ne by (simp add: clone_first8_def)
  with r show ?thesis by simp
qed

end
