(* ===== verification/File_System.thy ===== *)
theory File_System
  imports Vocabulary
begin

section \<open>The file system under the crate (\<open>std::fs\<close>)\<close>

text \<open>
  The calls of \<open>std::fs\<close> that \<open>src/storage.rs\<close>, \<open>src/wal.rs\<close> and \<open>src/recovery.rs\<close> make,
  on a state \<open>world\<close>: inodes, the names that refer to them, the directories, the two clocks
  and the oracle \<open>faults\<close>.  Every call takes one item of the oracle: it proceeds, fails with
  an error (a write having written some bytes), or the power is lost in it, and then no
  later call has an effect.  Statements for all oracles are therefore statements about
  every failing call and every moment of a crash.

  Durability: an inode remembers how many of its leading bytes are \<open>stable\<close> and which
  earlier contents, overwritten since the last \<open>sync_all\<close>, may come back; a name remembers
  the inodes it referred to since its directory was last synced.  \<open>crash\<close> relates a world to
  what may be found after a power loss.  A file ends up with a prefix of one of its possible
  contents, at least as long as the stable part: the torn tails the crate is designed for.

  Not modelled: links, permissions, two names for one directory (\<open>..\<close>, a relative and an
  absolute path to the same place), other processes.
\<close>

subsection \<open>State\<close>

record inode =
  data :: bytes
  stable :: nat
  older :: "bytes list"

datatype fault = Proceed | Fail io_error nat | PowerLoss nat

record world =
  nodes :: "nat \<Rightarrow> inode"
  names :: "path \<Rightarrow> nat option"
  old_names :: "path \<Rightarrow> nat option list"
  dirs :: "path \<Rightarrow> bool"
  next_ino :: nat
  instant :: nat
  ticks :: "nat list"
  wall :: "nat option list"
  process_id :: nat
  cfg_unix :: bool
  faults :: "fault list"
  down :: bool

record handle =
  h_ino :: nat
  h_pos :: nat

type_synonym ('s, 'a) io_prog = "'s \<Rightarrow> (io_error + 'a) \<times> 's"

text \<open>What a reader finds at a path.\<close>

definition content :: "world \<Rightarrow> path \<Rightarrow> bytes option" where
  "content w p = map_option (\<lambda>i. data (nodes w i)) (names w p)"

subsection \<open>One call\<close>

definition power_loss :: io_error where
  "power_loss = IoError OtherKind ''power loss''"

definition not_found :: io_error where
  "not_found = IoError NotFound ''No such file or directory''"

definition already_exists :: io_error where
  "already_exists = IoError AlreadyExists ''File exists''"

definition is_a_directory :: io_error where
  "is_a_directory = IoError OtherKind ''Is a directory''"

datatype outcome = Runs | Fails io_error nat

definition draw :: "world \<Rightarrow> outcome \<times> world" where
  "draw w =
     (if down w then (Fails power_loss 0, w)
      else case faults w of
        [] \<Rightarrow> (Runs, w)
      | Proceed # fs \<Rightarrow> (Runs, w\<lparr>faults := fs\<rparr>)
      | Fail e k # fs \<Rightarrow> (Fails e k, w\<lparr>faults := fs\<rparr>)
      | PowerLoss k # fs \<Rightarrow> (Fails power_loss k, w\<lparr>faults := fs, down := True\<rparr>))"

text \<open>A call that has no effect when it fails.\<close>

definition call :: "(world \<Rightarrow> (io_error + 'a) \<times> world) \<Rightarrow> (world, 'a) io_prog" where
  "call run w = (case draw w of (Runs, w') \<Rightarrow> run w' | (Fails e k, w') \<Rightarrow> (Inl e, w'))"

subsection \<open>Effects\<close>

definition set_name :: "path \<Rightarrow> nat option \<Rightarrow> world \<Rightarrow> world" where
  "set_name p i w = w\<lparr>names := (names w)(p := i),
     old_names := (old_names w)(p := names w p # old_names w p)\<rparr>"

definition set_node :: "nat \<Rightarrow> inode \<Rightarrow> world \<Rightarrow> world" where
  "set_node i nd w = w\<lparr>nodes := (nodes w)(i := nd)\<rparr>"

definition empty_inode :: inode where
  "empty_inode = \<lparr>data = [], stable = 0, older = []\<rparr>"

definition new_file :: "path \<Rightarrow> world \<Rightarrow> world" where
  "new_file p w = set_name p (Some (next_ino w))
     (set_node (next_ino w) empty_inode (w\<lparr>next_ino := Suc (next_ino w)\<rparr>))"

text \<open>Cutting a file, and writing at a position (a gap is filled with zeros).\<close>

definition resize_inode :: "nat \<Rightarrow> inode \<Rightarrow> inode" where
  "resize_inode n nd =
     \<lparr>data = take n (data nd) @ replicate (n - length (data nd)) 0,
      stable = min (stable nd) n, older = data nd # older nd\<rparr>"

definition write_inode :: "nat \<Rightarrow> bytes \<Rightarrow> inode \<Rightarrow> inode" where
  "write_inode pos bs nd =
     (if bs = [] then nd else
      \<lparr>data = take pos (data nd) @ replicate (pos - length (data nd)) 0 @ bs @
        drop (pos + length bs) (data nd),
      stable = min (stable nd) pos,
      older = (if pos < length (data nd) then data nd # older nd else older nd)\<rparr>)"

definition sync_inode :: "inode \<Rightarrow> inode" where
  "sync_inode nd = \<lparr>data = data nd, stable = length (data nd), older = []\<rparr>"

subsection \<open>Calls on paths\<close>

definition fs_read :: "path \<Rightarrow> (world, bytes) io_prog" where
  "fs_read p = call (\<lambda>w.
     if dirs w p then (Inl is_a_directory, w)
     else case content w p of None \<Rightarrow> (Inl not_found, w) | Some bs \<Rightarrow> (Inr bs, w))"

text \<open>\<open>Path::exists\<close> answers \<open>false\<close> when it cannot tell.\<close>

definition fs_exists :: "path \<Rightarrow> world \<Rightarrow> bool \<times> world" where
  "fs_exists p w =
     (case call (\<lambda>w. (Inr (dirs w p \<or> names w p \<noteq> None), w)) w of
        (Inl e, w') \<Rightarrow> (False, w')
      | (Inr b, w') \<Rightarrow> (b, w'))"

definition parent_exists :: "world \<Rightarrow> path \<Rightarrow> bool" where
  "parent_exists w p = (case path_parent p of None \<Rightarrow> False | Some d \<Rightarrow> dirs w d)"

definition fs_create_new :: "path \<Rightarrow> (world, handle) io_prog" where
  "fs_create_new p = call (\<lambda>w.
     if dirs w p \<or> names w p \<noteq> None then (Inl already_exists, w)
     else if \<not> parent_exists w p then (Inl not_found, w)
     else (Inr \<lparr>h_ino = next_ino w, h_pos = 0\<rparr>, new_file p w))"

text \<open>\<open>OpenOptions\<close> with \<open>create\<close>, \<open>read\<close>, \<open>write\<close> and the given \<open>truncate\<close>.\<close>

definition fs_open_rw :: "bool \<Rightarrow> path \<Rightarrow> (world, handle) io_prog" where
  "fs_open_rw trunc p = call (\<lambda>w.
     if dirs w p then (Inl is_a_directory, w)
     else case names w p of
       Some i \<Rightarrow> (Inr \<lparr>h_ino = i, h_pos = 0\<rparr>,
          if trunc then set_node i (resize_inode 0 (nodes w i)) w else w)
     | None \<Rightarrow>
         if \<not> parent_exists w p then (Inl not_found, w)
         else (Inr \<lparr>h_ino = next_ino w, h_pos = 0\<rparr>, new_file p w))"

definition fs_remove_file :: "path \<Rightarrow> (world, unit) io_prog" where
  "fs_remove_file p = call (\<lambda>w.
     if names w p = None then (Inl not_found, w) else (Inr (), set_name p None w))"

definition fs_rename :: "path \<Rightarrow> path \<Rightarrow> (world, unit) io_prog" where
  "fs_rename p q = call (\<lambda>w.
     if dirs w q then (Inl is_a_directory, w)
     else if names w p = None \<or> \<not> parent_exists w q then (Inl not_found, w)
     else (Inr (), set_name q (names w p) (set_name p None w)))"

text \<open>
  \<open>File::open\<close> and \<open>sync_all\<close> on a directory.  The empty path opens nothing, although
  files named relative to it are found in the working directory.
\<close>

definition fs_open_dir :: "path \<Rightarrow> (world, unit) io_prog" where
  "fs_open_dir d = call (\<lambda>w.
     if dirs w d \<and> d \<noteq> Path False [] then (Inr (), w) else (Inl not_found, w))"

definition fs_sync_dir :: "path \<Rightarrow> (world, unit) io_prog" where
  "fs_sync_dir d = call (\<lambda>w.
     (Inr (), w\<lparr>old_names := (\<lambda>p. if path_parent p = Some d then [] else old_names w p)\<rparr>))"

subsection \<open>Calls on an open file\<close>

definition fs_write_all :: "bytes \<Rightarrow> (handle \<times> world, unit) io_prog" where
  "fs_write_all bs hw =
     (let h = fst hw; i = h_ino h;
          put = (\<lambda>n w. (h\<lparr>h_pos := h_pos h + n\<rparr>,
            set_node i (write_inode (h_pos h) (take n bs) (nodes w i)) w))
      in case draw (snd hw) of
           (Runs, w') \<Rightarrow> (Inr (), put (length bs) w')
         | (Fails e k, w') \<Rightarrow> (Inl e, put (min k (length bs)) w'))"

definition fs_sync_all :: "(handle \<times> world, unit) io_prog" where
  "fs_sync_all hw =
     (let i = h_ino (fst hw); r = call (\<lambda>w. (Inr (), set_node i (sync_inode (nodes w i)) w)) (snd hw)
      in (fst r, (fst hw, snd r)))"

definition fs_set_len :: "nat \<Rightarrow> (handle \<times> world, unit) io_prog" where
  "fs_set_len n hw =
     (let i = h_ino (fst hw);
          r = call (\<lambda>w. (Inr (), set_node i (resize_inode n (nodes w i)) w)) (snd hw)
      in (fst r, (fst hw, snd r)))"

definition fs_seek_start :: "nat \<Rightarrow> (handle \<times> world, nat) io_prog" where
  "fs_seek_start n hw =
     (case call (\<lambda>w. (Inr n, w)) (snd hw) of
        (Inr m, w') \<Rightarrow> (Inr m, ((fst hw)\<lparr>h_pos := m\<rparr>, w'))
      | (Inl e, w') \<Rightarrow> (Inl e, (fst hw, w')))"

definition fs_seek_end :: "(handle \<times> world, nat) io_prog" where
  "fs_seek_end hw =
     (case call (\<lambda>w. (Inr (length (data (nodes w (h_ino (fst hw))))), w)) (snd hw) of
        (Inr m, w') \<Rightarrow> (Inr m, ((fst hw)\<lparr>h_pos := m\<rparr>, w'))
      | (Inl e, w') \<Rightarrow> (Inl e, (fst hw, w')))"

definition fs_stream_position :: "(handle \<times> world, nat) io_prog" where
  "fs_stream_position hw =
     (let r = call (\<lambda>w. (Inr (h_pos (fst hw)), w)) (snd hw) in (fst r, (fst hw, snd r)))"

text \<open>\<open>Instant::now\<close>: the next tick of the clock's own oracle has gone by.\<close>

definition instant_now :: "world \<Rightarrow> nat \<times> world" where
  "instant_now w = (case ticks w of
     [] \<Rightarrow> (instant w, w)
   | t # ts \<Rightarrow> (instant w + t, w\<lparr>instant := instant w + t, ticks := ts\<rparr>))"

text \<open>
  \<open>SystemTime::now().duration_since(UNIX_EPOCH)\<close> in nanoseconds, \<open>None\<close> before 1970.
\<close>

definition system_now :: "world \<Rightarrow> nat option \<times> world" where
  "system_now w = (case wall w of [] \<Rightarrow> (None, w) | t # ts \<Rightarrow> (t, w\<lparr>wall := ts\<rparr>))"

subsection \<open>Well-formed worlds\<close>

text \<open>
  Names refer to allocated inodes, no inode has two names, no directory is a file, the
  stable part of an inode is common to all its possible contents, and inodes still to be
  allocated are known to no name, present or past.
\<close>

definition inode_ok :: "inode \<Rightarrow> bool" where
  "inode_ok nd \<longleftrightarrow> stable nd \<le> length (data nd) \<and>
     (\<forall>v\<in>set (older nd). stable nd \<le> length v \<and> take (stable nd) v = take (stable nd) (data nd))"

definition fs_ok :: "world \<Rightarrow> bool" where
  "fs_ok w \<longleftrightarrow>
     (\<forall>p i. names w p = Some i \<longrightarrow> i < next_ino w \<and> \<not> dirs w p) \<and>
     (\<forall>p q i. names w p = Some i \<longrightarrow> names w q = Some i \<longrightarrow> p = q) \<and>
     (\<forall>p. \<forall>v\<in>set (old_names w p). \<forall>i. v = Some i \<longrightarrow> i < next_ino w \<and> \<not> dirs w p) \<and>
     (\<forall>i. inode_ok (nodes w i))"

lemma fs_okD:
  assumes "fs_ok w"
  shows "names w p = Some i \<Longrightarrow> i < next_ino w"
    and "names w p = Some i \<Longrightarrow> \<not> dirs w p"
    and "names w p = Some i \<Longrightarrow> names w q = Some i \<Longrightarrow> p = q"
    and "Some i \<in> set (old_names w p) \<Longrightarrow> i < next_ino w"
    and "inode_ok (nodes w i)"
    and "Some i \<in> set (old_names w p) \<Longrightarrow> \<not> dirs w p"
  using assms by (auto simp: fs_ok_def)

lemma inode_ok_simps [simp]:
  "inode_ok empty_inode"
  "inode_ok (sync_inode nd)"
  by (simp_all add: inode_ok_def empty_inode_def sync_inode_def)

lemma inode_ok_resize:
  assumes "inode_ok nd"
  shows "inode_ok (resize_inode n nd)"
proof -
  have "take (min (stable nd) n) v = take (min (stable nd) n) (data nd)"
    if "v \<in> set (older nd)" for v
  proof -
    have "take (stable nd) v = take (stable nd) (data nd)"
      using assms that by (auto simp: inode_ok_def)
    then have "take n (take (stable nd) v) = take n (take (stable nd) (data nd))" by simp
    then show ?thesis by (simp add: min.commute)
  qed
  then show ?thesis
    using assms by (auto simp: inode_ok_def resize_inode_def min_def)
qed

lemma inode_ok_write:
  assumes "inode_ok nd"
  shows "inode_ok (write_inode pos bs nd)"
proof -
  have "take (min (stable nd) pos) v = take (min (stable nd) pos) (data nd)"
    if "v \<in> set (older nd)" for v
  proof -
    have "take (stable nd) v = take (stable nd) (data nd)"
      using assms that by (auto simp: inode_ok_def)
    then have "take pos (take (stable nd) v) = take pos (take (stable nd) (data nd))" by simp
    then show ?thesis by (simp add: min.commute)
  qed
  then show ?thesis
    using assms by (auto simp: inode_ok_def write_inode_def min_def)
qed

subsection \<open>After a power loss\<close>

definition survives :: "inode \<Rightarrow> inode \<Rightarrow> bool" where
  "survives nd nd' \<longleftrightarrow>
     (\<exists>v\<in>set (data nd # older nd). \<exists>n\<ge>stable nd. data nd' = take n v) \<and>
     stable nd' = length (data nd') \<and> older nd' = []"

definition crash :: "world \<Rightarrow> world \<Rightarrow> bool" where
  "crash w w' \<longleftrightarrow>
     (\<forall>p. names w' p \<in> insert (names w p) (set (old_names w p))) \<and>
     (\<forall>p q i. names w' p = Some i \<longrightarrow> names w' q = Some i \<longrightarrow> p = q) \<and>
     (\<forall>i. survives (nodes w i) (nodes w' i)) \<and>
     old_names w' = (\<lambda>p. []) \<and> dirs w' = dirs w \<and> next_ino w' = next_ino w \<and>
     cfg_unix w' = cfg_unix w \<and> \<not> down w'"

lemma crash_name: "crash w w' \<Longrightarrow> names w' p = names w p \<or> names w' p \<in> set (old_names w p)"
  by (simp add: crash_def)

text \<open>
  A file whose name and content are safe: the directory entry is synced and the content is.
\<close>

definition durable :: "world \<Rightarrow> path \<Rightarrow> bytes option \<Rightarrow> bool" where
  "durable w p c \<longleftrightarrow> old_names w p = [] \<and>
     (case names w p of
        None \<Rightarrow> c = None
      | Some i \<Rightarrow> c = Some (data (nodes w i)) \<and> older (nodes w i) = [] \<and>
          stable (nodes w i) = length (data (nodes w i)))"

lemma survives_synced:
  "survives nd nd' \<Longrightarrow> older nd = [] \<Longrightarrow> stable nd = length (data nd) \<Longrightarrow> data nd' = data nd"
  by (auto simp: survives_def)

lemma crash_durable:
  assumes "crash w w'" and "durable w p c"
  shows "content w' p = c" and "durable w' p c"
proof -
  have "names w' p = names w p"
    using assms by (auto simp: crash_def durable_def)
  then show "content w' p = c"
    using assms survives_synced by (fastforce simp: crash_def durable_def content_def split: option.splits)
  then show "durable w' p c"
    using assms(1) by (auto simp: crash_def durable_def content_def survives_def split: option.splits)
qed

lemma durable_content: "durable w p c \<Longrightarrow> content w p = c"
  by (auto simp: durable_def content_def split: option.splits)

text \<open>
  \<open>settled w p C\<close>: whichever inode the name \<open>p\<close> is found to refer to after a crash, its
  content is synced and one of \<open>C\<close>.
\<close>

definition synced :: "inode \<Rightarrow> bool" where
  "synced nd \<longleftrightarrow> older nd = [] \<and> stable nd = length (data nd)"

definition settled :: "world \<Rightarrow> path \<Rightarrow> bytes option set \<Rightarrow> bool" where
  "settled w p C \<longleftrightarrow> (\<forall>n\<in>set (names w p # old_names w p).
     case n of None \<Rightarrow> None \<in> C | Some i \<Rightarrow> synced (nodes w i) \<and> Some (data (nodes w i)) \<in> C)"

lemma durable_settled: "durable w p c \<Longrightarrow> settled w p {c}"
  by (auto simp: durable_def settled_def synced_def split: option.splits)

lemma settled_mono: "settled w p C \<Longrightarrow> C \<subseteq> D \<Longrightarrow> settled w p D"
  by (fastforce simp: settled_def split: option.splits)

lemma settled_crash:
  assumes "crash w w'" and "settled w p C"
  shows "content w' p \<in> C" and "durable w' p (content w' p)"
proof -
  have "names w' p \<in> set (names w p # old_names w p)" using crash_name [OF assms(1), of p] by auto
  then have c: "case names w' p of None \<Rightarrow> None \<in> C
      | Some i \<Rightarrow> synced (nodes w i) \<and> Some (data (nodes w i)) \<in> C"
    using assms(2) unfolding settled_def by blast
  show "content w' p \<in> C"
  proof (cases "names w' p")
    case (Some i)
    have "survives (nodes w i) (nodes w' i)" using assms(1) by (simp add: crash_def)
    with c Some survives_synced show ?thesis by (auto simp: content_def synced_def)
  qed (use c in \<open>simp add: content_def\<close>)
  show "durable w' p (content w' p)"
    using assms(1) by (auto simp: crash_def durable_def content_def survives_def split: option.splits)
qed

lemma settled_now: "settled w p C \<Longrightarrow> content w p \<in> C"
  by (auto simp: settled_def content_def split: option.splits)

text \<open>Some world can always be found after a power loss: the synced one.\<close>

lemma crash_total:
  assumes "fs_ok w"
  shows "\<exists>w'. crash w w' \<and> names w' = names w \<and> (\<forall>i. data (nodes w' i) = data (nodes w i)) \<and>
    faults w' = faults w \<and> \<not> down w'"
proof -
  let ?w = "w\<lparr>nodes := (\<lambda>i. sync_inode (nodes w i)), old_names := (\<lambda>p. []), down := False\<rparr>"
  have "survives (nodes w i) (sync_inode (nodes w i))" for i
    using fs_okD(5) [OF assms, of i]
    by (auto simp: survives_def sync_inode_def inode_ok_def intro: exI [of _ "length (data (nodes w i))"])
  then have "crash w ?w"
    using assms by (auto simp: crash_def dest: fs_okD(3))
  then show ?thesis by (intro exI [of _ ?w]) (simp add: sync_inode_def)
qed

lemma crash_ok:
  assumes "crash w w'" and "fs_ok w"
  shows "fs_ok w'"
proof -
  have "i < next_ino w \<and> \<not> dirs w p" if "names w' p = Some i" for p i
  proof -
    have "names w' p \<in> insert (names w p) (set (old_names w p))" using assms(1) by (simp add: crash_def)
    then have "names w p = Some i \<or> Some i \<in> set (old_names w p)" using that by auto
    then show ?thesis using fs_okD(1,2,4,6) [OF assms(2)] by blast
  qed
  moreover have "inode_ok (nodes w' i)" for i
    using assms(1) by (simp add: crash_def survives_def inode_ok_def)
  ultimately show ?thesis using assms(1) by (auto simp: fs_ok_def crash_def)
qed

subsection \<open>What a call leaves alone\<close>

text \<open>
  \<open>same_but t w w'\<close>: between the two worlds only the name \<open>t\<close> and inodes that had no
  name in the first one have changed.
\<close>

definition same_but :: "path \<Rightarrow> world \<Rightarrow> world \<Rightarrow> bool" where
  "same_but t w w' \<longleftrightarrow>
     (\<forall>p. p \<noteq> t \<longrightarrow> names w' p = names w p \<and> old_names w' p = old_names w p) \<and>
     (\<forall>i<next_ino w. nodes w' i = nodes w i) \<and>
     dirs w' = dirs w \<and> cfg_unix w' = cfg_unix w"

lemma draw_frame:
  assumes "draw w = (r, w')"
  shows "nodes w' = nodes w" "names w' = names w" "old_names w' = old_names w" "dirs w' = dirs w"
    "next_ino w' = next_ino w" "cfg_unix w' = cfg_unix w" "process_id w' = process_id w"
    "wall w' = wall w" "instant w' = instant w" "ticks w' = ticks w"
  using assms by (auto simp: draw_def split: if_splits list.splits fault.splits)

lemma draw_frame_simps [simp]:
  "nodes (snd (draw w)) = nodes w" "names (snd (draw w)) = names w"
  "old_names (snd (draw w)) = old_names w" "dirs (snd (draw w)) = dirs w"
  "next_ino (snd (draw w)) = next_ino w" "cfg_unix (snd (draw w)) = cfg_unix w"
  using draw_frame [of w "fst (draw w)" "snd (draw w)"] by simp_all

lemma call_cases:
  assumes "call run w = (r, w'')"
  obtains (ran) w' where "draw w = (Runs, w')" and "run w' = (r, w'')"
    | (failed) e k where "draw w = (Fails e k, w'')" and "r = Inl e"
  using assms by (auto simp: call_def split: prod.splits outcome.splits)

lemma same_but_refl [simp]: "same_but t w w"
  by (simp add: same_but_def)

lemma same_but_trans:
  "same_but t w w' \<Longrightarrow> same_but t w' w'' \<Longrightarrow> next_ino w \<le> next_ino w' \<Longrightarrow> same_but t w w''"
  by (simp add: same_but_def)

lemma same_but_content:
  assumes "same_but t w w'" and "fs_ok w" and "p \<noteq> t"
  shows "content w' p = content w p"
  using assms by (cases "names w p") (auto simp: same_but_def content_def dest: fs_okD(1))

lemma same_but_durable:
  assumes "same_but t w w'" and "fs_ok w" and "p \<noteq> t" and "durable w p c"
  shows "durable w' p c"
  using assms by (cases "names w p") (auto simp: same_but_def durable_def dest: fs_okD(1))

subsection \<open>Every call keeps the world well formed\<close>

lemma fs_ok_draw: "draw w = (r, w') \<Longrightarrow> fs_ok w \<Longrightarrow> fs_ok w'"
  by (simp add: fs_ok_def draw_frame)

lemma fs_ok_call:
  assumes "call run w = (r, w'')" and "fs_ok w"
    and "\<And>v r v'. fs_ok v \<Longrightarrow> run v = (r, v') \<Longrightarrow> fs_ok v'"
  shows "fs_ok w''"
  using assms(1)
proof (cases rule: call_cases)
  case (ran w')
  then show ?thesis using assms(2,3) fs_ok_draw by blast
next
  case (failed e k)
  then show ?thesis using assms(2) fs_ok_draw by blast
qed

lemma fs_ok_set_node: "fs_ok w \<Longrightarrow> inode_ok nd \<Longrightarrow> fs_ok (set_node i nd w)"
  by (auto simp: fs_ok_def set_node_def)

lemma fs_ok_set_name:
  assumes "fs_ok w" and "\<And>j. i = Some j \<Longrightarrow> j < next_ino w \<and> \<not> dirs w p"
    and "\<And>j q. i = Some j \<Longrightarrow> names w q = Some j \<Longrightarrow> q = p"
  shows "fs_ok (set_name p i w)"
  using assms by (auto simp: fs_ok_def set_name_def split: if_splits)

lemma fs_ok_new_file:
  assumes "fs_ok w" and "\<not> dirs w p"
  shows "fs_ok (new_file p w)"
proof -
  have "fs_ok (w\<lparr>next_ino := Suc (next_ino w)\<rparr>)"
    using assms(1) by (auto simp: fs_ok_def less_Suc_eq)
  then have "fs_ok (set_node (next_ino w) empty_inode (w\<lparr>next_ino := Suc (next_ino w)\<rparr>))"
    by (rule fs_ok_set_node) simp
  then show ?thesis
    unfolding new_file_def
    by (rule fs_ok_set_name) (use assms in \<open>auto simp: set_node_def dest: fs_okD(1)\<close>)
qed

lemma fs_ok_remove: "fs_ok w \<Longrightarrow> fs_ok (set_name p None w)"
  by (rule fs_ok_set_name) simp_all

lemma fs_ok_rename:
  assumes "fs_ok w" and "names w p = Some i" and "\<not> dirs w q"
  shows "fs_ok (set_name q (Some i) (set_name p None w))"
  using assms
  by (intro fs_ok_set_name fs_ok_remove) (auto simp: set_name_def dest: fs_okD split: if_splits)

lemma fs_ok_fewer_old:
  assumes ok: "fs_ok w"
    and same: "names v = names w" "nodes v = nodes w" "dirs v = dirs w" "next_ino v = next_ino w"
    and old: "\<And>p. old_names v p \<in> {old_names w p, []}"
  shows "fs_ok v"
proof -
  have "i < next_ino w \<and> \<not> dirs w p" if "Some i \<in> set (old_names v p)" for p i
    using old [of p] that fs_okD(4,6) [OF ok, of i p] by auto
  then have "\<forall>p. \<forall>x\<in>set (old_names v p). \<forall>i. x = Some i \<longrightarrow> i < next_ino w \<and> \<not> dirs w p"
    by blast
  then show ?thesis
    using ok by (simp add: fs_ok_def same)
qed

lemma fs_ok_sync_dir:
  "fs_ok w \<Longrightarrow> fs_ok (w\<lparr>old_names := (\<lambda>p. if P p then [] else old_names w p)\<rparr>)"
  by (simp add: fs_ok_def)

subsection \<open>Outcomes of the calls\<close>

text \<open>\<open>quiet w w'\<close>: nothing on disk has changed.\<close>

definition quiet :: "world \<Rightarrow> world \<Rightarrow> bool" where
  "quiet w w' \<longleftrightarrow> nodes w' = nodes w \<and> names w' = names w \<and> old_names w' = old_names w \<and>
     dirs w' = dirs w \<and> next_ino w' = next_ino w \<and> cfg_unix w' = cfg_unix w"

lemma quiet_refl [simp]: "quiet w w"
  by (simp add: quiet_def)

lemma quiet_trans [trans]: "quiet w w' \<Longrightarrow> quiet w' w'' \<Longrightarrow> quiet w w''"
  by (simp add: quiet_def)

lemma quiet_draw: "draw w = (r, w') \<Longrightarrow> quiet w w'"
  by (simp add: quiet_def draw_frame)

lemma quiet_system_now: "system_now w = (t, w') \<Longrightarrow> quiet w w'"
  by (auto simp: quiet_def system_now_def split: list.splits)

lemma quiet_instant_now: "instant_now w = (t, w') \<Longrightarrow> quiet w w'"
  by (auto simp: quiet_def instant_now_def split: list.splits)

lemma quietD:
  assumes "quiet w w'"
  shows "fs_ok w' = fs_ok w" and "content w' p = content w p" and "durable w' p c = durable w p c"
    and "same_but t w w'" and "crash w' w'' = crash w w''" and "next_ino w' = next_ino w"
    and "names w' p = names w p" and "nodes w' i = nodes w i" and "dirs w' = dirs w"
    and "settled w' p C = settled w p C"
    and "old_names w' p = old_names w p" and "cfg_unix w' = cfg_unix w"
  using assms
  by (simp_all add: quiet_def fs_ok_def content_def durable_def settled_def same_but_def crash_def cong: option.case_cong)

lemma fs_read_cases:
  assumes "fs_read p w = (r, w')"
  shows "quiet w w'" and "r = Inr bs \<Longrightarrow> content w p = Some bs"
proof -
  obtain out w1 where d: "draw w = (out, w1)" by (cases "draw w")
  then have q: "quiet w w1" by (rule quiet_draw)
  then show "quiet w w'" and "r = Inr bs \<Longrightarrow> content w p = Some bs"
    using assms d
    by (auto simp: fs_read_def call_def quietD [OF q] split: outcome.splits if_splits option.splits)
qed

lemma fs_create_new_cases:
  assumes "fs_create_new p w = (r, w')"
  obtains (created) w1 where "quiet w w1" and "r = Inr \<lparr>h_ino = next_ino w, h_pos = 0\<rparr>"
      and "w' = new_file p w1" and "names w p = None" and "\<not> dirs w p"
    | (refused) e where "r = Inl e" and "quiet w w'"
proof (cases "draw w")
  case (Pair out w1)
  then have q: "quiet w w1" by (rule quiet_draw)
  show thesis
  proof (cases out)
    case Runs
    with assms Pair q show ?thesis
      by (auto simp: fs_create_new_def call_def quietD [OF q] intro: created refused split: if_splits)
  next
    case (Fails e k)
    with assms Pair q show ?thesis
      by (intro refused) (auto simp: fs_create_new_def call_def)
  qed
qed

lemma fs_remove_file_cases:
  assumes "fs_remove_file p w = (r, w')"
  obtains (removed) w1 where "quiet w w1" and "w' = set_name p None w1"
    | (refused) e where "r = Inl e" and "quiet w w'"
proof (cases "draw w")
  case (Pair out w1)
  then have q: "quiet w w1" by (rule quiet_draw)
  show thesis
  proof (cases out)
    case Runs
    with assms Pair q show ?thesis
      by (auto simp: fs_remove_file_def call_def quietD [OF q] intro: removed refused split: if_splits)
  next
    case (Fails e k)
    with assms Pair q show ?thesis
      by (intro refused) (auto simp: fs_remove_file_def call_def)
  qed
qed

lemma fs_rename_cases:
  assumes "fs_rename p q w = (r, w')"
  obtains (renamed) w1 i where "quiet w w1" and "r = Inr ()" and "names w p = Some i" and "\<not> dirs w q"
      and "w' = set_name q (Some i) (set_name p None w1)"
    | (refused) e where "r = Inl e" and "quiet w w'"
proof (cases "draw w")
  case (Pair out w1)
  then have q: "quiet w w1" by (rule quiet_draw)
  show thesis
  proof (cases out)
    case Runs
    with assms Pair q show ?thesis
      by (auto simp: fs_rename_def call_def quietD [OF q] intro: renamed refused split: if_splits)
  next
    case (Fails e k)
    with assms Pair q show ?thesis
      by (intro refused) (auto simp: fs_rename_def call_def)
  qed
qed

lemma fs_write_all_cases:
  assumes "fs_write_all bs (h, w) = (r, (h', w'))"
  obtains (written) w1 where "quiet w w1" and "r = Inr ()" and "h' = h\<lparr>h_pos := h_pos h + length bs\<rparr>"
      and "w' = set_node (h_ino h) (write_inode (h_pos h) bs (nodes w (h_ino h))) w1"
    | (failed) w1 n e where "quiet w w1" and "r = Inl e" and "n \<le> length bs"
      and "h' = h\<lparr>h_pos := h_pos h + n\<rparr>"
      and "w' = set_node (h_ino h) (write_inode (h_pos h) (take n bs) (nodes w (h_ino h))) w1"
proof (cases "draw w")
  case (Pair out w1)
  then have q: "quiet w w1" by (rule quiet_draw)
  show thesis
  proof (cases out)
    case Runs
    with assms Pair show ?thesis
      by (intro written [OF q]) (auto simp: fs_write_all_def Let_def quietD [OF q])
  next
    case (Fails e k)
    with assms Pair show ?thesis
      by (intro failed [OF q, where n = "min k (length bs)"])
        (auto simp: fs_write_all_def Let_def quietD [OF q])
  qed
qed

lemma fs_sync_all_cases:
  assumes "fs_sync_all (h, w) = (r, (h', w'))"
  obtains (synced) w1 where "quiet w w1" and "r = Inr ()" and "h' = h"
      and "w' = set_node (h_ino h) (sync_inode (nodes w (h_ino h))) w1"
    | (failed) e where "r = Inl e" and "h' = h" and "quiet w w'"
proof (cases "draw w")
  case (Pair out w1)
  then have q: "quiet w w1" by (rule quiet_draw)
  show thesis
  proof (cases out)
    case Runs
    with assms Pair show ?thesis
      by (intro synced [OF q]) (auto simp: fs_sync_all_def Let_def call_def quietD [OF q])
  next
    case (Fails e k)
    with assms Pair q show ?thesis
      by (intro failed) (auto simp: fs_sync_all_def Let_def call_def)
  qed
qed

subsection \<open>Other files\<close>

text \<open>\<open>spares p w w'\<close>: every file but \<open>p\<close> kept its inode, and its entry is no less durable.\<close>

definition spares :: "path \<Rightarrow> world \<Rightarrow> world \<Rightarrow> bool" where
  "spares p w w' \<longleftrightarrow> (\<forall>q i. q \<noteq> p \<longrightarrow> names w q = Some i \<longrightarrow>
     names w' q = Some i \<and> nodes w' i = nodes w i \<and> old_names w' q \<in> {old_names w q, []})"

lemma sparesD:
  assumes "spares p w w'" and "q \<noteq> p" and "names w q = Some i"
  shows "names w' q = Some i" and "nodes w' i = nodes w i" and "old_names w' q \<in> {old_names w q, []}"
  using assms by (auto simp: spares_def)

lemma spares_content:
  assumes "spares p w w'" and "q \<noteq> p" and "content w q = Some bs"
  shows "content w' q = Some bs"
proof -
  obtain i where i: "names w q = Some i" "bs = data (nodes w i)" using assms(3) by (auto simp: content_def)
  then show ?thesis using sparesD [OF assms(1,2) i(1)] by (simp add: content_def)
qed

lemma spares_durable:
  assumes "spares p w w'" and "q \<noteq> p" and "durable w q (Some bs)"
  shows "durable w' q (Some bs)"
proof -
  obtain i where i: "names w q = Some i" using assms(3) by (auto simp: durable_def split: option.splits)
  then show ?thesis using sparesD [OF assms(1,2) i] assms(3) by (simp add: durable_def)
qed

lemma spares_quiet: "quiet w w' \<Longrightarrow> spares p w w'"
  by (simp add: spares_def quiet_def)

lemma spares_trans:
  assumes "spares p w w'" and "spares p w' w''"
  shows "spares p w w''"
  unfolding spares_def
proof (intro allI impI)
  fix q i
  assume q: "q \<noteq> p" "names w q = Some i"
  note one = sparesD [OF assms(1) q]
  note two = sparesD [OF assms(2) q(1) one(1)]
  show "names w'' q = Some i \<and> nodes w'' i = nodes w i \<and> old_names w'' q \<in> {old_names w q, []}"
    using one two by auto
qed

subsection \<open>Runs without faults\<close>

definition calm :: "world \<Rightarrow> bool" where
  "calm w \<longleftrightarrow> faults w = [] \<and> \<not> down w"

lemma draw_calm: "calm w \<Longrightarrow> draw w = (Runs, w)"
  by (simp add: calm_def draw_def)

lemma calm_nodes [simp]: "calm (set_node i nd w) = calm w" "calm (new_file p w) = calm w" "calm (set_name p x w) = calm w"
  by (simp_all add: calm_def set_node_def new_file_def set_name_def)

text \<open>The same names and directories.\<close>

definition in_place :: "world \<Rightarrow> world \<Rightarrow> bool" where
  "in_place w v \<longleftrightarrow> names v = names w \<and> dirs v = dirs w \<and> cfg_unix v = cfg_unix w"

lemma in_place_refl [simp]: "in_place w w"
  by (simp add: in_place_def)

lemma in_place_set_node [simp]: "in_place w (set_node i nd w)"
  by (simp add: in_place_def set_node_def)

lemma in_place_trans [trans]: "in_place u v \<Longrightarrow> in_place v w \<Longrightarrow> in_place u w"
  by (simp add: in_place_def)

subsection \<open>Example worlds\<close>

definition db_path :: path where
  "db_path = Path True [''db'', ''index.iqdb'']"

definition example_world :: "fault list \<Rightarrow> world" where
  "example_world fs = \<lparr>nodes = (\<lambda>i. empty_inode), names = (\<lambda>p. None), old_names = (\<lambda>p. []),
     dirs = (\<lambda>p. p \<in> {Path True [], Path True [''db''], Path False []}), next_ino = 0,
     instant = 0, ticks = [], wall = [Some 17], process_id = 1, cfg_unix = True, faults = fs, down = False\<rparr>"

lemma example_world_ok: "fs_ok (example_world fs)"
  by (simp add: fs_ok_def example_world_def)

lemma example_world_durable: "durable (example_world fs) p None"
  by (simp add: durable_def example_world_def)

text \<open>One synced file.\<close>

definition file_world :: "path \<Rightarrow> bytes \<Rightarrow> world" where
  "file_world p bs = (example_world [])\<lparr>
     nodes := (\<lambda>i. if i = 0 then \<lparr>data = bs, stable = length bs, older = []\<rparr> else empty_inode),
     names := [p \<mapsto> 0], next_ino := 1\<rparr>"

lemma file_world_ok: "\<not> dirs (example_world []) p \<Longrightarrow> fs_ok (file_world p bs)"
  by (simp add: fs_ok_def file_world_def example_world_def inode_ok_def empty_inode_def)

lemma file_world_content: "content (file_world p bs) p = Some bs"
  by (simp add: content_def file_world_def)

end
