(* ===== verification/Storage.thy ===== *)
theory Storage
  imports File_System Config
begin

section \<open>The storage substrate (\<open>src/storage.rs\<close>)\<close>

text \<open>
  \<open>StdFsStorage\<close>, the temp-file, rename, directory-sync protocol on the model of
  \<open>std::fs\<close>, step by step with the cleanups of its error paths.  The trait \<open>Storage\<close> is
  the record \<open>storage\<close>; what its callers rely on is the locale \<open>storage_contract\<close>,
  interpreted on \<open>StdFsStorage\<close> and on the failing substrate of the crate's own tests.
\<close>

record 'ie storage =
  read_all :: "path \<Rightarrow> (world, 'ie, bytes) prog"
  write_atomic :: "path \<Rightarrow> bytes \<Rightarrow> fsync_policy \<Rightarrow> (world, 'ie, unit) prog"

subsection \<open>\<open>StdFsStorage\<close>\<close>

definition std_read_all :: "path \<Rightarrow> (world, 'ie, bytes) prog" where
  "std_read_all p = smap_err (Io p) (fs_read p)"

text \<open>Decimal digits, for \<open>format!\<close>.\<close>

fun decimal :: "nat \<Rightarrow> string" where
  "decimal n = (if n < 10 then [char_of (n + 48)] else decimal (n div 10) @ [char_of (n mod 10 + 48)])"

declare decimal.simps [simp del]

definition temp_name :: "string \<Rightarrow> nat \<Rightarrow> nat \<Rightarrow> string" where
  "temp_name file_name pid nanos = file_name @ ''.tmp.'' @ decimal pid @ ''.'' @ decimal nanos"

definition target_dir :: "path \<Rightarrow> path" where
  "target_dir target = (case path_parent target of None \<Rightarrow> Path False [''.''] | Some d \<Rightarrow> d)"

text \<open>The error exits of phases 1 and 2: remove the temp file, ignore whether that worked.\<close>

definition give_up :: "path \<Rightarrow> io_error \<Rightarrow> (world, 'ie, unit) prog" where
  "give_up temp_path source w = (Inl (Io temp_path source), snd (fs_remove_file temp_path w))"

text \<open>Phase 1: write the temp file.\<close>

definition write_temp :: "path \<Rightarrow> bytes \<Rightarrow> fsync_policy \<Rightarrow> (world, 'ie, unit) prog" where
  "write_temp temp_path payload policy =
     sbind (smap_err (Io temp_path) (fs_create_new temp_path)) (\<lambda>file w.
       case fs_write_all payload (file, w) of
         (Inl source, (_, w)) \<Rightarrow> give_up temp_path source w
       | (Inr _, (file, w)) \<Rightarrow>
           if policy \<noteq> Never then
             (case fs_sync_all (file, w) of
                (Inl source, (_, w)) \<Rightarrow> give_up temp_path source w
              | (Inr _, (_, w)) \<Rightarrow> (Inr (), w))
           else (Inr (), w))"

text \<open>Phase 2: the atomic rename.\<close>

definition rename_temp :: "path \<Rightarrow> path \<Rightarrow> (world, 'ie, unit) prog" where
  "rename_temp temp_path target w =
     (case fs_rename temp_path target w of
        (Inl source, w) \<Rightarrow> give_up temp_path source w
      | (Inr _, w) \<Rightarrow> (Inr (), w))"

text \<open>Phase 3: sync the directory, on unix.\<close>

definition sync_target_dir :: "path \<Rightarrow> fsync_policy \<Rightarrow> (world, 'ie, unit) prog" where
  "sync_target_dir dir policy w =
     (if cfg_unix w \<and> policy \<noteq> Never then
        sbind (smap_err (Io dir) (fs_open_dir dir)) (\<lambda>_. smap_err (Io dir) (fs_sync_dir dir)) w
      else (Inr (), w))"

definition std_write_atomic :: "path \<Rightarrow> bytes \<Rightarrow> fsync_policy \<Rightarrow> (world, 'ie, unit) prog" where
  "std_write_atomic target payload policy w =
     (case path_file_name target of
        None \<Rightarrow> (Inl (Io target (IoError InvalidInput ''target has no file name'')), w)
      | Some file_name \<Rightarrow>
          let (now, w) = system_now w;
              nanos = (case now of None \<Rightarrow> 0 | Some n \<Rightarrow> n);
              temp_path = path_join (target_dir target) (temp_name file_name (process_id w) nanos)
          in sbind (write_temp temp_path payload policy) (\<lambda>_.
             sbind (rename_temp temp_path target) (\<lambda>_.
             sync_target_dir (target_dir target) policy)) w)"

definition std_fs_storage :: "'ie storage" where
  "std_fs_storage = \<lparr>read_all = std_read_all, write_atomic = std_write_atomic\<rparr>"

subsection \<open>The failing substrate of the tests (\<open>src/persisted.rs\<close>)\<close>

definition failing_write_atomic :: "path \<Rightarrow> bytes \<Rightarrow> fsync_policy \<Rightarrow> (world, 'ie, unit) prog" where
  "failing_write_atomic target payload policy w =
     (let file_name = the (path_file_name target);
          temp_path = path_join (target_dir target)
            (file_name @ ''.tmp.failtest.'' @ decimal (process_id w))
      in sbind (smap_err (Io temp_path) (fs_create_new temp_path)) (\<lambda>f w.
           case fs_write_all payload (f, w) of
             (Inl source, (_, w)) \<Rightarrow> (Inl (Io temp_path source), w)
           | (Inr _, (f, w)) \<Rightarrow>
               (case fs_sync_all (f, w) of
                  (Inl source, (_, w)) \<Rightarrow> (Inl (Io temp_path source), w)
                | (Inr _, (_, w)) \<Rightarrow>
                    (Inl (Io target (IoError OtherKind ''simulated rename failure'')),
                     snd (fs_remove_file temp_path w)))) w)"

definition failing_rename_storage :: "'ie storage" where
  "failing_rename_storage = \<lparr>read_all = std_read_all, write_atomic = failing_write_atomic\<rparr>"

subsection \<open>The phases\<close>

text \<open>
  \<open>only_temp t w v\<close>: from \<open>w\<close> to \<open>v\<close> nothing but the file \<open>t\<close> was touched, and \<open>v\<close>
  is well formed.
\<close>

definition only_temp :: "path \<Rightarrow> world \<Rightarrow> world \<Rightarrow> bool" where
  "only_temp t w v \<longleftrightarrow> fs_ok v \<and> same_but t w v \<and> next_ino w \<le> next_ino v"

lemma only_temp_refl: "fs_ok w \<Longrightarrow> only_temp t w w"
  by (simp add: only_temp_def)

lemma only_temp_quiet: "only_temp t w v \<Longrightarrow> quiet v v' \<Longrightarrow> only_temp t w v'"
  by (auto simp: only_temp_def quietD same_but_def)

lemma only_temp_create:
  assumes "fs_ok w" and "quiet w w1" and "\<not> dirs w t"
  shows "only_temp t w (new_file t w1)"
proof -
  have "fs_ok (new_file t w1)"
    using assms by (intro fs_ok_new_file) (simp_all add: quietD)
  then show ?thesis
    using assms(2)
    by (auto simp: only_temp_def same_but_def new_file_def set_name_def set_node_def quiet_def)
qed

lemma only_temp_node:
  assumes "only_temp t w v" and "next_ino w \<le> i" and "inode_ok nd"
  shows "only_temp t w (set_node i nd v)"
proof -
  have "fs_ok (set_node i nd v)" using assms by (intro fs_ok_set_node) (simp_all add: only_temp_def)
  then show ?thesis using assms by (auto simp: only_temp_def same_but_def set_node_def)
qed

lemma only_temp_remove: "only_temp t w v \<Longrightarrow> only_temp t w (set_name t None v)"
  using fs_ok_remove [of v t] by (auto simp: only_temp_def same_but_def set_name_def)

lemma only_temp_give_up:
  assumes "(r, v') = give_up t e v" and "only_temp t w v"
  shows "only_temp t w v' \<and> r = Inl (Io t e)"
proof -
  obtain rm v2 where rm: "fs_remove_file t v = (rm, v2)" by (cases "fs_remove_file t v")
  then show ?thesis
    using assms
    by (cases rule: fs_remove_file_cases)
      (auto simp: give_up_def rm intro: only_temp_quiet only_temp_remove)
qed

text \<open>The state phase 1 leaves behind when it succeeds.\<close>

definition temp_written :: "path \<Rightarrow> bytes \<Rightarrow> fsync_policy \<Rightarrow> world \<Rightarrow> world \<Rightarrow> bool" where
  "temp_written t payload policy w v \<longleftrightarrow>
     names w t = None \<and> names v t = Some (next_ino w) \<and>
     data (nodes v (next_ino w)) = payload \<and>
     (policy \<noteq> Never \<longrightarrow> older (nodes v (next_ino w)) = [] \<and>
        stable (nodes v (next_ino w)) = length payload)"

lemma write_inode_empty: "data (write_inode 0 bs empty_inode) = bs"
  by (simp add: write_inode_def empty_inode_def)

lemma write_temp_effect:
  assumes ok: "fs_ok w" and run: "write_temp t payload policy w = (r, v)"
  shows "only_temp t w v" and "r = Inr () \<Longrightarrow> temp_written t payload policy w v"
    and "names w t \<noteq> None \<Longrightarrow> quiet w v \<and> r \<noteq> Inr ()"
proof -
  obtain rc w0 where create: "fs_create_new t w = (rc, w0)" by (cases "fs_create_new t w")
  have "only_temp t w v \<and> (r = Inr () \<longrightarrow> temp_written t payload policy w v) \<and>
    (names w t \<noteq> None \<longrightarrow> quiet w v \<and> r \<noteq> Inr ())"
    using create
  proof (cases rule: fs_create_new_cases)
    case (refused e)
    then show ?thesis
      using run create only_temp_quiet [OF only_temp_refl [OF ok]]
      by (auto simp: write_temp_def sbind_def smap_err_def)
  next
    case (created w1)
    let ?i = "next_ino w" and ?h = "\<lparr>h_ino = next_ino w, h_pos = 0\<rparr>"
    have w0: "only_temp t w w0" "names w0 t = Some ?i" "nodes w0 ?i = empty_inode"
      using created only_temp_create [OF ok created(1,5)]
      by (simp_all add: new_file_def set_name_def set_node_def quietD [OF created(1)])
    obtain rw h' w2 where wr: "fs_write_all payload (?h, w0) = (rw, (h', w2))"
      by (metis prod.exhaust)
    have step: "(r, v) = (case rw of Inl source \<Rightarrow> give_up t source w2
        | Inr u \<Rightarrow> if policy \<noteq> Never then
             (case fs_sync_all (h', w2) of
                (Inl source, (_, w)) \<Rightarrow> give_up t source w | (Inr _, (_, w)) \<Rightarrow> (Inr (), w))
           else (Inr (), w2))"
      using run [symmetric] create created(2) wr by (simp add: write_temp_def sbind_def smap_err_def split: sum.splits)
    from wr show ?thesis
    proof (cases rule: fs_write_all_cases)
      case (failed w3 n e)
      have "only_temp t w w2"
        unfolding failed
        by (intro only_temp_node only_temp_quiet [OF w0(1) failed(1)])
          (simp_all add: w0(3) inode_ok_write)
      then show ?thesis
        using step failed(2) created(4) by (auto dest: only_temp_give_up)
    next
      case (written w3)
      have w2: "only_temp t w w2"
        unfolding written
        by (intro only_temp_node only_temp_quiet [OF w0(1) written(1)])
          (simp_all add: w0(3) inode_ok_write)
      have n2: "names w2 t = Some ?i" "nodes w2 ?i = write_inode 0 payload empty_inode"
        using w0 quietD(7) [OF written(1)] by (simp_all add: written set_node_def)
      show ?thesis
      proof (cases "policy = Never")
        case True
        then show ?thesis
          using step written(2) w2 n2 created(4) by (simp add: temp_written_def write_inode_empty)
      next
        case False
        obtain rs h'' w4 where sy: "fs_sync_all (h', w2) = (rs, (h'', w4))" by (metis prod.exhaust)
        from sy show ?thesis
        proof (cases rule: fs_sync_all_cases)
          case (failed e)
          then show ?thesis
            using False step written(2) sy created(4)
            by (auto dest: only_temp_give_up [OF _ only_temp_quiet [OF w2]])
        next
          case (synced w5)
          have "only_temp t w w4"
            unfolding synced
            by (intro only_temp_node only_temp_quiet [OF w2 synced(1)]) (simp_all add: written)
          then show ?thesis
            using False step written(2,3) sy synced n2 created(4) quietD(7) [OF synced(1)]
            by (simp add: temp_written_def set_node_def sync_inode_def write_inode_empty)
        qed
      qed
    qed
  qed
  then show "only_temp t w v" and "r = Inr () \<Longrightarrow> temp_written t payload policy w v"
    and "names w t \<noteq> None \<Longrightarrow> quiet w v \<and> r \<noteq> Inr ()"
    by simp_all
qed

subsection \<open>What an atomic write promises\<close>

text \<open>
  The contract of \<open>write_atomic\<close>, for a result \<open>r\<close> and a final world \<open>w'\<close> that may be
  the one a power loss left: other files keep their inodes and contents; the target holds
  the old or the new content, the new one if the call succeeded; and unless the policy is
  \<open>Never\<close>, a crash can only bring back what it could have brought back before, or the new
  content, and on unix success means the new content is durable.
\<close>

definition atomic_outcome ::
  "path \<Rightarrow> bytes \<Rightarrow> fsync_policy \<Rightarrow> world \<Rightarrow> ('ie, unit) result \<Rightarrow> world \<Rightarrow> bool" where
  "atomic_outcome target payload policy w r w' \<longleftrightarrow>
     fs_ok w' \<and> spares target w w' \<and>
     (content w' target = content w target \<or> content w' target = Some payload) \<and>
     (r = Inr () \<longrightarrow> content w' target = Some payload) \<and>
     (policy \<noteq> Never \<longrightarrow> (\<forall>C. settled w target C \<longrightarrow> settled w' target (insert (Some payload) C))) \<and>
     (policy \<noteq> Never \<longrightarrow> cfg_unix w \<longrightarrow> r = Inr () \<longrightarrow> durable w' target (Some payload))"

lemma same_but_settled:
  assumes "same_but t w v" and "fs_ok w" and "p \<noteq> t" and "settled w p C"
  shows "settled v p C"
proof -
  have names: "names v p = names w p" "old_names v p = old_names w p"
    using assms(1,3) by (simp_all add: same_but_def)
  have nodes: "nodes v i = nodes w i" if "Some i \<in> set (names w p # old_names w p)" for i
    using that assms(1) fs_okD(1,4) [OF assms(2)] by (auto simp: same_but_def)
  show ?thesis
    unfolding settled_def
  proof
    fix n
    assume n: "n \<in> set (names v p # old_names v p)"
    then have "case n of None \<Rightarrow> None \<in> C | Some i \<Rightarrow> synced (nodes w i) \<and> Some (data (nodes w i)) \<in> C"
      using assms(4) unfolding settled_def names by blast
    moreover have "nodes v i = nodes w i" if "n = Some i" for i
      using n that unfolding names by (intro nodes) simp
    ultimately show "case n of None \<Rightarrow> None \<in> C
        | Some i \<Rightarrow> synced (nodes v i) \<and> Some (data (nodes v i)) \<in> C"
      by (cases n) simp_all
  qed
qed

lemma outcome_unchanged:
  assumes ok: "fs_ok w" and t: "t \<noteq> target" and v: "only_temp t w v" "names w t = None \<or> quiet w v"
  shows "atomic_outcome target payload policy w (Inl e) v"
proof -
  have sb: "same_but t w v" and "fs_ok v" using v(1) by (simp_all add: only_temp_def)
  have "names v p = Some i \<and> nodes v i = nodes w i \<and> old_names v p = old_names w p"
    if "names w p = Some i" for p i
  proof (cases "p = t")
    case True
    with that v(2) have "quiet w v" by simp
    then show ?thesis using that by (simp add: quiet_def)
  next
    case False
    then show ?thesis using sb that fs_okD(1) [OF ok that] by (simp add: same_but_def)
  qed
  moreover have "content v target = content w target"
    using t by (intro same_but_content [OF sb ok]) simp
  moreover have "settled v target (insert (Some payload) C)" if "settled w target C" for C
    using t that by (intro settled_mono [OF same_but_settled [OF sb ok]]) auto
  ultimately show ?thesis using \<open>fs_ok v\<close> by (auto simp: atomic_outcome_def spares_def)
qed

lemma outcome_renamed:
  assumes ok: "fs_ok w" and t: "t \<noteq> target" and v: "only_temp t w v" and tw: "temp_written t payload policy w v"
    and q: "quiet v v1" and dir: "\<not> dirs v target"
    and v2: "v2 = set_name target (Some (next_ino w)) (set_name t None v1)"
    and v3: "nodes v3 = nodes v2" "names v3 = names v2" "dirs v3 = dirs v2" "next_ino v3 = next_ino v2"
      "\<And>p. old_names v3 p \<in> {old_names v2 p, []}"
    and synced: "policy \<noteq> Never \<Longrightarrow> cfg_unix w \<Longrightarrow> r = Inr () \<Longrightarrow> old_names v3 target = []"
  shows "atomic_outcome target payload policy w r v3"
proof -
  let ?i = "next_ino w"
  have sb: "same_but t w v" and okv: "fs_ok v" using v by (simp_all add: only_temp_def)
  have tn: "names w t = None" and ti: "names v t = Some ?i" and pay: "data (nodes v ?i) = payload"
    using tw by (simp_all add: temp_written_def)
  have "fs_ok v2"
    unfolding v2 using okv ti dir by (intro fs_ok_rename) (simp_all add: quietD [OF q])
  then have ok3: "fs_ok v3" by (rule fs_ok_fewer_old [OF _ v3(2,1,3,4,5)])
  have others: "names v3 p = Some i \<and> nodes v3 i = nodes w i \<and> old_names v3 p \<in> {old_names w p, []}"
    if "p \<noteq> target" "names w p = Some i" for p i
  proof -
    have "p \<noteq> t" using that(2) tn by auto
    then show ?thesis
      using that sb v3(5) [of p] fs_okD(1) [OF ok that(2)] q
      by (auto simp: v3(1,2) v2 set_name_def same_but_def quiet_def)
  qed
  have n3: "names v3 target = Some ?i" "data (nodes v3 ?i) = payload"
    using pay q by (simp_all add: v3(1,2) v2 set_name_def quiet_def)
  have settles: "settled v3 target (insert (Some payload) C)" if "policy \<noteq> Never" "settled w target C" for C
  proof -
    have new: "synced (nodes v3 ?i)"
      using tw that(1) q by (simp add: synced_def v3(1) v2 set_name_def quiet_def temp_written_def)
    have "settled v target C" using t by (intro same_but_settled [OF sb ok _ that(2)]) simp
    then have "settled v1 target C" by (simp add: quietD [OF q])
    then have "settled v2 target (insert (Some payload) C)"
      using t new n3 v3(1) by (auto simp: settled_def v2 set_name_def split: option.splits)
    then show ?thesis
      using v3(5) [of target] by (auto simp: settled_def v3(1,2) split: option.splits)
  qed
  have "durable v3 target (Some payload)" if "policy \<noteq> Never" "cfg_unix w" "r = Inr ()"
    using synced [OF that] n3 tw that(1) q
    by (simp add: durable_def temp_written_def v3(1) v2 set_name_def quiet_def)
  then show ?thesis
    using ok3 others n3 settles by (auto simp: atomic_outcome_def spares_def content_def)
qed

lemma outcome_quiet:
  "quiet w w0 \<Longrightarrow> atomic_outcome target payload policy w0 r v = atomic_outcome target payload policy w r v"
  by (simp only: atomic_outcome_def spares_def quietD)

lemma outcome_others:
  assumes "atomic_outcome target payload policy w r v" and "p \<noteq> target" and "content w p = Some bs"
  shows "content v p = Some bs"
  using assms by (auto simp: atomic_outcome_def intro: spares_content)

lemma join_neq_target:
  assumes "\<And>f. path_file_name target = Some f \<Longrightarrow> length f < length g" and "2 < length g"
  shows "path_join d g \<noteq> target"
proof
  assume eq: "path_join d g = target"
  have "g \<noteq> ''..''" using assms(2) by auto
  then have "path_file_name target = Some g" using eq by (cases d) auto
  then show False using assms(1) by blast
qed

lemma sync_target_dir_cases:
  assumes "sync_target_dir d policy w = (r, v)"
  shows "nodes v = nodes w" "names v = names w" "dirs v = dirs w" "next_ino v = next_ino w"
    "old_names v p \<in> {old_names w p, []}"
    "r = Inr () \<Longrightarrow> cfg_unix w \<Longrightarrow> policy \<noteq> Never \<Longrightarrow> path_parent p = Some d \<Longrightarrow> old_names v p = []"
  using assms
  by (auto simp: sync_target_dir_def sbind_def smap_err_def fs_open_dir_def fs_sync_dir_def call_def draw_frame
      split: if_splits prod.splits sum.splits outcome.splits)

lemma std_write_atomic_outcome:
  assumes ok: "fs_ok w" and run: "std_write_atomic target payload policy w = (r, v)"
  shows "atomic_outcome target payload policy w r v"
proof (cases "path_file_name target")
  case None
  then show ?thesis
    using run outcome_unchanged [OF ok _ only_temp_refl [OF ok], of "path_join target ''x''" target]
      path_parent_join [of target "''x''"]
    by (cases target) (auto simp: std_write_atomic_def)
next
  case (Some f)
  obtain now w0 where now: "system_now w = (now, w0)" by (cases "system_now w")
  then have q0: "quiet w w0" by (rule quiet_system_now)
  let ?d = "target_dir target"
  let ?t = "path_join ?d (temp_name f (process_id w0) (case now of None \<Rightarrow> 0 | Some n \<Rightarrow> n))"
  have t: "?t \<noteq> target" using Some by (intro join_neq_target) (simp_all add: temp_name_def)
  have parent: "path_parent target = Some ?d"
    using Some by (cases target) (auto simp: target_dir_def split: if_splits)
  have ok0: "fs_ok w0" using ok by (simp add: quietD [OF q0])
  have run0: "sbind (write_temp ?t payload policy) (\<lambda>_. sbind (rename_temp ?t target)
      (\<lambda>_. sync_target_dir ?d policy)) w0 = (r, v)"
    using run by (simp add: std_write_atomic_def Some now Let_def)
  obtain r1 w1 where p1: "write_temp ?t payload policy w0 = (r1 :: ('a, unit) result, w1)"
    using prod.exhaust by blast
  note eff = write_temp_effect [OF ok0 p1]
  have "atomic_outcome target payload policy w0 r v"
  proof (cases r1)
    case (Inl e)
    have "names w0 ?t = None \<or> quiet w0 w1" using eff(3) by blast
    moreover have "r = Inl e" "v = w1" using Inl run0 p1 by (simp_all add: sbind_def)
    ultimately show ?thesis using eff(1) by (simp add: outcome_unchanged [OF ok0 t])
  next
    case (Inr u)
    have tw: "temp_written ?t payload policy w0 w1" using eff(2) Inr by simp
    then have tn: "names w0 ?t = None" by (simp add: temp_written_def)
    obtain rr w2 where p2: "fs_rename ?t target w1 = (rr, w2)" by (cases "fs_rename ?t target w1")
    from p2 show ?thesis
    proof (cases rule: fs_rename_cases)
      case (refused e)
      then have g: "(r, v) = give_up ?t e w2"
        using run0 p1 Inr p2 by (simp add: sbind_def rename_temp_def give_up_def)
      from only_temp_give_up [OF g only_temp_quiet [OF eff(1) refused(2)]]
      have "only_temp ?t w0 v" and r: "r = Inl (Io ?t e)" by simp_all
      then show ?thesis using outcome_unchanged [OF ok0 t, of v] tn by simp
    next
      case (renamed w1' i)
      have i: "i = next_ino w0" using tw renamed(3) by (simp add: temp_written_def)
      have sync: "sync_target_dir ?d policy w2 = (r, v)"
        using run0 p1 Inr p2 renamed(2) by (simp add: sbind_def rename_temp_def)
      have cfg: "cfg_unix w2 = cfg_unix w0"
        using eff(1) renamed(1) by (simp add: renamed(5) set_name_def only_temp_def same_but_def quiet_def)
      show ?thesis
      proof (rule outcome_renamed [OF ok0 t eff(1) tw renamed(1,4) renamed(5) [unfolded i]])
        show "nodes v = nodes w2" "names v = names w2" "dirs v = dirs w2" "next_ino v = next_ino w2"
          "\<And>p. old_names v p \<in> {old_names w2 p, []}"
          using sync_target_dir_cases [OF sync] by simp_all
        show "old_names v target = []" if "policy \<noteq> Never" "cfg_unix w0" "r = Inr ()"
          using sync_target_dir_cases(6) [OF sync] that cfg parent by simp
      qed
    qed
  qed
  then show ?thesis by (simp add: outcome_quiet [OF q0])
qed

lemma only_temp_write:
  assumes wr: "fs_write_all bs (h, v) = (r, (h', v'))" and v: "only_temp t w v" and i: "next_ino w \<le> h_ino h"
  shows "only_temp t w v' \<and> h_ino h' = h_ino h"
proof -
  have "inode_ok (nodes v (h_ino h))" using v fs_okD(5) by (simp add: only_temp_def)
  then have "inode_ok (write_inode (h_pos h) bs' (nodes v (h_ino h)))" for bs' by (rule inode_ok_write)
  note node = only_temp_node [OF _ i this]
  from wr show ?thesis
    by (cases rule: fs_write_all_cases) (simp_all add: node [OF only_temp_quiet [OF v]])
qed

lemma only_temp_sync:
  assumes sy: "fs_sync_all (h, v) = (r, (h', v'))" and v: "only_temp t w v" and i: "next_ino w \<le> h_ino h"
  shows "only_temp t w v'"
  using sy
proof (cases rule: fs_sync_all_cases)
  case (synced w1)
  then show ?thesis by (simp add: only_temp_node [OF only_temp_quiet [OF v] i])
next
  case (failed e)
  then show ?thesis using only_temp_quiet [OF v] by simp
qed

lemma only_temp_remove_file:
  assumes "only_temp t w v"
  shows "only_temp t w (snd (fs_remove_file t v))"
  using only_temp_give_up [OF _ assms, of _ "snd (fs_remove_file t v)"] by (auto simp: give_up_def)

lemma failing_write_atomic_outcome:
  assumes ok: "fs_ok w" and run: "failing_write_atomic target payload policy w = (r, v)"
  shows "atomic_outcome target payload policy w r v" and "\<exists>e. r = Inl e"
proof -
  let ?g = "the (path_file_name target) @ ''.tmp.failtest.'' @ decimal (process_id w)"
  let ?t = "path_join (target_dir target) ?g"
  have t: "?t \<noteq> target" by (rule join_neq_target) simp_all
  obtain rc w0 where create: "fs_create_new ?t w = (rc, w0)" by (cases "fs_create_new ?t w")
  have "only_temp ?t w v \<and> (names w ?t = None \<or> quiet w v) \<and> (\<exists>e. r = Inl e)"
    using create
  proof (cases rule: fs_create_new_cases)
    case (refused e)
    then show ?thesis
      using run create only_temp_quiet [OF only_temp_refl [OF ok]]
      by (auto simp: failing_write_atomic_def Let_def sbind_def smap_err_def)
  next
    case (created w1)
    let ?h = "\<lparr>h_ino = next_ino w, h_pos = 0\<rparr>"
    have w0: "only_temp ?t w w0"
      using created(3) only_temp_create [OF ok created(1,5)] by simp
    obtain rw h1 w2 where wr: "fs_write_all payload (?h, w0) = (rw, (h1, w2))" by (metis prod.exhaust)
    obtain rs h2 w3 where sy: "fs_sync_all (h1, w2) = (rs, (h2, w3))" by (metis prod.exhaust)
    have w2: "only_temp ?t w w2" and h1: "next_ino w \<le> h_ino h1"
      using only_temp_write [OF wr w0] by simp_all
    have w3: "only_temp ?t w w3" by (rule only_temp_sync [OF sy w2 h1])
    show ?thesis
      using run create created(2,4) wr sy w2 w3 only_temp_remove_file [OF w3]
      by (auto simp: failing_write_atomic_def Let_def sbind_def smap_err_def split: sum.splits)
  qed
  then show "\<exists>e. r = Inl e" and "atomic_outcome target payload policy w r v"
    using outcome_unchanged [OF ok t] by auto
qed

lemma std_read_all_outcome:
  assumes "std_read_all p w = (r, v)"
  shows "quiet w v" and "r = Inr bs \<Longrightarrow> content w p = Some bs"
proof -
  obtain r0 where "fs_read p w = (r0, v)"
    using assms by (cases "fs_read p w") (auto simp: std_read_all_def smap_err_def split: sum.splits)
  then show "quiet w v" and "r = Inr bs \<Longrightarrow> content w p = Some bs"
    using assms fs_read_cases [of p w r0 v] by (auto simp: std_read_all_def smap_err_def split: sum.splits)
qed

subsection \<open>The trait as an interface\<close>

text \<open>
  A series of saves of one target; each may fail, and the power may be lost in any of them.
\<close>

primrec save_all :: "'ie storage \<Rightarrow> path \<Rightarrow> fsync_policy \<Rightarrow> bytes list \<Rightarrow> world \<Rightarrow> world" where
  "save_all S target policy [] w = w"
| "save_all S target policy (b # bs) w = save_all S target policy bs (snd (write_atomic S target b policy w))"

locale storage_contract =
  fixes S :: "'ie storage"
  assumes reads: "read_all S p w = (r, v) \<Longrightarrow> quiet w v \<and> (\<forall>bs. r = Inr bs \<longrightarrow> content w p = Some bs)"
    and writes: "fs_ok w \<Longrightarrow> write_atomic S target payload policy w = (u, v) \<Longrightarrow>
      atomic_outcome target payload policy w u v"
begin

lemma write_ok: "fs_ok w \<Longrightarrow> fs_ok (snd (write_atomic S target b policy w))"
  using writes [of w target b policy] by (cases "write_atomic S target b policy w") (auto simp: atomic_outcome_def)

lemma save_all_settled:
  assumes "fs_ok w" and "settled w target C" and "policy \<noteq> Never"
  shows "settled (save_all S target policy bs w) target (C \<union> Some ` set bs)"
  using assms
proof (induction bs arbitrary: w C)
  case Nil
  then show ?case by simp
next
  case (Cons b bs)
  have "atomic_outcome target b policy w (fst (write_atomic S target b policy w))
      (snd (write_atomic S target b policy w))"
    using writes [OF Cons.prems(1), of target b policy] by simp
  then have "settled (snd (write_atomic S target b policy w)) target (insert (Some b) C)"
    using Cons.prems by (simp add: atomic_outcome_def)
  from Cons.IH [OF write_ok [OF Cons.prems(1)] this Cons.prems(3)] show ?case by (simp add: insert_commute)
qed

lemma read_after_crash:
  assumes "fs_ok w" and "settled w target C" and "policy \<noteq> Never"
    and "crash (save_all S target policy bs w) w'" and "read_all S target w' = (Inr b, w'')"
  shows "Some b \<in> C \<union> Some ` set bs"
proof -
  have "content w' target \<in> C \<union> Some ` set bs"
    by (rule settled_crash [OF assms(4) save_all_settled [OF assms(1-3)]])
  then show ?thesis using reads [OF assms(5)] by auto
qed

lemma read_back:
  assumes "fs_ok w" and "write_atomic S target payload policy w = (Inr (), v)"
    and "read_all S target v = (Inr b, v')"
  shows "b = payload"
  using writes [OF assms(1,2)] reads [OF assms(3)] by (simp add: atomic_outcome_def)

end

interpretation std_fs: storage_contract std_fs_storage
  by unfold_locales
    (auto simp: std_fs_storage_def intro: std_write_atomic_outcome std_read_all_outcome)

interpretation failing_rename: storage_contract failing_rename_storage
  by unfold_locales
    (auto simp: failing_rename_storage_def intro: failing_write_atomic_outcome std_read_all_outcome)

subsection \<open>A run without faults\<close>

lemma draw_quiet_run: "faults w = [] \<Longrightarrow> \<not> down w \<Longrightarrow> draw w = (Runs, w)"
  by (simp add: draw_def)

text \<open>
  Where saving works: nothing fails, the target's directory exists, the target is no
  directory, and no temp file of this process is left over.
\<close>

definition can_save :: "path \<Rightarrow> world \<Rightarrow> bool" where
  "can_save target w \<longleftrightarrow>
     faults w = [] \<and> \<not> down w \<and> parent_exists w target \<and> \<not> dirs w target \<and>
     (\<forall>f n. path_file_name target = Some f \<longrightarrow>
        (let t = path_join (target_dir target) (temp_name f (process_id w) n)
         in names w t = None \<and> \<not> dirs w t))"

lemma std_write_atomic_run:
  assumes save: "can_save target w" and f: "path_file_name target = Some f"
  shows "\<exists>v. std_write_atomic target payload policy w =
      ((if cfg_unix w \<and> policy \<noteq> Never \<and> target_dir target = Path False []
        then Inl (Io (Path False []) not_found) else Inr ()) :: ('ie, unit) result, v) \<and>
    content v target = Some payload \<and> dirs v = dirs w \<and> calm v \<and> process_id v = process_id w \<and>
    names v = (names w)(target \<mapsto> next_ino w) \<and> cfg_unix v = cfg_unix w"
proof -
  obtain now w0 where now: "system_now w = (now, w0)" by (cases "system_now w")
  then have w0: "faults w0 = []" "\<not> down w0" "dirs w0 = dirs w" "names w0 = names w"
      "process_id w0 = process_id w" "cfg_unix w0 = cfg_unix w" "next_ino w0 = next_ino w"
    using save by (auto simp: system_now_def can_save_def split: list.splits)
  let ?d = "target_dir target"
  let ?t = "path_join ?d (temp_name f (process_id w) (case now of None \<Rightarrow> 0 | Some n \<Rightarrow> n))"
  have t: "names w ?t = None" "\<not> dirs w ?t" and d: "dirs w ?d" and parent: "path_parent target = Some ?d"
    using save f by (auto simp: can_save_def Let_def parent_exists_def target_dir_def split: option.splits)
  have neq: "?t \<noteq> target" using f by (intro join_neq_target) (simp_all add: temp_name_def)
  have create: "fs_create_new ?t w0 = (Inr \<lparr>h_ino = next_ino w0, h_pos = 0\<rparr>, new_file ?t w0)"
    using t d by (simp add: fs_create_new_def call_def draw_quiet_run w0 parent_exists_def)
  show ?thesis
    using neq d save parent
    by (cases "policy = Never")
      (auto simp: std_write_atomic_def f now w0 write_temp_def sbind_def smap_err_def create
        fs_write_all_def draw_quiet_run new_file_def set_name_def set_node_def Let_def fs_sync_all_def call_def
        rename_temp_def fs_rename_def can_save_def parent_exists_def sync_target_dir_def fs_open_dir_def
        fs_sync_dir_def content_def write_inode_def empty_inode_def sync_inode_def calm_def)
qed

text \<open>After such a run the next save can run.\<close>

lemma can_save_again:
  assumes "can_save target w" and "dirs v = dirs w" "calm v" "process_id v = process_id w"
    and "names v = (names w)(p \<mapsto> i)" and "p = target \<or> p = path_push_os target ext"
    and "ext = ''.wal''" and "path_file_name target = Some f"
  shows "can_save target v"
proof -
  have "path_join (target_dir target) (temp_name f pid n) \<noteq> p" for pid n
    using assms(6)
  proof
    assume "p = target"
    moreover have "path_join (target_dir target) (temp_name f pid n) \<noteq> target"
      using assms(8) by (intro join_neq_target) (simp_all add: temp_name_def)
    ultimately show ?thesis by simp
  qed (use assms(7,8) in \<open>cases target; auto simp: target_dir_def temp_name_def split: if_splits\<close>)
  then show ?thesis
    using assms by (auto simp: can_save_def parent_exists_def calm_def Let_def split: option.splits)
qed

subsection \<open>Properties\<close>

lemma example_can_save: "can_save db_path (example_world [])"
  by (simp add: can_save_def example_world_def parent_exists_def db_path_def target_dir_def Let_def temp_name_def)

text \<open>
  C12. Atomic saves.  Take any well-formed world, any oracle of faults (failing calls, partial
  writes, power loss at any call) and any series of saves to one target under a policy other
  than \<open>Never\<close>.  What a crash leaves at the target is what was durable there before, or one
  of the payloads, complete: never a mixture, never a truncated file.
\<close>

theorem saves_are_atomic:
  assumes "fs_ok w" and "durable w target c" and "policy \<noteq> Never"
    and "crash (save_all (std_fs_storage :: 'ie storage) target policy payloads w) w'"
  shows "content w' target = c \<or> content w' target \<in> Some ` set payloads"
  using settled_crash(1) [OF assms(4) std_fs.save_all_settled [OF assms(1) durable_settled [OF assms(2)] assms(3)]]
  by auto

theorem saves_are_atomic_witness:
  "\<exists>w'. crash (save_all (std_fs_storage :: unit storage) db_path Always [[1, 2], [3]]
      (example_world [Proceed, PowerLoss 1])) w' \<and>
    (content w' db_path = None \<or> content w' db_path \<in> Some ` set [[1, 2], [3 :: byte]])"
proof -
  let ?w = "save_all (std_fs_storage :: unit storage) db_path Always [[1, 2], [3]]
      (example_world [Proceed, PowerLoss 1])"
  have "fs_ok ?w" by (simp add: std_fs.write_ok example_world_ok)
  then obtain w' where "crash ?w w'" using crash_total by blast
  then show ?thesis
    using saves_are_atomic [OF example_world_ok example_world_durable, of Always] by blast
qed

text \<open>
  C21. What a successful save means.  The target holds the payload, no other file's content
  has changed, and on unix, under a policy other than \<open>Never\<close>, the payload survives every
  crash.
\<close>

theorem save_ok_durable:
  assumes "fs_ok w" and "std_write_atomic target payload policy w = (Inr () :: ('ie, unit) result, v)"
  shows "content v target = Some payload \<and>
    (\<forall>p bs. p \<noteq> target \<longrightarrow> content w p = Some bs \<longrightarrow> content v p = Some bs) \<and>
    (cfg_unix w \<longrightarrow> policy \<noteq> Never \<longrightarrow> (\<forall>w'. crash v w' \<longrightarrow> content w' target = Some payload))"
proof -
  note out = std_write_atomic_outcome [OF assms]
  then have "content v target = Some payload" by (simp add: atomic_outcome_def)
  moreover have "content w' target = Some payload" if "cfg_unix w" "policy \<noteq> Never" "crash v w'" for w'
    using out that by (intro crash_durable(1) [OF that(3)]) (simp add: atomic_outcome_def)
  ultimately show ?thesis using outcome_others [OF out] by blast
qed

theorem save_ok_durable_witness:
  "\<exists>v. std_write_atomic db_path [1, 2, 3] Always (example_world []) = (Inr () :: (unit, unit) result, v) \<and>
    content v db_path = Some [1, 2, 3] \<and> (\<forall>w'. crash v w' \<longrightarrow> content w' db_path = Some [1, 2, 3])"
proof -
  have f: "path_file_name db_path = Some ''index.iqdb''" by (simp add: db_path_def)
  have d: "target_dir db_path \<noteq> Path False []" by (simp add: db_path_def target_dir_def)
  obtain v where v: "std_write_atomic db_path [1, 2, 3] Always (example_world []) =
      (Inr () :: (unit, unit) result, v)"
    using std_write_atomic_run [OF example_can_save f, where policy = Always and payload = "[1, 2, 3]" and 'ie = unit] d by auto
  show ?thesis
    using v save_ok_durable [OF example_world_ok v] by (auto simp: example_world_def)
qed

text \<open>
  Whatever happens in a save, failing, interrupted or not,
  other files keep their content and the target holds the old or the new content.
\<close>

theorem save_touches_target_only:
  assumes "fs_ok w" and "std_write_atomic target payload policy w = (r :: ('ie, unit) result, v)"
  shows "(content v target = content w target \<or> content v target = Some payload) \<and>
    (\<forall>p bs. p \<noteq> target \<longrightarrow> content w p = Some bs \<longrightarrow> content v p = Some bs)"
proof -
  note out = std_write_atomic_outcome [OF assms]
  then show ?thesis using outcome_others [OF out] by (simp add: atomic_outcome_def)
qed

theorem save_touches_target_only_witness:
  "\<exists>r v. std_write_atomic db_path [1, 2] Always (example_world [Proceed, Fail not_found 1]) =
      (r :: (unit, unit) result, v) \<and>
    (content v db_path = None \<or> content v db_path = Some [1, 2])"
proof -
  obtain r v where run: "std_write_atomic db_path [1, 2] Always (example_world [Proceed, Fail not_found 1]) =
      (r :: (unit, unit) result, v)"
    using prod.exhaust by blast
  from save_touches_target_only [OF example_world_ok run]
  have "content v db_path = None \<or> content v db_path = Some [1, 2]"
    by (simp add: content_def example_world_def)
  then show ?thesis using run by blast
qed

text \<open>
  C22. Saving succeeds when nothing fails, with one exception: a bare relative file name.
  Its parent is the empty path, which the directory sync cannot open, so on unix (policy not
  \<open>Never\<close>) the save replaces the target and then reports \<open>NotFound\<close>.
\<close>

theorem save_succeeds_unless_bare:
  assumes "can_save target w" and "path_file_name target = Some f"
  shows "\<exists>v. std_write_atomic target payload policy w =
      ((if cfg_unix w \<and> policy \<noteq> Never \<and> path_parent target = Some (Path False [])
        then Inl (Io (Path False []) not_found) else Inr ()) :: ('ie, unit) result, v) \<and>
    content v target = Some payload"
proof -
  have "path_parent target = Some (target_dir target)"
    using assms(2) by (cases target) (auto simp: target_dir_def split: if_splits)
  then show ?thesis using std_write_atomic_run [OF assms, where policy = policy and payload = payload and 'ie = 'ie] by auto
qed

theorem save_succeeds_unless_bare_witness:
  "\<exists>v. std_write_atomic (Path False [''snapshot.iqdb'']) [1] Always (example_world []) =
      (Inl (Io (Path False []) not_found) :: (unit, unit) result, v) \<and>
    content v (Path False [''snapshot.iqdb'']) = Some [1]"
proof -
  have save: "can_save (Path False [''snapshot.iqdb'']) (example_world [])"
    by (simp add: can_save_def example_world_def parent_exists_def target_dir_def Let_def temp_name_def)
  show ?thesis
    using save_succeeds_unless_bare [OF save, where f = "''snapshot.iqdb''" and payload = "[1]"
        and policy = Always and 'ie = unit]
    by (simp add: example_world_def)
qed

end
