(* ===== verification/Wal_Log.thy ===== *)
theory Wal_Log
  imports Wal_Frames File_System Config
begin

section \<open>The live write-ahead log (\<open>src/wal.rs\<close>, \<open>Wal\<close>)\<close>

text \<open>
  The struct \<open>Wal\<close> and its methods, as programs on the log and the world.  A method that
  works on the open file runs it through \<open>on_file\<close>, which maps an I/O error to
  \<open>PersistError::Io\<close> with the log's path.  The invariant \<open>wal_ready\<close> says that the file the
  log has open is the one at its path and the position is at its end; what each method does
  to it, on success and on every failure, is proved here.
\<close>

definition wal_path :: "path \<Rightarrow> path" where
  "wal_path snapshot = path_push_os snapshot ''.wal''"

record wal =
  w_file :: handle
  w_path :: path
  w_policy :: fsync_policy
  last_fsync :: "nat option"
  scratch :: bytes

type_synonym ('ie, 'a) wal_prog = "(wal \<times> world, 'ie, 'a) prog"

text \<open>A call on the log's file, its error wrapped with the log's path.\<close>

definition on_file :: "(handle \<times> world, 'a) io_prog \<Rightarrow> ('ie, 'a) wal_prog" where
  "on_file m s =
     (case m (w_file (fst s), snd s) of
        (Inl source, (f, w)) \<Rightarrow> (Inl (Io (w_path (fst s)) source), ((fst s)\<lparr>w_file := f\<rparr>, w))
      | (Inr x, (f, w)) \<Rightarrow> (Inr x, ((fst s)\<lparr>w_file := f\<rparr>, w)))"

subsection \<open>Syncing\<close>

definition sync_now :: "('ie, unit) wal_prog" where
  "sync_now =
     sbind (on_file fs_sync_all) (\<lambda>_ s.
       let (now, w) = instant_now (snd s) in (Inr (), ((fst s)\<lparr>last_fsync := Some now\<rparr>, w)))"

definition maybe_sync :: "('ie, unit) wal_prog" where
  "maybe_sync s =
     (case w_policy (fst s) of
        Always \<Rightarrow> sync_now s
      | Never \<Rightarrow> (Inr (), s)
      | Periodic interval \<Rightarrow>
          let (now, w) = instant_now (snd s);
              due = (case last_fsync (fst s) of
                 Some prev \<Rightarrow> now - prev \<ge> interval
               | None \<Rightarrow> True)
          in if due then sync_now (fst s, w) else (Inr (), (fst s, w)))"

subsection \<open>Writing\<close>

definition wal_write_header :: "('ie, unit) wal_prog" where
  "wal_write_header = on_file (fs_write_all (WAL_MAGIC @ to_le 4 WAL_VERSION))"

definition commit_record :: "(bytes \<Rightarrow> u32) \<Rightarrow> ('ie, unit) wal_prog" where
  "commit_record crc s =
     sbind (slift (ok_or (InvalidPayload ''WAL record length does not fit in u32'')
                         (u32_try_from (length (scratch (fst s)))))) (\<lambda>body_len.
     let sum = compute crc (scratch (fst s));
         frame_head = to_le 4 body_len @ to_le 4 sum
     in sbind (on_file (fs_write_all frame_head)) (\<lambda>_.
        sbind (on_file (fs_write_all (scratch (fst s)))) (\<lambda>_.
        maybe_sync))) s"

text \<open>Running an encoder on the cleared scratch buffer.\<close>

definition fill_scratch :: "(bytes, 'ie, unit) prog \<Rightarrow> ('ie, unit) wal_prog" where
  "fill_scratch enc s =
     (let (r, buf) = enc [] in (r, ((fst s)\<lparr>scratch := buf\<rparr>, snd s)))"

definition append_insert ::
  "(bytes \<Rightarrow> u32) \<Rightarrow> 'm metadata_ops \<Rightarrow> vector_id \<Rightarrow> f32 list \<Rightarrow> 'm option \<Rightarrow> ('ie, unit) wal_prog" where
  "append_insert crc M vid vector meta =
     sbind (fill_scratch (encode_insert M vid vector meta)) (\<lambda>_. commit_record crc)"

definition append_delete :: "(bytes \<Rightarrow> u32) \<Rightarrow> vector_id \<Rightarrow> ('ie, unit) wal_prog" where
  "append_delete crc vid = sbind (fill_scratch (encode_delete vid)) (\<lambda>_. commit_record crc)"

definition mark :: "('ie, nat) wal_prog" where
  "mark = on_file fs_stream_position"

definition rollback :: "nat \<Rightarrow> ('ie, unit) wal_prog" where
  "rollback m =
     sbind (on_file (fs_set_len m)) (\<lambda>_.
     sbind (on_file (fs_seek_start m)) (\<lambda>pos.
     sync_now))"

definition wal_reset :: "('ie, unit) wal_prog" where
  "wal_reset =
     sbind (on_file (fs_set_len 0)) (\<lambda>_.
     sbind (on_file (fs_seek_start 0)) (\<lambda>pos.
     sbind wal_write_header (\<lambda>_.
     sync_now)))"

subsection \<open>Opening\<close>

definition new_wal :: "handle \<Rightarrow> path \<Rightarrow> fsync_policy \<Rightarrow> wal" where
  "new_wal f p policy = \<lparr>w_file = f, w_path = p, w_policy = policy, last_fsync = None, scratch = []\<rparr>"

text \<open>
  The constructors return the log, so their state is the world; a method call on the new
  log runs on the pair.
\<close>

definition returning_wal :: "('ie, unit) wal_prog \<Rightarrow> wal \<Rightarrow> (world, 'ie, wal) prog" where
  "returning_wal m wal w =
     (case m (wal, w) of
        (Inl e, (_, w')) \<Rightarrow> (Inl e, w')
      | (Inr _, (wal', w')) \<Rightarrow> (Inr wal', w'))"

definition wal_create :: "path \<Rightarrow> fsync_policy \<Rightarrow> (world, 'ie, wal) prog" where
  "wal_create snapshot policy =
     (let p = wal_path snapshot
      in sbind (smap_err (Io p) (fs_open_rw True p)) (\<lambda>file.
         returning_wal (sbind wal_write_header (\<lambda>_. sync_now)) (new_wal file p policy)))"

definition wal_open_for_append :: "path \<Rightarrow> fsync_policy \<Rightarrow> (world, 'ie, wal) prog" where
  "wal_open_for_append snapshot policy w =
     (let p = wal_path snapshot; (existed, w) = fs_exists p w
      in sbind (smap_err (Io p) (fs_open_rw False p)) (\<lambda>file.
         returning_wal
           (sbind (on_file fs_seek_end) (\<lambda>end_pos.
            if \<not> existed then sbind wal_write_header (\<lambda>_. sync_now) else sret ()))
           (new_wal file p policy)) w)"

subsection \<open>The open file\<close>

definition wal_ino :: "wal \<times> world \<Rightarrow> nat" where
  "wal_ino s = h_ino (w_file (fst s))"

definition wal_node :: "wal \<times> world \<Rightarrow> inode" where
  "wal_node s = nodes (snd s) (wal_ino s)"

text \<open>
  The log is ready for appends: its path names the open file and the position is at the end.
\<close>

definition wal_ready :: "wal \<times> world \<Rightarrow> bool" where
  "wal_ready s \<longleftrightarrow> fs_ok (snd s) \<and> names (snd s) (w_path (fst s)) = Some (wal_ino s) \<and>
     h_pos (w_file (fst s)) = length (data (wal_node s))"

text \<open>A method of the log touches its own file, its position, its clock and its buffer.\<close>

definition own_file :: "wal \<times> world \<Rightarrow> wal \<times> world \<Rightarrow> bool" where
  "own_file s s' \<longleftrightarrow>
     wal_ino s' = wal_ino s \<and> w_path (fst s') = w_path (fst s) \<and> w_policy (fst s') = w_policy (fst s) \<and>
     names (snd s') = names (snd s) \<and> old_names (snd s') = old_names (snd s) \<and>
     dirs (snd s') = dirs (snd s) \<and> next_ino (snd s') = next_ino (snd s) \<and>
     cfg_unix (snd s') = cfg_unix (snd s) \<and>
     (\<forall>i. i \<noteq> wal_ino s \<longrightarrow> nodes (snd s') i = nodes (snd s) i)"

lemma own_file_refl [simp]: "own_file s s"
  by (simp add: own_file_def)

lemma own_file_trans: "own_file s s' \<Longrightarrow> own_file s' s'' \<Longrightarrow> own_file s s''"
  by (simp add: own_file_def)

text \<open>The file grew by \<open>bs\<close>; nothing that was stable became unstable.\<close>

definition grows :: "inode \<Rightarrow> bytes \<Rightarrow> inode \<Rightarrow> bool" where
  "grows nd bs nd' \<longleftrightarrow> data nd' = data nd @ bs \<and> stable nd \<le> stable nd' \<and>
     (older nd' = older nd \<or> older nd' = [])"

lemma grows_refl [simp]: "grows nd [] nd"
  by (simp add: grows_def)

lemma grows_trans: "grows nd xs nd' \<Longrightarrow> grows nd' ys nd'' \<Longrightarrow> grows nd (xs @ ys) nd''"
  by (auto simp: grows_def)

lemma grows_write:
  "stable nd \<le> length (data nd) \<Longrightarrow> grows nd bs (write_inode (length (data nd)) bs nd)"
  by (simp add: grows_def write_inode_def)

lemma grows_sync: "stable nd \<le> length (data nd) \<Longrightarrow> grows nd [] (sync_inode nd)"
  by (simp add: grows_def sync_inode_def)

text \<open>\<open>advances s bs s'\<close>: the log went from one ready state to another by appending \<open>bs\<close>.\<close>

definition advances :: "wal \<times> world \<Rightarrow> bytes \<Rightarrow> wal \<times> world \<Rightarrow> bool" where
  "advances s bs s' \<longleftrightarrow> wal_ready s' \<and> own_file s s' \<and> grows (wal_node s) bs (wal_node s')"

lemma advances_refl: "wal_ready s \<Longrightarrow> advances s [] s"
  by (simp add: advances_def)

lemma advances_trans: "advances s xs s' \<Longrightarrow> advances s' ys s'' \<Longrightarrow> advances s (xs @ ys) s''"
  unfolding advances_def by (blast intro: own_file_trans grows_trans)

lemma advances_trans_nil: "advances s xs s' \<Longrightarrow> advances s' [] s'' \<Longrightarrow> advances s xs s''"
  using advances_trans [of s xs s' "[]" s''] by simp

lemma wal_ready_node: "wal_ready s \<Longrightarrow> stable (wal_node s) \<le> length (data (wal_node s))"
  using fs_okD(5) [of "snd s" "wal_ino s"] by (simp add: wal_ready_def wal_node_def inode_ok_def)

lemma advances_quiet:
  assumes "wal_ready (l, w)" and "quiet w w'" and "w_file l' = w_file l" "w_path l' = w_path l" "w_policy l' = w_policy l"
  shows "advances (l, w) [] (l', w')"
  using assms quietD(1) [OF assms(2)]
  by (auto simp: advances_def wal_ready_def own_file_def wal_node_def wal_ino_def quiet_def)

lemma on_file_write:
  assumes ready: "wal_ready s" and run: "on_file (fs_write_all bs) s = (r, s')"
  shows "\<exists>n. advances s (take n bs) s' \<and> scratch (fst s') = scratch (fst s) \<and>
    (r = Inr () \<and> take n bs = bs \<or> (\<exists>e. r = Inl (Io (w_path (fst s)) e)))"
proof -
  obtain l w where s: "s = (l, w)" by (cases s)
  obtain rw h' w' where wr: "fs_write_all bs (w_file l, w) = (rw, (h', w'))" by (metis prod.exhaust)
  have s': "s' = (l\<lparr>w_file := h'\<rparr>, w')" using run wr by (auto simp: on_file_def s split: sum.splits)
  let ?i = "h_ino (w_file l)"
  have pos: "h_pos (w_file l) = length (data (nodes w ?i))" and ok: "fs_ok w" and name: "names w (w_path l) = Some ?i"
    using ready by (simp_all add: s wal_ready_def wal_node_def wal_ino_def)
  have st: "stable (nodes w ?i) \<le> length (data (nodes w ?i))"
    using wal_ready_node [OF ready] by (simp add: s wal_node_def wal_ino_def)
  have adv: "advances s bs' s'"
    if q: "quiet w w1" and h': "h' = (w_file l)\<lparr>h_pos := h_pos (w_file l) + length bs'\<rparr>"
      and w': "w' = set_node ?i (write_inode (length (data (nodes w ?i))) bs' (nodes w ?i)) w1" for bs' w1
  proof -
    have "fs_ok w'"
      unfolding w' using ok by (intro fs_ok_set_node inode_ok_write) (simp_all add: quietD [OF q] fs_okD(5))
    moreover have "grows (nodes w ?i) bs' (write_inode (length (data (nodes w ?i))) bs' (nodes w ?i))"
      by (rule grows_write [OF st])
    ultimately show ?thesis
      using name pos q
      by (auto simp: advances_def wal_ready_def own_file_def s s' h' wal_node_def wal_ino_def w' set_node_def
          quiet_def grows_def)
  qed
  from wr show ?thesis
  proof (cases rule: fs_write_all_cases)
    case (written w1)
    then have "advances s bs s'" using pos by (intro adv) simp_all
    then show ?thesis
      using run wr written by (intro exI [of _ "length bs"]) (auto simp: on_file_def s)
  next
    case (failed w1 n e)
    then have "advances s (take n bs) s'" using pos by (intro adv) simp_all
    then show ?thesis
      using run wr failed by (intro exI [of _ n]) (auto simp: on_file_def s)
  qed
qed

lemma on_file_sync:
  assumes ready: "wal_ready s" and run: "on_file fs_sync_all s = (r, s')"
  shows "advances s [] s' \<and> scratch (fst s') = scratch (fst s) \<and>
    (r = Inr () \<and> synced (wal_node s') \<or> (\<exists>e. r = Inl (Io (w_path (fst s)) e)))"
proof -
  obtain l w where s: "s = (l, w)" by (cases s)
  obtain rw h' w' where sy: "fs_sync_all (w_file l, w) = (rw, (h', w'))" by (metis prod.exhaust)
  have s': "s' = (l\<lparr>w_file := h'\<rparr>, w')" using run sy by (auto simp: on_file_def s split: sum.splits)
  let ?i = "h_ino (w_file l)"
  have pos: "h_pos (w_file l) = length (data (nodes w ?i))" and ok: "fs_ok w" and name: "names w (w_path l) = Some ?i"
    using ready by (simp_all add: s wal_ready_def wal_node_def wal_ino_def)
  have st: "stable (nodes w ?i) \<le> length (data (nodes w ?i))"
    using wal_ready_node [OF ready] by (simp add: s wal_node_def wal_ino_def)
  from sy show ?thesis
  proof (cases rule: fs_sync_all_cases)
    case (synced w1)
    have "fs_ok w'"
      unfolding synced using ok by (intro fs_ok_set_node) (simp_all add: quietD [OF synced(1)])
    moreover have "grows (nodes w ?i) [] (sync_inode (nodes w ?i))" by (rule grows_sync [OF st])
    ultimately have "advances s [] s'"
      using name pos synced(1)
      by (auto simp: advances_def wal_ready_def own_file_def s s' synced(3) wal_node_def wal_ino_def
          synced(4) set_node_def quiet_def grows_def)
    moreover have "synced (wal_node s')"
      by (simp add: s' wal_node_def wal_ino_def synced(3,4) set_node_def synced_def sync_inode_def)
    ultimately show ?thesis
      using run sy synced by (auto simp: on_file_def s)
  next
    case (failed e)
    then have "advances s [] s'"
      using ready by (auto simp: s s' intro: advances_quiet)
    then show ?thesis using run sy failed by (auto simp: on_file_def s)
  qed
qed

lemma sync_now_effect:
  assumes ready: "wal_ready s" and run: "sync_now s = (r, s')"
  shows "advances s [] s' \<and> scratch (fst s') = scratch (fst s) \<and>
    (r = Inr () \<and> synced (wal_node s') \<or> (\<exists>e. r = Inl (Io (w_path (fst s)) e)))"
proof -
  obtain rs s1 where sy: "on_file fs_sync_all s = (rs :: ('a, unit) result, s1)"
    using prod.exhaust by blast
  note eff = on_file_sync [OF ready sy]
  show ?thesis
  proof (cases rs)
    case (Inl e)
    then show ?thesis using run sy eff by (simp add: sync_now_def sbind_def)
  next
    case (Inr u)
    obtain now w2 where now: "instant_now (snd s1) = (now, w2)" by (cases "instant_now (snd s1)")
    then have q: "quiet (snd s1) w2" by (rule quiet_instant_now)
    have s': "r = Inr ()" "s' = ((fst s1)\<lparr>last_fsync := Some now\<rparr>, w2)"
      using run sy Inr now by (auto simp: sync_now_def sbind_def)
    have "wal_ready (fst s1, snd s1)" using eff by (simp add: advances_def)
    from advances_quiet [OF this q, of "(fst s1)\<lparr>last_fsync := Some now\<rparr>"]
    have "advances s1 [] s'" by (simp add: s')
    moreover have "wal_node s' = wal_node s1"
      using q by (simp add: s' wal_node_def wal_ino_def quiet_def)
    ultimately show ?thesis
      using eff Inr advances_trans_nil [of s "[]" s1 s'] by (auto simp: s')
  qed
qed

lemma maybe_sync_effect:
  assumes ready: "wal_ready s" and run: "maybe_sync s = (r, s')"
  shows "advances s [] s' \<and> scratch (fst s') = scratch (fst s) \<and>
    (r = Inr () \<and> (w_policy (fst s) = Always \<longrightarrow> synced (wal_node s')) \<or>
     (\<exists>e. r = Inl (Io (w_path (fst s)) e)))"
proof (cases "w_policy (fst s)")
  case Always
  then have "sync_now s = (r, s')" using run by (simp add: maybe_sync_def)
  from sync_now_effect [OF ready this] show ?thesis by auto
next
  case Never
  then show ?thesis using run ready by (auto simp: maybe_sync_def advances_refl)
next
  case (Periodic interval)
  obtain now w1 where now: "instant_now (snd s) = (now, w1)" by (cases "instant_now (snd s)")
  then have q: "quiet (snd s) w1" by (rule quiet_instant_now)
  have adv: "advances s [] (fst s, w1)"
    using advances_quiet [OF _ q, of "fst s" "fst s"] ready by simp
  then have ready1: "wal_ready (fst s, w1)" by (simp add: advances_def)
  have "(r, s') = (Inr (), (fst s, w1)) \<or> sync_now (fst s, w1) = (r, s')"
    using run by (auto simp: maybe_sync_def Periodic now Let_def split: if_splits)
  then show ?thesis
  proof
    assume "(r, s') = (Inr (), (fst s, w1))"
    then show ?thesis using adv by (simp add: Periodic)
  next
    assume "sync_now (fst s, w1) = (r, s')"
    from sync_now_effect [OF ready1 this] show ?thesis
      using advances_trans_nil [OF adv] by (auto simp: Periodic)
  qed
qed

lemma commit_record_effect:
  assumes ready: "wal_ready s" and run: "commit_record crc s = (r, s')"
  shows "\<exists>n. advances s (take n (frame_image crc (scratch (fst s)))) s' \<and>
    (r = Inr () \<longrightarrow> take n (frame_image crc (scratch (fst s))) = frame_image crc (scratch (fst s)) \<and>
       length (scratch (fst s)) \<le> U32_MAX \<and> (w_policy (fst s) = Always \<longrightarrow> synced (wal_node s')))"
proof (cases "u32_try_from (length (scratch (fst s)))")
  case None
  then show ?thesis
    using run advances_refl [OF ready] by (intro exI [of _ 0]) (auto simp: commit_record_def)
next
  case (Some len)
  let ?body = "scratch (fst s)"
  let ?head = "to_le 4 len @ to_le 4 (compute crc ?body)"
  have len: "length ?body \<le> U32_MAX" "len = of_nat (length ?body)"
    using Some by (auto simp: u32_try_from_def split: if_splits)
  have frame: "frame_image crc ?body = ?head @ ?body"
    by (simp add: frame_image_def len(2) compute_def)
  obtain r1 s1 where wh: "on_file (fs_write_all ?head) s = (r1 :: ('a, unit) result, s1)"
    using prod.exhaust by blast
  obtain n1 where e1: "advances s (take n1 ?head) s1" "scratch (fst s1) = ?body"
      "r1 = Inr () \<and> take n1 ?head = ?head \<or> (\<exists>e. r1 = Inl (Io (w_path (fst s)) e))"
    using on_file_write [OF ready wh] by blast
  have run1: "sbind (on_file (fs_write_all ?head)) (\<lambda>_. sbind (on_file (fs_write_all ?body)) (\<lambda>_. maybe_sync)) s = (r, s')"
    using run Some by (simp add: commit_record_def Let_def)
  show ?thesis
  proof (cases r1)
    case (Inl e)
    then have "r = Inl e" "s' = s1" using run1 wh by (simp_all add: sbind_def)
    moreover have "take (min n1 (length ?head)) (frame_image crc ?body) = take n1 ?head"
      unfolding frame by (rule take_min_append)
    ultimately show ?thesis
      using e1(1) by (intro exI [of _ "min n1 (length ?head)"]) (simp del: length_append take_append)
  next
    case (Inr u)
    then have h1: "advances s ?head s1" using e1 by auto
    then have ready1: "wal_ready s1" by (simp add: advances_def)
    obtain r2 s2 where wb: "on_file (fs_write_all ?body) s1 = (r2 :: ('a, unit) result, s2)"
      using prod.exhaust by blast
    obtain n2 where e2: "advances s1 (take n2 ?body) s2"
        "r2 = Inr () \<and> take n2 ?body = ?body \<or> (\<exists>e. r2 = Inl (Io (w_path (fst s1)) e))"
      using on_file_write [OF ready1 wb] by blast
    have run2: "sbind (on_file (fs_write_all ?body)) (\<lambda>_. maybe_sync) s1 = (r, s')"
      using run1 wh Inr by (simp add: sbind_def)
    show ?thesis
    proof (cases r2)
      case (Inl e)
      then have "r = Inl e" "s' = s2" using run2 wb by (simp_all add: sbind_def)
      moreover have "advances s (?head @ take n2 ?body) s2" by (rule advances_trans [OF h1 e2(1)])
      ultimately show ?thesis
        by (intro exI [of _ "length ?head + n2"]) (simp add: frame del: to_le.simps)
    next
      case (Inr u)
      then have full: "advances s (frame_image crc ?body) s2"
        using e2 advances_trans [OF h1] unfolding frame by fastforce
      then have ready2: "wal_ready s2" by (simp add: advances_def)
      have ms: "maybe_sync s2 = (r, s')" using run2 wb Inr by (simp add: sbind_def)
      have pol: "w_policy (fst s2) = w_policy (fst s)" using full by (simp add: advances_def own_file_def)
      have "advances s (frame_image crc ?body) s'"
        using maybe_sync_effect [OF ready2 ms] advances_trans_nil [OF full] by blast
      then show ?thesis
        using maybe_sync_effect [OF ready2 ms] len(1) pol
        by (intro exI [of _ "length (frame_image crc ?body)"]) auto
    qed
  qed
qed

subsection \<open>Appending a record\<close>

fun append_record :: "(bytes \<Rightarrow> u32) \<Rightarrow> 'm metadata_ops \<Rightarrow> 'm wal_record \<Rightarrow> ('ie, unit) wal_prog" where
  "append_record crc M (Insert vid vector meta) = append_insert crc M vid vector meta"
| "append_record crc M (Delete vid) = append_delete crc vid"

lemma append_record_eq:
  "append_record crc M r = sbind (fill_scratch (encode_record M r)) (\<lambda>_. commit_record crc)"
  by (cases r) (simp_all add: append_insert_def append_delete_def)

lemma append_record_effect:
  assumes ready: "wal_ready s" and run: "append_record crc M r s = (res :: ('ie, unit) result, s')"
  shows "\<exists>n. advances s (take n (frame_image crc (record_image M r))) s' \<and>
    (res = Inr () \<longrightarrow>
       take n (frame_image crc (record_image M r)) = frame_image crc (record_image M r) \<and>
       length (record_image M r) \<le> U32_MAX \<and> (w_policy (fst s) = Always \<longrightarrow> synced (wal_node s')))"
proof -
  obtain re buf where enc: "encode_record M r [] = (re :: ('ie, unit) result, buf)"
    using prod.exhaust by blast
  let ?s1 = "((fst s)\<lparr>scratch := buf\<rparr>, snd s)"
  have adv: "advances s [] ?s1"
    using advances_quiet [OF _ quiet_refl, of "fst s" "snd s" "(fst s)\<lparr>scratch := buf\<rparr>"] ready by simp
  have run1: "(case re of Inl e \<Rightarrow> (Inl e, ?s1) | Inr u \<Rightarrow> commit_record crc ?s1) = (res, s')"
    using run enc by (simp add: append_record_eq fill_scratch_def sbind_def)
  show ?thesis
  proof (cases re)
    case (Inl e)
    then show ?thesis using run1 adv by (intro exI [of _ 0]) auto
  next
    case (Inr u)
    then have buf: "buf = record_image M r" using mutation.put_img [of M r "[]" buf] enc by simp
    have "commit_record crc ?s1 = (res, s')" using run1 Inr by simp
    moreover have "wal_ready ?s1" using adv by (simp add: advances_def)
    ultimately obtain n where n: "advances ?s1 (take n (frame_image crc buf)) s'"
      "res = Inr () \<longrightarrow> take n (frame_image crc buf) = frame_image crc buf \<and>
        length buf \<le> U32_MAX \<and> (w_policy (fst s) = Always \<longrightarrow> synced (wal_node s'))"
      using commit_record_effect [of ?s1 crc res s'] by auto
    then have "advances s (take n (frame_image crc buf)) s'" using advances_trans [OF adv n(1)] by simp
    with n(2) show ?thesis unfolding buf by blast
  qed
qed

lemma mark_effect:
  assumes ready: "wal_ready s" and run: "mark s = (r, s')"
  shows "advances s [] s'" and "r = Inr m \<Longrightarrow> m = length (data (wal_node s))"
proof -
  obtain l w where s: "s = (l, w)" by (cases s)
  obtain out w1 where d: "draw w = (out, w1)" by (cases "draw w")
  then have q: "quiet w w1" by (rule quiet_draw)
  have pos: "h_pos (w_file l) = length (data (wal_node s))" using ready by (simp add: s wal_ready_def)
  have "s' = (l, w1) \<and> (\<forall>m. r = Inr m \<longrightarrow> m = length (data (wal_node s)))"
    using run d pos by (auto simp: mark_def on_file_def fs_stream_position_def call_def Let_def s split: outcome.splits)
  then show "advances s [] s'" and "r = Inr m \<Longrightarrow> m = length (data (wal_node s))"
    using advances_quiet [OF _ q, of l l] ready by (auto simp: s)
qed

subsection \<open>Cutting the log\<close>

text \<open>
  \<open>rollback\<close> and \<open>wal_reset\<close> cut the file.  If they succeed the log is ready again and
  synced; if they fail the file is cut or not, but nothing else has changed.
\<close>

lemma on_file_set_len:
  assumes ready: "wal_ready s" and m: "m \<le> length (data (wal_node s))"
    and run: "on_file (fs_set_len m) s = (r, s')"
  shows "fs_ok (snd s') \<and> own_file s s' \<and> w_file (fst s') = w_file (fst s) \<and>
    (r = Inr () \<and> data (wal_node s') = take m (data (wal_node s)) \<or>
     (\<exists>e. r = Inl e) \<and> wal_node s' = wal_node s)"
proof -
  obtain l w where s: "s = (l, w)" by (cases s)
  obtain out w1 where d: "draw w = (out, w1)" by (cases "draw w")
  then have q: "quiet w w1" by (rule quiet_draw)
  have ok: "fs_ok w1" using ready by (simp add: s wal_ready_def quietD [OF q])
  then have "fs_ok (set_node (h_ino (w_file l)) (resize_inode m (nodes w1 (h_ino (w_file l)))) w1)"
    by (intro fs_ok_set_node inode_ok_resize fs_okD(5))
  then show ?thesis
    using run d ok q m
    by (auto simp: on_file_def fs_set_len_def call_def Let_def s own_file_def wal_ino_def wal_node_def
        quiet_def set_node_def resize_inode_def split: outcome.splits)
qed

lemma on_file_seek:
  assumes "on_file (fs_seek_start m) s = (r, s')"
  shows "quiet (snd s) (snd s') \<and>
    (r = Inr m \<and> fst s' = (fst s)\<lparr>w_file := (w_file (fst s))\<lparr>h_pos := m\<rparr>\<rparr> \<or> (\<exists>e. r = Inl e) \<and> fst s' = fst s)"
proof -
  obtain l w where s: "s = (l, w)" by (cases s)
  obtain out w1 where d: "draw w = (out, w1)" by (cases "draw w")
  then have q: "quiet w w1" by (rule quiet_draw)
  show ?thesis
    using assms d q by (auto simp: on_file_def fs_seek_start_def call_def s split: outcome.splits)
qed

lemma set_len_seek:
  assumes ready: "wal_ready s" and m: "m \<le> length (data (wal_node s))"
    and a: "on_file (fs_set_len m) s = (Inr u :: ('ie, unit) result, s1)"
    and b: "on_file (fs_seek_start m) s1 = (r2 :: ('ie, nat) result, s2)"
  shows "own_file s s2 \<and> fs_ok (snd s2) \<and> data (wal_node s2) = take m (data (wal_node s)) \<and>
    ((\<exists>pos. r2 = Inr pos) \<longrightarrow> wal_ready s2)"
proof -
  note ea = on_file_set_len [OF ready m a] and eb = on_file_seek [OF b]
  have n2: "wal_node s2 = wal_node s1" "own_file s1 s2" "fs_ok (snd s2)"
    using eb ea quietD(1) [of "snd s1" "snd s2"]
    by (auto simp: wal_node_def wal_ino_def own_file_def quiet_def)
  have own2: "own_file s s2" using ea n2 own_file_trans by blast
  have d: "data (wal_node s2) = take m (data (wal_node s))" using ea n2(1) by simp
  have "wal_ready s2" if "r2 = Inr pos" for pos
  proof -
    have "names (snd s2) (w_path (fst s2)) = Some (wal_ino s2)"
      using own2 ready by (simp add: own_file_def wal_ready_def)
    moreover have "h_pos (w_file (fst s2)) = length (data (wal_node s2))"
      using eb that m d by auto
    ultimately show ?thesis using n2(3) by (simp add: wal_ready_def)
  qed
  then show ?thesis using own2 n2(3) d by blast
qed

text \<open>A sync that closes an operation begun in \<open>s\<close>.\<close>

lemma closing_sync:
  assumes "wal_ready s2" and "own_file s s2" and "sync_now s2 = (r, s')"
  shows "wal_ready s' \<and> own_file s s' \<and> data (wal_node s') = data (wal_node s2) \<and>
    (r = Inr () \<longrightarrow> synced (wal_node s'))"
proof -
  from sync_now_effect [OF assms(1,3)]
  have "wal_ready s'" "own_file s2 s'" "data (wal_node s') = data (wal_node s2)"
    "r = Inr () \<longrightarrow> synced (wal_node s')" by (auto simp: advances_def grows_def)
  then show ?thesis using own_file_trans [OF assms(2)] by blast
qed

lemma rollback_effect:
  assumes ready: "wal_ready s" and m: "m \<le> length (data (wal_node s))" and run: "rollback m s = (r, s')"
  shows "fs_ok (snd s') \<and> own_file s s' \<and>
    (data (wal_node s') = take m (data (wal_node s)) \<or> data (wal_node s') = data (wal_node s)) \<and>
    (r = Inr () \<longrightarrow> wal_ready s' \<and> data (wal_node s') = take m (data (wal_node s)) \<and> synced (wal_node s'))"
proof -
  obtain r1 s1 where a: "on_file (fs_set_len m) s = (r1 :: ('a, unit) result, s1)" using prod.exhaust by blast
  obtain r2 s2 where b: "on_file (fs_seek_start m) s1 = (r2 :: ('a, nat) result, s2)" using prod.exhaust by blast
  show ?thesis
  proof (cases r1)
    case (Inl e)
    then show ?thesis using run a on_file_set_len [OF ready m a] by (auto simp: rollback_def sbind_def)
  next
    case (Inr u)
    note e2 = set_len_seek [OF ready m a [unfolded Inr] b]
    show ?thesis
    proof (cases r2)
      case (Inl e)
      then show ?thesis
        using run a \<open>r1 = Inr u\<close> b e2 by (auto simp: rollback_def sbind_def)
    next
      case (Inr pos)
      then have ready2: "wal_ready s2" and own2: "own_file s s2" using e2 by auto
      have "sync_now s2 = (r, s')" using run a \<open>r1 = Inr u\<close> b Inr by (simp add: rollback_def sbind_def)
      from closing_sync [OF ready2 own2 this] show ?thesis using e2 by (auto simp: wal_ready_def)
    qed
  qed
qed

lemma write_header_sync:
  assumes ready: "wal_ready s" and run: "sbind wal_write_header (\<lambda>_. sync_now) s = (r, s')"
  shows "wal_ready s' \<and> own_file s s' \<and>
    (\<exists>n. data (wal_node s') = data (wal_node s) @ take n wal_header) \<and>
    (r = Inr () \<longrightarrow> data (wal_node s') = data (wal_node s) @ wal_header \<and> synced (wal_node s'))"
proof -
  obtain r1 s1 where a: "wal_write_header s = (r1 :: ('a, unit) result, s1)" using prod.exhaust by blast
  obtain n where n: "advances s (take n wal_header) s1"
      "r1 = Inr () \<and> take n wal_header = wal_header \<or> (\<exists>e. r1 = Inl (Io (w_path (fst s)) e))"
    using on_file_write [OF ready, of wal_header r1 s1] a
    unfolding wal_write_header_def wal_header_def by blast
  then have ready1: "wal_ready s1" and own1: "own_file s s1"
    and d1: "data (wal_node s1) = data (wal_node s) @ take n wal_header"
    by (auto simp: advances_def grows_def)
  show ?thesis
  proof (cases r1)
    case (Inl e)
    then have "r = Inl e" "s' = s1" using run a by (simp_all add: sbind_def)
    then show ?thesis using ready1 own1 d1 by blast
  next
    case (Inr u)
    then have "sync_now s1 = (r, s')" using run a by (simp add: sbind_def)
    note closing_sync [OF ready1 own1 this]
    moreover have "take n wal_header = wal_header" using n(2) Inr by auto
    ultimately show ?thesis using d1 by metis
  qed
qed

lemma wal_reset_effect:
  assumes ready: "wal_ready s" and run: "wal_reset s = (r, s')"
  shows "fs_ok (snd s') \<and> own_file s s' \<and>
    ((\<exists>n. data (wal_node s') = take n wal_header) \<or> data (wal_node s') = data (wal_node s)) \<and>
    (r = Inr () \<longrightarrow> wal_ready s' \<and> data (wal_node s') = wal_header \<and> synced (wal_node s'))"
proof -
  obtain r1 s1 where a: "on_file (fs_set_len 0) s = (r1 :: ('a, unit) result, s1)" using prod.exhaust by blast
  obtain r2 s2 where b: "on_file (fs_seek_start 0) s1 = (r2 :: ('a, nat) result, s2)" using prod.exhaust by blast
  show ?thesis
  proof (cases r1)
    case (Inl e)
    then show ?thesis using run a on_file_set_len [OF ready le0 a] by (auto simp: wal_reset_def sbind_def)
  next
    case (Inr u)
    note e2 = set_len_seek [OF ready le0 a [unfolded Inr] b]
    show ?thesis
    proof (cases r2)
      case (Inl e)
      then show ?thesis
        using run a \<open>r1 = Inr u\<close> b e2 by (auto simp: wal_reset_def sbind_def intro: exI [of _ 0])
    next
      case (Inr pos)
      then have ready2: "wal_ready s2" and own2: "own_file s s2" using e2 by auto
      have "sbind wal_write_header (\<lambda>_. sync_now) s2 = (r, s')"
        using run a \<open>r1 = Inr u\<close> b Inr by (simp add: wal_reset_def sbind_def)
      from write_header_sync [OF ready2 this] show ?thesis
        using e2 own_file_trans [OF own2] by (auto simp: wal_ready_def)
    qed
  qed
qed

subsection \<open>What a crash may leave of the log\<close>

text \<open>
  \<open>partly xs ys nd\<close>: whatever a crash makes of the file, it holds \<open>xs\<close> and behind it some
  beginning of \<open>ys\<close>.  The append of \<open>ys\<close> to a synced file leaves it so, as does every step of
  the rollback of that append; the reset of a log leaves some beginning of the old one.
\<close>

definition partly :: "bytes \<Rightarrow> bytes \<Rightarrow> inode \<Rightarrow> bool" where
  "partly xs ys nd \<longleftrightarrow> length xs \<le> stable nd \<and> (\<forall>v\<in>set (data nd # older nd). \<exists>k. v = xs @ take k ys)"

lemma partly_data: "partly xs ys nd \<Longrightarrow> \<exists>k. data nd = xs @ take k ys"
  by (simp add: partly_def)

lemma partly_survives:
  assumes "partly xs ys nd" and "survives nd nd'"
  shows "\<exists>k. data nd' = xs @ take k ys"
proof -
  obtain v n where "v \<in> set (data nd # older nd)" and n: "stable nd \<le> n" "data nd' = take n v"
    using assms(2) unfolding survives_def by blast
  with assms(1) obtain k where "v = xs @ take k ys" and "length xs \<le> stable nd"
    unfolding partly_def by blast
  with n have "data nd' = xs @ take (min (n - length xs) k) ys" by simp
  then show ?thesis by blast
qed

lemma partly_grows:
  assumes "grows nd (take n ys) nd'" and "synced nd"
  shows "partly (data nd) ys nd'"
  using assms by (auto simp: partly_def grows_def synced_def)

lemma partly_same: "partly xs ys nd \<Longrightarrow> grows nd [] nd' \<Longrightarrow> partly xs ys nd'"
  by (auto simp: partly_def grows_def)

lemma partly_refill: "partly [] ys nd \<Longrightarrow> data nd = [] \<Longrightarrow> grows nd (take n ys) nd' \<Longrightarrow> partly [] ys nd'"
  by (auto simp: partly_def grows_def)

lemma partly_resize: "partly xs ys nd \<Longrightarrow> partly xs ys (resize_inode (length xs) nd)"
  using partly_data [of xs ys nd] by (auto simp: partly_def resize_inode_def intro: exI [of _ 0])

lemma wal_node_set_len:
  assumes "on_file (fs_set_len m) s = (r, s')"
  shows "wal_node s' = wal_node s \<or> wal_node s' = resize_inode m (wal_node s)"
proof -
  obtain out w1 where d: "draw (snd s) = (out, w1)" by (cases "draw (snd s)")
  then show ?thesis
    using assms quiet_draw [OF d] by (cases s)
      (auto simp: on_file_def fs_set_len_def call_def Let_def wal_ino_def wal_node_def
        quiet_def set_node_def split: outcome.splits)
qed

lemma wal_node_seek: "on_file (fs_seek_start m) s = (r, s') \<Longrightarrow> wal_node s' = wal_node s"
  using on_file_seek [of m s r s'] by (auto simp: wal_node_def wal_ino_def quiet_def)

lemma rollback_partly:
  assumes ready: "wal_ready s" and m: "length xs \<le> length (data (wal_node s))" and part: "partly xs ys (wal_node s)"
    and run: "rollback (length xs) s = (r :: ('ie, unit) result, s')"
  shows "partly xs ys (wal_node s')"
proof -
  obtain r1 s1 where a: "on_file (fs_set_len (length xs)) s = (r1 :: ('ie, unit) result, s1)" by (metis prod.exhaust)
  obtain r2 s2 where b: "on_file (fs_seek_start (length xs)) s1 = (r2 :: ('ie, nat) result, s2)" by (metis prod.exhaust)
  have p1: "partly xs ys (wal_node s1)" using wal_node_set_len [OF a] part partly_resize by metis
  then have p2: "partly xs ys (wal_node s2)" using wal_node_seek [OF b] by simp
  show ?thesis
  proof (cases "\<exists>u pos. r1 = Inr u \<and> r2 = Inr pos")
    case True
    then have "wal_ready s2" using set_len_seek [OF ready m _ b] a by blast
    moreover have "sync_now s2 = (r, s')" using True run a b by (auto simp: rollback_def sbind_def)
    ultimately have "advances s2 [] s'" using sync_now_effect by blast
    then show ?thesis using p2 partly_same by (auto simp: advances_def)
  next
    case False
    then show ?thesis using run a b p1 p2 by (cases r1; cases r2) (auto simp: rollback_def sbind_def)
  qed
qed

lemma header_partly:
  assumes ready: "wal_ready s" and empty: "data (wal_node s) = []" and part: "partly [] (wal_header @ bs) (wal_node s)"
    and run: "sbind wal_write_header (\<lambda>_. sync_now) s = (r :: ('ie, unit) result, s')"
  shows "partly [] (wal_header @ bs) (wal_node s')"
proof -
  obtain r1 s1 where a: "wal_write_header s = (r1 :: ('ie, unit) result, s1)" by (metis prod.exhaust)
  then obtain n where adv: "advances s (take n wal_header) s1"
    using on_file_write [OF ready, of wal_header r1 s1] unfolding wal_write_header_def wal_header_def by blast
  then have g: "grows (wal_node s) (take n wal_header) (wal_node s1)" and ready1: "wal_ready s1"
    by (simp_all add: advances_def)
  have "take n wal_header = take (min n 12) (wal_header @ bs)" by (simp add: min_def)
  then have p1: "partly [] (wal_header @ bs) (wal_node s1)"
    using g part empty partly_refill by metis
  then show ?thesis
    using run a sync_now_effect [OF ready1] partly_same
    by (cases r1) (fastforce simp: sbind_def advances_def)+
qed

lemma wal_reset_partly:
  assumes ready: "wal_ready s" and part: "partly [] (wal_header @ bs) (wal_node s)"
    and run: "wal_reset s = (r :: ('ie, unit) result, s')"
  shows "partly [] (wal_header @ bs) (wal_node s')"
proof -
  obtain r1 s1 where a: "on_file (fs_set_len 0) s = (r1 :: ('ie, unit) result, s1)" by (metis prod.exhaust)
  obtain r2 s2 where b: "on_file (fs_seek_start 0) s1 = (r2 :: ('ie, nat) result, s2)" by (metis prod.exhaust)
  have p1: "partly [] (wal_header @ bs) (wal_node s1)"
    using wal_node_set_len [OF a] part partly_resize [of "[]"] by auto
  then have p2: "partly [] (wal_header @ bs) (wal_node s2)" using wal_node_seek [OF b] by simp
  show ?thesis
  proof (cases "\<exists>u pos. r1 = Inr u \<and> r2 = Inr pos")
    case True
    then have "wal_ready s2" and "data (wal_node s2) = []"
      using set_len_seek [OF ready le0 _ b] a by (metis take_0)+
    moreover have "sbind wal_write_header (\<lambda>_. sync_now) s2 = (r, s')"
      using True run a b by (auto simp: wal_reset_def sbind_def)
    ultimately show ?thesis using header_partly p2 by blast
  next
    case False
    then show ?thesis using run a b p1 p2 by (cases r1; cases r2) (auto simp: wal_reset_def sbind_def)
  qed
qed

subsection \<open>Opening the log\<close>

lemma own_file_spares:
  assumes "own_file s s'" and "wal_ready s"
  shows "spares (w_path (fst s)) (snd s) (snd s')"
  unfolding spares_def
proof (intro allI impI)
  fix q i
  assume q: "q \<noteq> w_path (fst s)" "names (snd s) q = Some i"
  then have "i \<noteq> wal_ino s" using assms(2) fs_okD(3) by (auto simp: wal_ready_def)
  then show "names (snd s') q = Some i \<and> nodes (snd s') i = nodes (snd s) i \<and>
      old_names (snd s') q \<in> {old_names (snd s) q, []}"
    using assms(1) q by (simp add: own_file_def)
qed

lemma wal_path_neq [simp]: "wal_path p \<noteq> p"
  by (simp add: wal_path_def)

text \<open>Opening the file, before anything is written to it.\<close>

lemma fs_open_rw_effect:
  assumes ok: "fs_ok w" and run: "fs_open_rw trunc p w = (r, w')"
  shows "fs_ok w' \<and> spares p w w' \<and> dirs w' = dirs w \<and> cfg_unix w' = cfg_unix w \<and>
    (\<forall>h. r = Inr h \<longrightarrow> names w' p = Some (h_ino h) \<and> h_pos h = 0 \<and>
       data (nodes w' (h_ino h)) = (if trunc then [] else case content w p of None \<Rightarrow> [] | Some bs \<Rightarrow> bs) \<and>
       (\<not> trunc \<longrightarrow> content w p \<noteq> None \<longrightarrow> quiet w w') \<and>
       (names w p \<noteq> None \<longrightarrow> names w' p = names w p \<and> old_names w' p = old_names w p)) \<and>
    ((\<exists>e. r = Inl e) \<longrightarrow> quiet w w')"
proof -
  obtain out w1 where d: "draw w = (out, w1)" by (cases "draw w")
  then have q: "quiet w w1" by (rule quiet_draw)
  have ok1: "fs_ok w1" using ok by (simp add: quietD [OF q])
  have pe: "parent_exists w1 p = parent_exists w p" by (simp add: parent_exists_def quietD [OF q] split: option.split)
  show ?thesis
  proof (cases "out = Runs \<and> \<not> dirs w p \<and> (names w p \<noteq> None \<or> parent_exists w p)")
    case False
    then have "w' = w1 \<and> (\<exists>e. r = Inl e)"
      using run d
      by (cases out)
        (auto simp: fs_open_rw_def call_def quietD [OF q] pe split: if_splits option.splits)
    then show ?thesis using ok1 q spares_quiet [OF q] by (auto simp: quietD [OF q])
  next
    case True
    show ?thesis
    proof (cases "names w p")
      case (Some i)
      have h: "r = Inr \<lparr>h_ino = i, h_pos = 0\<rparr>"
        "w' = (if trunc then set_node i (resize_inode 0 (nodes w i)) w1 else w1)"
        using run d True Some by (auto simp: fs_open_rw_def call_def quietD [OF q] split: if_splits)
      have "fs_ok w'"
        unfolding h(2) using ok1 fs_okD(5) [OF ok] by (auto intro: fs_ok_set_node inode_ok_resize)
      moreover have "spares p w w'"
        unfolding spares_def
      proof (intro allI impI)
        fix q' j
        assume q': "q' \<noteq> p" "names w q' = Some j"
        then have "j \<noteq> i" using fs_okD(3) [OF ok] Some by blast
        then show "names w' q' = Some j \<and> nodes w' j = nodes w j \<and> old_names w' q' \<in> {old_names w q', []}"
          using q q' by (auto simp: h(2) set_node_def quiet_def)
      qed
      ultimately show ?thesis
        using Some q by (auto simp: h set_node_def resize_inode_def content_def quiet_def)
    next
      case None
      have h: "r = Inr \<lparr>h_ino = next_ino w, h_pos = 0\<rparr>" "w' = new_file p w1"
        using run d True None
        by (auto simp: fs_open_rw_def call_def quietD [OF q] pe split: if_splits)
      have "fs_ok w'" unfolding h(2) using ok1 True by (intro fs_ok_new_file) (simp_all add: quietD [OF q])
      moreover have "spares p w w'"
        using q fs_okD(1) [OF ok]
        by (auto simp: spares_def h(2) new_file_def set_name_def set_node_def quiet_def dest: fs_okD(1) [OF ok])
      ultimately show ?thesis
        using None q
        by (auto simp: h new_file_def set_name_def set_node_def empty_inode_def content_def quiet_def)
    qed
  qed
qed

lemma returning_wal_cases:
  assumes "returning_wal m l w = (r, w')"
  obtains l' res where "m (l, w) = (res, (l', w'))" and "\<forall>x. r = Inr x \<longrightarrow> x = l' \<and> res = Inr ()"
  using assms by (cases "m (l, w)") (auto simp: returning_wal_def split: sum.splits)

definition opened :: "path \<Rightarrow> fsync_policy \<Rightarrow> bytes \<Rightarrow> wal \<Rightarrow> world \<Rightarrow> bool" where
  "opened snapshot policy bs l w \<longleftrightarrow> wal_ready (l, w) \<and> w_path l = wal_path snapshot \<and>
     w_policy l = policy \<and> data (wal_node (l, w)) = bs"

lemma wal_create_effect:
  assumes ok: "fs_ok w" and run: "wal_create snapshot policy w = (r :: ('ie, wal) result, w')"
  shows "fs_ok w' \<and> spares (wal_path snapshot) w w' \<and>
    (\<forall>l. r = Inr l \<longrightarrow> opened snapshot policy wal_header l w' \<and> synced (wal_node (l, w')))"
proof -
  let ?p = "wal_path snapshot"
  obtain rf w1 where op: "fs_open_rw True ?p w = (rf, w1)" by (cases "fs_open_rw True ?p w")
  note eff = fs_open_rw_effect [OF ok op]
  show ?thesis
  proof (cases rf)
    case (Inl e)
    then show ?thesis
      using run op eff by (auto simp: wal_create_def Let_def sbind_def smap_err_def)
  next
    case (Inr h)
    let ?l = "new_wal h ?p policy"
    have "returning_wal (sbind wal_write_header (\<lambda>_. sync_now)) ?l w1 = (r, w')"
      using run op Inr by (simp add: wal_create_def Let_def sbind_def smap_err_def)
    then obtain l' res where m: "sbind wal_write_header (\<lambda>_. sync_now) (?l, w1) = (res :: ('ie, unit) result, (l', w'))"
      and r: "\<forall>x. r = Inr x \<longrightarrow> x = l' \<and> res = Inr ()"
      by (rule returning_wal_cases) blast
    have ready: "wal_ready (?l, w1)" and empty: "data (wal_node (?l, w1)) = []"
      using eff Inr by (simp_all add: wal_ready_def new_wal_def wal_node_def wal_ino_def)
    note ws = write_header_sync [OF ready m]
    have "spares ?p w1 w'"
      using own_file_spares [of "(?l, w1)" "(l', w')"] ws ready by (simp add: new_wal_def)
    then have "spares ?p w w'" using eff spares_trans by blast
    then show ?thesis
      using ws r empty by (auto simp: opened_def own_file_def new_wal_def wal_ready_def)
  qed
qed

text \<open>Creating the log over an existing one cuts it.\<close>

lemma wal_create_partly:
  assumes ok: "fs_ok w" and name: "names w (wal_path snapshot) = Some i"
    and part: "partly [] (wal_header @ bs) (nodes w i)"
    and run: "wal_create snapshot policy w = (r :: ('ie, wal) result, w')"
  shows "names w' (wal_path snapshot) = Some i \<and> partly [] (wal_header @ bs) (nodes w' i)"
proof -
  let ?p = "wal_path snapshot"
  obtain rf w1 where op: "fs_open_rw True ?p w = (rf, w1)" by (cases "fs_open_rw True ?p w")
  obtain out w0 where d: "draw w = (out, w0)" by (cases "draw w")
  note q = quiet_draw [OF d]
  show ?thesis
  proof (cases rf)
    case (Inl e)
    then have "w' = w1" using run op by (simp add: wal_create_def Let_def sbind_def smap_err_def)
    moreover have "quiet w w1" using fs_open_rw_effect [OF ok op] Inl by blast
    ultimately show ?thesis using name part by (simp add: quietD)
  next
    case (Inr h)
    let ?l = "new_wal h ?p policy"
    have w1: "h_ino h = i" "nodes w1 i = resize_inode 0 (nodes w i)" "names w1 ?p = Some i"
      using op Inr d name
      by (auto simp: fs_open_rw_def call_def quietD [OF q] set_node_def split: outcome.splits if_splits)
    have "returning_wal (sbind wal_write_header (\<lambda>_. sync_now)) ?l w1 = (r, w')"
      using run op Inr by (simp add: wal_create_def Let_def sbind_def smap_err_def)
    then obtain l' res where m: "sbind wal_write_header (\<lambda>_. sync_now) (?l, w1) = (res :: ('ie, unit) result, (l', w'))"
      by (rule returning_wal_cases) blast
    have node: "wal_node (?l, w1) = resize_inode 0 (nodes w i)" and ino: "wal_ino (?l, w1) = i"
      using w1 by (simp_all add: new_wal_def wal_node_def wal_ino_def)
    have ready: "wal_ready (?l, w1)" and empty: "data (wal_node (?l, w1)) = []"
      using fs_open_rw_effect [OF ok op] Inr by (simp_all add: wal_ready_def new_wal_def wal_node_def wal_ino_def)
    have "partly [] (wal_header @ bs) (wal_node (?l, w1))"
      using partly_resize [OF part] by (simp add: node)
    from header_partly [OF ready empty this m] show ?thesis
      using write_header_sync [OF ready m] w1(3) ino by (auto simp: own_file_def wal_node_def)
  qed
qed

lemma fs_exists_quiet: "fs_exists p w = (b, w') \<Longrightarrow> quiet w w' \<and> (b \<longrightarrow> dirs w p \<or> names w p \<noteq> None)"
  by (cases "draw w")
    (auto simp: fs_exists_def call_def quiet_def draw_frame split: outcome.splits sum.splits prod.splits)

lemma fs_seek_end_ready:
  assumes f: "fs_ok w" and n: "names w (w_path l) = Some (h_ino (w_file l))"
    and run: "on_file fs_seek_end (l, w) = (r, s')"
  shows "quiet w (snd s') \<and> own_file (l, w) s' \<and> wal_node s' = wal_node (l, w) \<and>
    ((\<exists>m. r = Inr m) \<longrightarrow> wal_ready s')"
proof -
  obtain out w1 where d: "draw w = (out, w1)" by (cases "draw w")
  then have q: "quiet w w1" by (rule quiet_draw)
  have "fs_ok w1" using f by (simp add: quietD [OF q])
  then show ?thesis
    using run d q n
    by (auto simp: on_file_def fs_seek_end_def call_def own_file_def wal_ino_def wal_node_def wal_ready_def
        quiet_def split: outcome.splits)
qed

lemma wal_open_for_append_effect:
  assumes ok: "fs_ok w" and run: "wal_open_for_append snapshot policy w = (r :: ('ie, wal) result, w')"
    and now: "content w (wal_path snapshot) = c" and ex: "fs_exists (wal_path snapshot) w = (existed, w0)"
  shows "fs_ok w' \<and> spares (wal_path snapshot) w w' \<and>
    (\<forall>l. r = Inr l \<longrightarrow> opened snapshot policy
       ((case c of None \<Rightarrow> [] | Some bs \<Rightarrow> bs) @ (if existed then [] else wal_header)) l w')"
proof -
  let ?p = "wal_path snapshot"
  have q0: "quiet w w0" using fs_exists_quiet [OF ex] by simp
  obtain rf w1 where op: "fs_open_rw False ?p w0 = (rf, w1)" by (cases "fs_open_rw False ?p w0")
  have ok0: "fs_ok w0" using ok by (simp add: quietD [OF q0])
  note eff = fs_open_rw_effect [OF ok0 op]
  have sp1: "spares ?p w w1" using eff spares_quiet [OF q0] spares_trans by blast
  show ?thesis
  proof (cases rf)
    case (Inl e)
    then show ?thesis
      using run op eff ex sp1 by (auto simp: wal_open_for_append_def Let_def sbind_def smap_err_def)
  next
    case (Inr h)
    let ?l = "new_wal h ?p policy"
    let ?m = "sbind (on_file fs_seek_end) (\<lambda>end_pos.
        if \<not> existed then sbind wal_write_header (\<lambda>_. sync_now) else sret ())"
    have "returning_wal ?m ?l w1 = (r, w')"
      using run op Inr ex by (simp add: wal_open_for_append_def Let_def sbind_def smap_err_def)
    then obtain l' res where m: "?m (?l, w1) = (res :: ('ie, unit) result, (l', w'))"
      and r: "\<forall>x. r = Inr x \<longrightarrow> x = l' \<and> res = Inr ()"
      by (rule returning_wal_cases) blast
    obtain rs s1 where se: "on_file fs_seek_end (?l, w1) = (rs :: ('ie, nat) result, s1)"
      using prod.exhaust by blast
    have "names w1 (w_path ?l) = Some (h_ino (w_file ?l))" using eff Inr by (simp add: new_wal_def)
    note sk = fs_seek_end_ready [OF conjunct1 [OF eff] this se]
    have d1: "data (wal_node s1) = (case c of None \<Rightarrow> [] | Some bs \<Rightarrow> bs)"
      using sk eff Inr now quietD(2) [OF q0, of ?p]
      by (simp add: wal_node_def wal_ino_def new_wal_def)
    have sp2: "spares ?p w (snd s1)" using sp1 sk spares_quiet spares_trans by blast
    have path: "w_path (fst s1) = ?p" "w_policy (fst s1) = policy"
      using sk by (simp_all add: own_file_def new_wal_def)
    have okw: "fs_ok (snd s1)" using sk eff quietD(1) by blast
    show ?thesis
    proof (cases rs)
      case (Inl e)
      then show ?thesis using m se r okw sp2 by (auto simp: sbind_def)
    next
      case (Inr u)
      then have ready: "wal_ready s1" using sk by blast
      show ?thesis
      proof (cases existed)
        case True
        then have "res = Inr ()" "s1 = (l', w')" using m se Inr by (simp_all add: sbind_def)
        then show ?thesis using r okw sp2 ready d1 path True by (auto simp: opened_def)
      next
        case False
        then have m2: "sbind wal_write_header (\<lambda>_. sync_now) s1 = (res, (l', w'))"
          using m se Inr by (simp add: sbind_def)
        note ws = write_header_sync [OF ready m2]
        then have "spares ?p (snd s1) w'" using own_file_spares [of s1 "(l', w')"] ready path by simp
        then have "spares ?p w w'" using sp2 spares_trans by blast
        then show ?thesis
          using ws r d1 path False by (auto simp: opened_def own_file_def wal_ready_def)
      qed
    qed
  qed
qed

subsection \<open>The log never blames the index\<close>

text \<open>No method of the log returns \<open>IndexBuild\<close>, which is reserved for the index's own errors.\<close>

definition no_build :: "('s, 'ie, 'a) prog \<Rightarrow> bool" where
  "no_build m \<longleftrightarrow> (\<forall>s x s'. m s \<noteq> (Inl (IndexBuild x), s'))"

named_theorems blameless \<open>programs that never return \<open>IndexBuild\<close>\<close>

lemma blameless_sbind [blameless]: "no_build m \<Longrightarrow> (\<And>x. no_build (f x)) \<Longrightarrow> no_build (sbind m f)"
  unfolding no_build_def by (blast elim!: sbind_InlE)

lemma blameless_on_file [blameless]: "no_build (on_file m)"
  by (auto simp: no_build_def on_file_def split: prod.splits sum.splits)

lemma blameless_invalid: "invalid_only m \<Longrightarrow> no_build m"
  by (fastforce simp: invalid_only_def no_build_def)

lemma blameless_fill [blameless]: "invalid_only enc \<Longrightarrow> no_build (fill_scratch enc)"
  by (fastforce simp: invalid_only_def no_build_def fill_scratch_def split: prod.splits)

lemma blameless_return [blameless]: "no_build (\<lambda>s. (Inr x, f s))"
  by (simp add: no_build_def)

lemma blameless_sync [blameless]: "no_build sync_now"
  unfolding sync_now_def
  by (intro blameless) (auto simp: no_build_def split: prod.splits)

lemma no_buildD: "no_build m \<Longrightarrow> m s = (Inl (IndexBuild x), s') \<Longrightarrow> False"
  by (simp add: no_build_def)

lemma blameless_maybe_sync [blameless]: "no_build maybe_sync"
  unfolding no_build_def
  by (auto simp: maybe_sync_def Let_def dest: no_buildD [OF blameless_sync]
      split: fsync_policy.splits prod.splits if_splits)

lemma blameless_commit [blameless]: "no_build (commit_record crc)"
proof -
  have len: "no_build (slift (ok_or (InvalidPayload reason) x))" for reason x
    by (intro blameless_invalid invalid)
  have body: "no_build (sbind (slift (ok_or (InvalidPayload reason) x)) (\<lambda>n.
      sbind (on_file (fs_write_all (to_le 4 n @ cs))) (\<lambda>_.
      sbind (on_file (fs_write_all bs)) (\<lambda>_. maybe_sync))))"
    for reason cs bs and x :: "u32 option"
    by (rule blameless_sbind [OF len], rule blameless_sbind [OF blameless_on_file],
      rule blameless_sbind [OF blameless_on_file], rule blameless_maybe_sync)
  show ?thesis
    unfolding no_build_def
  proof (intro allI notI)
    fix s x s'
    assume "commit_record crc s = (Inl (IndexBuild x), s')"
    then show False
      unfolding commit_record_def Let_def by (rule no_buildD [OF body])
  qed
qed

lemma blameless_append: "no_build (append_record crc M r)"
  unfolding append_record_eq by (intro blameless invalid_encode_record)

lemma blameless_mark: "no_build mark"
  unfolding mark_def by (intro blameless)

lemma blameless_rollback: "no_build (rollback m)"
  unfolding rollback_def by (intro blameless)

subsection \<open>When nothing fails\<close>

text \<open>A method that succeeds whenever no call fails, and leaves names and directories alone.\<close>

definition sure :: "('ie, 'a) wal_prog \<Rightarrow> bool" where
  "sure m \<longleftrightarrow> (\<forall>s. calm (snd s) \<longrightarrow>
     (\<exists>x s'. m s = (Inr x, s') \<and> calm (snd s') \<and> in_place (snd s) (snd s')))"

named_theorems surely \<open>methods that succeed when no call fails\<close>

lemma sureE:
  assumes "sure m" and "calm (snd s)"
  obtains x s' where "m s = (Inr x, s')" and "calm (snd s')" and "in_place (snd s) (snd s')"
  using assms unfolding sure_def by blast

lemma sure_sbind [surely]:
  assumes "sure m" and "\<And>x. sure (f x)"
  shows "sure (sbind m f)"
  unfolding sure_def
proof (intro allI impI)
  fix s :: "wal \<times> world"
  assume "calm (snd s)"
  then obtain x s1 where m: "m s = (Inr x, s1)" "calm (snd s1)" "in_place (snd s) (snd s1)" by (rule sureE [OF assms(1)])
  obtain y s2 where "f x s1 = (Inr y, s2)" "calm (snd s2)" "in_place (snd s1) (snd s2)"
    by (rule sureE [OF assms(2) m(2)])
  with m show "\<exists>x s'. sbind m f s = (Inr x, s') \<and> calm (snd s') \<and> in_place (snd s) (snd s')"
    by (simp add: sbind_def in_place_def)
qed

lemma sure_files [surely]:
  "sure (on_file (fs_write_all bs))" "sure (on_file fs_sync_all)" "sure (on_file (fs_set_len n))"
  "sure (on_file (fs_seek_start n))" "sure (on_file fs_seek_end)" "sure (on_file fs_stream_position)"
  by (auto simp: sure_def on_file_def fs_write_all_def fs_sync_all_def fs_set_len_def fs_seek_start_def
      fs_seek_end_def fs_stream_position_def call_def draw_calm Let_def)

lemma calm_instant: "instant_now w = (t, w') \<Longrightarrow> calm w' = calm w \<and> in_place w w'"
  by (auto simp: instant_now_def calm_def in_place_def split: list.splits)

lemma sure_stamp: "sure (\<lambda>s. let (now, w) = instant_now (snd s) in (Inr (), ((fst s)\<lparr>last_fsync := Some now\<rparr>, w)))"
  by (auto simp: sure_def split: prod.splits dest: calm_instant)

lemma sure_sync [surely]: "sure sync_now"
  unfolding sync_now_def by (intro surely sure_stamp)

lemma sure_maybe_sync [surely]: "sure maybe_sync"
  unfolding sure_def
proof (intro allI impI)
  fix s :: "wal \<times> world"
  assume calm: "calm (snd s)"
  obtain now w where now: "instant_now (snd s) = (now, w)" by (cases "instant_now (snd s)")
  then have w: "calm w" "in_place (snd s) w" using calm calm_instant by blast+
  then obtain x s' where "sync_now (fst s, w) = (Inr x :: ('a, unit) result, s')" "calm (snd s')" "in_place w (snd s')"
    using sureE [OF sure_sync, of "(fst s, w)"] by auto
  moreover obtain y s'' where "sync_now s = (Inr y :: ('a, unit) result, s'')" "calm (snd s'')" "in_place (snd s) (snd s'')"
    using sureE [OF sure_sync calm] by blast
  ultimately show "\<exists>x s'. maybe_sync s = (Inr x :: ('a, unit) result, s') \<and> calm (snd s') \<and> in_place (snd s) (snd s')"
    using calm w now
    by (cases "w_policy (fst s)"; cases s'; cases s'') (auto simp: maybe_sync_def Let_def in_place_def)
qed

lemma sure_rest [surely]: "sure wal_write_header" "sure mark"
  unfolding wal_write_header_def mark_def by (intro surely)+

lemma sure_cuts: "sure (rollback n)" "sure wal_reset"
  unfolding rollback_def wal_reset_def by (intro surely)+

lemma append_record_sure:
  assumes "calm (snd s)" and "record_ok M r"
  shows "\<exists>s'. append_record crc M r s = (Inr () :: ('ie, unit) result, s') \<and> calm (snd s') \<and> in_place (snd s) (snd s')"
proof -
  let ?s1 = "((fst s)\<lparr>scratch := record_image M r\<rparr>, snd s)"
  let ?head = "to_le 4 (of_nat (length (record_image M r)) :: u32) @ to_le 4 (compute crc (record_image M r))"
  have len: "length (record_image M r) \<le> U32_MAX" using assms(2) by (simp add: record_ok_def)
  have "sure (sbind (on_file (fs_write_all ?head)) (\<lambda>_.
      sbind (on_file (fs_write_all (record_image M r))) (\<lambda>_. maybe_sync :: ('ie, unit) wal_prog)))"
    by (intro surely)
  then obtain x s' where "sbind (on_file (fs_write_all ?head)) (\<lambda>_.
      sbind (on_file (fs_write_all (record_image M r))) (\<lambda>_. maybe_sync)) ?s1 = (Inr x :: ('ie, unit) result, s')"
    and calm: "calm (snd s')" "in_place (snd s) (snd s')"
    using sureE [of _ ?s1] assms(1) by (metis snd_conv)
  from this(1) have "append_record crc M r s = (Inr () :: ('ie, unit) result, s')"
    by (simp add: append_record_eq sbind_def [of "fill_scratch (encode_record M r)"] fill_scratch_def
        encode_record_ok [OF assms(2)] commit_record_def u32_try_from_def len Let_def)
  with calm show ?thesis by blast
qed

lemma open_for_append_sure:
  assumes "calm w" and "names w (wal_path snapshot) = Some i" and "\<not> dirs w (wal_path snapshot)"
  shows "fs_exists (wal_path snapshot) w = (True, w) \<and>
    (\<exists>l w'. wal_open_for_append snapshot policy w = (Inr l :: ('ie, wal) result, w') \<and> calm w')"
proof -
  have ex: "fs_exists (wal_path snapshot) w = (True, w)"
    using assms by (simp add: fs_exists_def call_def draw_calm)
  let ?l = "new_wal \<lparr>h_ino = i, h_pos = 0\<rparr> (wal_path snapshot) policy"
  have op: "fs_open_rw False (wal_path snapshot) w = (Inr \<lparr>h_ino = i, h_pos = 0\<rparr>, w)"
    using assms by (simp add: fs_open_rw_def call_def draw_calm)
  have "sure (on_file fs_seek_end :: ('ie, nat) wal_prog)" by (intro surely)
  then obtain n s' where "on_file fs_seek_end (?l, w) = (Inr n :: ('ie, nat) result, s')" "calm (snd s')"
    using assms(1) by (metis sureE snd_conv)
  then show ?thesis
    using ex op
    by (cases s')
      (simp add: wal_open_for_append_def Let_def sbind_def smap_err_def returning_wal_def)
qed

subsection \<open>Properties\<close>

definition example_wal :: "fault list \<Rightarrow> bytes \<Rightarrow> wal \<times> world" where
  "example_wal fs bs =
     (new_wal \<lparr>h_ino = 0, h_pos = length bs\<rparr> (wal_path db_path) Always,
      (file_world (wal_path db_path) bs)\<lparr>faults := fs\<rparr>)"

lemma wal_path_db: "wal_path db_path = Path True [''db'', ''index.iqdb.wal'']"
  by (simp add: wal_path_def db_path_def)

lemma fs_ok_faults [simp]: "fs_ok (w\<lparr>faults := fs\<rparr>) = fs_ok w"
  by (simp add: fs_ok_def)

lemma example_wal_world_ok: "fs_ok (file_world (wal_path db_path) bs)"
  by (rule file_world_ok) (simp add: example_world_def wal_path_db)

lemma example_wal_ready: "wal_ready (example_wal fs bs)"
  using example_wal_world_ok
  by (simp add: wal_ready_def example_wal_def new_wal_def wal_ino_def wal_node_def)
    (simp add: file_world_def)

lemma example_wal_content: "content (snd (example_wal fs bs)) (wal_path db_path) = Some bs"
  by (simp add: example_wal_def content_def file_world_def)

lemma advances_content:
  assumes "advances s bs s'" and "wal_ready s"
  shows "\<exists>old. content (snd s) (w_path (fst s)) = Some old \<and> content (snd s') (w_path (fst s)) = Some (old @ bs)"
  using assms
  by (auto simp: advances_def own_file_def wal_ready_def content_def grows_def wal_node_def)

lemma wal_log_snoc: "wal_log crc M (rs @ [r]) = wal_log crc M rs @ frame_image crc (record_image M r)"
  by (simp add: wal_log_def)

text \<open>With no failing call any list of records is appended, and the file is the old one and their frames.\<close>

lemma append_all:
  assumes "calm (snd s)" and "wal_ready s" and "\<forall>r\<in>set rs. record_ok M r"
  shows "\<exists>s'. for_each (append_record crc M) rs s = (Inr () :: ('ie, unit) result, s') \<and> calm (snd s') \<and>
    advances s (record_frames crc M rs) s'"
  using assms
proof (induction rs arbitrary: s)
  case Nil
  then show ?case by (simp add: advances_refl sret_def)
next
  case (Cons r rs)
  obtain s1 where s1: "append_record crc M r s = (Inr () :: ('ie, unit) result, s1)" "calm (snd s1)"
    using append_record_sure [OF Cons.prems(1), of M r, where crc = crc and 'ie = 'ie] Cons.prems(3) by auto
  then have adv: "advances s (frame_image crc (record_image M r)) s1"
    using append_record_effect [OF Cons.prems(2) s1(1)] by auto
  then have "wal_ready s1" by (simp add: advances_def)
  then obtain s' where "for_each (append_record crc M) rs s1 = (Inr () :: ('ie, unit) result, s')" "calm (snd s')"
      "advances s1 (record_frames crc M rs) s'"
    using Cons.IH [OF s1(2)] Cons.prems(3) by auto
  then show ?case using s1(1) advances_trans [OF adv] by (auto simp: sbind_def)
qed

lemma append_all_content:
  assumes "calm (snd s)" and "wal_ready s" and "\<forall>r\<in>set rs. record_ok M r"
    and "content (snd s) (w_path (fst s)) = Some bs"
  shows "\<exists>s'. for_each (append_record crc M) rs s = (Inr () :: ('ie, unit) result, s') \<and>
    content (snd s') (w_path (fst s)) = Some (bs @ record_frames crc M rs)"
proof -
  obtain s' where run: "for_each (append_record crc M) rs s = (Inr () :: ('ie, unit) result, s')"
    and adv: "advances s (record_frames crc M rs) s'"
    using append_all [OF assms(1-3), where crc = crc and 'ie = 'ie] by blast
  have "content (snd s') (w_path (fst s)) = Some (bs @ record_frames crc M rs)"
    using advances_content [OF adv assms(2)] assms(4) by auto
  with run show ?thesis by blast
qed

text \<open>A log with some beginning of one more frame behind it.\<close>

lemma parse_tail:
  assumes "\<forall>r'\<in>set (rs @ [r]). loggable M r'" and "MAX_RECORD_LEN \<le> umax"
    and "length (wal_log crc M (rs @ [r])) \<le> umax"
  shows "parse_records umax crc M (wal_log crc M rs @ take n (frame_image crc (record_image M r))) =
    (if take n (frame_image crc (record_image M r)) = frame_image crc (record_image M r)
     then Inr (rs @ [r]) else Inr rs :: ('ie, 'm wal_record list) result)"
proof (cases "take n (frame_image crc (record_image M r)) = frame_image crc (record_image M r)")
  case True
  then show ?thesis using parse_log [OF assms] by (simp add: wal_log_snoc)
next
  case False
  let ?img = "frame_image crc (record_image M r)"
  have len: "length (wal_log crc M rs @ take n ?img) \<le> umax"
    using assms(3) by (simp add: wal_log_snoc)
  have "n < length ?img" using False by (metis leI take_all)
  then have "next_frame crc (take n ?img) = None"
    using assms(1) by (intro next_frame_torn) (simp_all add: loggable_def MAX_RECORD_LEN_u32)
  then show ?thesis
    using False assms(1) by (simp add: parse_stops [OF _ assms(2) len])
qed

text \<open>
  Appends are all or nothing for recovery.  On a log that holds the mutations \<open>rs\<close>, let
  the append of \<open>r\<close> end any way it can (success, a failing call, a partial write, power
  loss).  The log file then replays as \<open>rs\<close> or as \<open>rs\<close> and \<open>r\<close>, and if the append
  succeeded as the latter; every other file is as it was.
\<close>

theorem append_is_atomic:
  assumes "wal_ready s" and "content (snd s) (w_path (fst s)) = Some (wal_log crc M rs)"
    and "\<forall>r'\<in>set (rs @ [r]). loggable M r'" and "MAX_RECORD_LEN \<le> umax"
    and "length (wal_log crc M (rs @ [r])) \<le> umax"
    and "append_record crc M r s = (res :: ('ie, unit) result, s')"
  shows "(\<exists>bs rs'. content (snd s') (w_path (fst s)) = Some bs \<and>
      parse_records umax crc M bs = (Inr rs' :: ('ie, 'm wal_record list) result) \<and>
      (rs' = rs \<and> res \<noteq> Inr () \<or> rs' = rs @ [r])) \<and>
    spares (w_path (fst s)) (snd s) (snd s')"
proof -
  let ?img = "frame_image crc (record_image M r)"
  obtain n where adv: "advances s (take n ?img) s'" and full: "res = Inr () \<longrightarrow> take n ?img = ?img"
    using append_record_effect [OF assms(1,6)] by blast
  have bs: "content (snd s') (w_path (fst s)) = Some (wal_log crc M rs @ take n ?img)"
    using advances_content [OF adv assms(1)] assms(2) by auto
  note parse = parse_tail [OF assms(3-5), of n, where 'ie = 'ie]
  have "spares (w_path (fst s)) (snd s) (snd s')"
    using adv assms(1) by (intro own_file_spares) (simp_all add: advances_def)
  then show ?thesis using bs parse full by (cases "take n ?img = ?img") auto
qed

theorem append_is_atomic_witness:
  "\<exists>res s' bs rs'. append_record crc32_ieee flag_ops (Delete (U64 7))
      (example_wal [Proceed, PowerLoss 3] (wal_log crc32_ieee flag_ops [example_record])) =
      (res :: (unit, unit) result, s') \<and>
    content (snd s') (wal_path db_path) = Some bs \<and>
    parse_records U32_MAX crc32_ieee flag_ops bs = (Inr rs' :: (unit, bool list wal_record list) result) \<and>
    (rs' = [example_record] \<or> rs' = [example_record, Delete (U64 7)])"
proof -
  let ?s = "example_wal [Proceed, PowerLoss 3] (wal_log crc32_ieee flag_ops [example_record])"
  obtain res s' where run: "append_record crc32_ieee flag_ops (Delete (U64 7)) ?s = (res :: (unit, unit) result, s')"
    using prod.exhaust by blast
  have path: "w_path (fst ?s) = wal_path db_path" by (simp add: example_wal_def new_wal_def)
  have ok: "\<forall>r'\<in>set ([example_record] @ [Delete (U64 7)]). loggable flag_ops r'"
    using example_log_loggable by (simp add: example_log_def)
  have len: "length (wal_log crc32_ieee flag_ops ([example_record] @ [Delete (U64 7)])) \<le> U32_MAX"
    using example_log_length by (simp add: example_log_def wal_log_def)
  show ?thesis
    using append_is_atomic [OF example_wal_ready _ ok MAX_RECORD_LEN_U32 len run, unfolded path,
        OF example_wal_content] run
    by (simp; blast)
qed

text \<open>
  C25. Frame limit.  The appending side accepts any body of up to \<open>u32::MAX\<close> bytes, but
  the scan takes a length above 256 MiB for a torn frame.  With no failing call on a log that
  holds \<open>rs\<close>, the append of a larger mutation (of at most \<open>u32::MAX\<close> bytes) succeeds and
  writes its whole frame, as do the appends behind it; the next recovery then replays
  \<open>rs\<close> alone, neither the large mutation nor anything after it.
\<close>

theorem oversize_frame_ends_log:
  assumes "calm (snd s)" and "wal_ready s"
    and "content (snd s) (w_path (fst s)) = Some (wal_log crc M rs)"
    and "\<forall>r'\<in>set rs. loggable M r'" and "\<forall>r'\<in>set (r # rs'). record_ok M r'"
    and "MAX_RECORD_LEN < length (record_image M r)"
    and "MAX_RECORD_LEN \<le> umax" and "length (wal_log crc M (rs @ r # rs')) \<le> umax"
  shows "\<exists>s'. for_each (append_record crc M) (r # rs') s = (Inr () :: ('ie, unit) result, s') \<and>
    content (snd s') (w_path (fst s)) = Some (wal_log crc M (rs @ r # rs')) \<and>
    parse_records umax crc M (wal_log crc M (rs @ r # rs')) = (Inr rs :: ('ie, 'm wal_record list) result)"
proof -
  have log: "wal_log crc M (rs @ r # rs') = wal_log crc M rs @ record_frames crc M (r # rs')"
    by (simp add: wal_log_def)
  have "next_frame crc (record_frames crc M (r # rs')) = None"
    using assms(5,6) by (simp add: next_frame_oversize record_ok_def)
  then have "parse_records umax crc M (wal_log crc M (rs @ r # rs')) =
      (Inr rs :: ('ie, 'm wal_record list) result)"
    using assms(8) unfolding log by (rule parse_stops [OF assms(4,7), rotated])
  with append_all_content [OF assms(1,2,5,3), where 'ie = 'ie] show ?thesis
    unfolding log by blast
qed

theorem oversize_frame_ends_log_witness:
  "\<exists>s s'. content (snd s) (wal_path db_path) = Some (wal_log crc32_ieee flag_ops [example_record]) \<and>
    for_each (append_record crc32_ieee flag_ops) [big_record, example_record] s =
      (Inr () :: (unit, unit) result, s') \<and>
    content (snd s') (wal_path db_path) =
      Some (wal_log crc32_ieee flag_ops ([example_record] @ [big_record, example_record])) \<and>
    parse_records U32_MAX crc32_ieee flag_ops
      (wal_log crc32_ieee flag_ops ([example_record] @ [big_record, example_record])) =
    (Inr [example_record] :: (unit, bool list wal_record list) result)"
proof -
  let ?s = "example_wal [] (wal_log crc32_ieee flag_ops [example_record])"
  have path: "w_path (fst ?s) = wal_path db_path" by (simp add: example_wal_def new_wal_def)
  have calm: "calm (snd ?s)" by (simp add: example_wal_def calm_def file_world_def example_world_def)
  have rs: "\<forall>r'\<in>set [example_record]. loggable flag_ops r'" using example_record_loggable by simp
  have ok: "\<forall>r'\<in>set [big_record, example_record]. record_ok flag_ops r'"
    by (simp add: record_ok_def big_record_length example_record_length flag_ops_ok U32_MAX_def)
  have big: "MAX_RECORD_LEN < length (record_image flag_ops big_record)"
    unfolding big_record_length by (simp add: MAX_RECORD_LEN_def)
  have len: "length (wal_log crc32_ieee flag_ops ([example_record] @ [big_record, example_record])) \<le> U32_MAX"
    by (simp add: wal_log_def big_record_length example_record_length U32_MAX_def)
  show ?thesis
    using oversize_frame_ends_log [OF calm example_wal_ready _ rs ok big MAX_RECORD_LEN_U32 len,
        unfolded path, OF example_wal_content, where 'ie = unit] example_wal_content [of "[]"]
    by blast
qed

text \<open>
  C23. A torn tail poisons the log it is left in.  Recovery drops a torn frame, but
  \<open>open_for_append\<close> continues behind it.  When the frame's length field is whole, the bytes
  appended from then on are taken for the rest of its body.  With no failing call the open and
  any number of appends succeed, and the next recovery replays none of the mutations appended,
  whether they leave the torn frame incomplete or fill it, except when the checksum in its
  head happens to be the one of the bytes that fill it (\<open>unfilled\<close> excludes that).
\<close>

theorem append_after_torn_tail:
  assumes "fs_ok w" and "calm w"
    and "content w (wal_path snapshot) = Some (wal_log crc M rs @ take k (frame_image crc (record_image M torn)))"
    and "\<forall>r\<in>set rs. loggable M r" and "record_ok M torn" and "\<forall>r\<in>set rs'. record_ok M r"
    and "unfilled crc k (frame_image crc (record_image M torn)) (record_frames crc M rs')"
    and "MAX_RECORD_LEN \<le> umax" and "length (wal_log crc M (rs @ torn # rs')) \<le> umax"
  shows "\<exists>l w1 s2 bs. wal_open_for_append snapshot policy w = (Inr l :: ('ie, wal) result, w1) \<and>
    for_each (append_record crc M) rs' (l, w1) = (Inr () :: ('ie, unit) result, s2) \<and>
    content (snd s2) (wal_path snapshot) = Some bs \<and>
    bs = wal_log crc M rs @ take k (frame_image crc (record_image M torn)) @ record_frames crc M rs' \<and>
    parse_records umax crc M bs = (Inr rs :: ('ie, 'm wal_record list) result)"
proof -
  let ?torn = "take k (frame_image crc (record_image M torn))"
  obtain i where name: "names w (wal_path snapshot) = Some i" and nd: "\<not> dirs w (wal_path snapshot)"
    using assms(3) fs_okD(2) [OF assms(1)] by (auto simp: content_def split: option.splits)
  obtain l w1 where ex: "fs_exists (wal_path snapshot) w = (True, w)"
    and op: "wal_open_for_append snapshot policy w = (Inr l :: ('ie, wal) result, w1)" and calm: "calm w1"
    using open_for_append_sure [OF assms(2) name nd, of policy, where 'ie = 'ie] by blast
  have open': "opened snapshot policy (wal_log crc M rs @ ?torn) l w1"
    using wal_open_for_append_effect [OF assms(1) op assms(3) ex] by simp
  then have ready: "wal_ready (l, w1)" and path: "w_path l = wal_path snapshot" by (simp_all add: opened_def)
  have now: "content w1 (wal_path snapshot) = Some (wal_log crc M rs @ ?torn)"
    using open' ready by (simp add: opened_def wal_ready_def content_def wal_node_def)
  obtain s2 where run: "for_each (append_record crc M) rs' (l, w1) = (Inr () :: ('ie, unit) result, s2)"
    and bs: "content (snd s2) (wal_path snapshot) = Some (wal_log crc M rs @ ?torn @ record_frames crc M rs')"
    using append_all_content [of "(l, w1)" rs' M _ crc, where 'ie = 'ie] calm ready assms(6) now path by auto
  have "next_frame crc (?torn @ record_frames crc M rs') = None"
    using assms(5,7) by (intro next_frame_unfilled) (simp_all add: record_ok_def)
  moreover have "length (wal_log crc M rs @ ?torn @ record_frames crc M rs') \<le> umax"
    using assms(9) by (simp add: wal_log_def)
  ultimately have "parse_records umax crc M (wal_log crc M rs @ ?torn @ record_frames crc M rs') =
      (Inr rs :: ('ie, 'm wal_record list) result)"
    by (intro parse_stops [OF assms(4,8)])
  with op run bs show ?thesis by blast
qed

text \<open>
  The witness tears the frame of a deletion in the middle of its body and appends two more
  deletions, whose frames are of the same size.
\<close>

lemma to_le_eqI:
  "of_le bs = (w :: 'a::len word) \<Longrightarrow> length bs = k \<Longrightarrow> 8 * k = LENGTH('a) \<Longrightarrow> to_le k w = bs"
  using to_le_of_le [of bs k, where 'a = 'a] by simp

lemma example_le:
  "to_le 8 (5::u64) = [5, 0, 0, 0, 0, 0, 0, 0]" "to_le 8 (7::u64) = [7, 0, 0, 0, 0, 0, 0, 0]"
  "to_le 4 (10::u32) = [10, 0, 0, 0]" "to_le 4 (0xEDBAB152::u32) = [0x52, 0xB1, 0xBA, 0xED]"
  by (intro to_le_eqI; simp)+

lemma example_crcs:
  "crc32_ieee [2, 0, 7, 0, 0, 0, 0, 0, 0, 0] = 0xEDBAB152"
  "crc32_ieee [2, 0, 5, 0, 0, 0, 0, 0, 0, 0] = 0xAF9FB62F"
  "crc32_ieee [2, 0, 5, 0, 10, 0, 0, 0, 0x52, 0xB1] \<noteq> 0xAF9FB62F"
  by (simp_all add: crc32_ieee_def crc_byte_unfold crc_step_def bit_0)

lemma example_misread:
  "misread crc32_ieee (take 12 (frame_image crc32_ieee (record_image flag_ops (Delete (U64 5)))) @
    record_frames crc32_ieee flag_ops [Delete (U64 7), Delete (U64 9)])"
proof -
  have image: "record_image flag_ops (Delete (U64 n)) = [2, 0] @ to_le 8 n" for n
    by (simp add: OP_DELETE_def VID_U64_def)
  show ?thesis
    by (simp add: misread_def frame_image_def image example_le example_crcs del: record_image.simps to_le.simps)
qed

theorem append_after_torn_tail_witness:
  "\<exists>w l w1 s2 bs.
    content w (wal_path db_path) = Some (wal_log crc32_ieee flag_ops [example_record] @
      take 12 (frame_image crc32_ieee (record_image flag_ops (Delete (U64 5))))) \<and>
    wal_open_for_append db_path Always w = (Inr l :: (unit, wal) result, w1) \<and>
    for_each (append_record crc32_ieee flag_ops) [Delete (U64 7), Delete (U64 9)] (l, w1) =
      (Inr () :: (unit, unit) result, s2) \<and>
    content (snd s2) (wal_path db_path) = Some bs \<and>
    parse_records U32_MAX crc32_ieee flag_ops bs = (Inr [example_record] :: (unit, bool list wal_record list) result)"
proof -
  let ?torn = "Delete (U64 5) :: bool list wal_record" and ?new = "[Delete (U64 7), Delete (U64 9)] :: bool list wal_record list"
  let ?bs = "wal_log crc32_ieee flag_ops [example_record] @
      take 12 (frame_image crc32_ieee (record_image flag_ops ?torn))"
  let ?w = "file_world (wal_path db_path) ?bs"
  have calm: "calm ?w" by (simp add: calm_def file_world_def example_world_def)
  have rs: "\<forall>r\<in>set [example_record]. loggable flag_ops r" using example_record_loggable by simp
  have torn: "record_ok flag_ops ?torn" and new: "\<forall>r\<in>set ?new. record_ok flag_ops r"
    by (simp_all add: record_ok_def flag_ops_ok U32_MAX_def)
  have gap: "unfilled crc32_ieee 12 (frame_image crc32_ieee (record_image flag_ops ?torn))
      (record_frames crc32_ieee flag_ops ?new)"
    using example_misread by (simp add: unfilled_def)
  have len: "length (wal_log crc32_ieee flag_ops ([example_record] @ ?torn # ?new)) \<le> U32_MAX"
    by (simp add: wal_log_def example_record_length U32_MAX_def)
  show ?thesis
    using append_after_torn_tail [OF example_wal_world_ok calm file_world_content rs torn new gap
        MAX_RECORD_LEN_U32 len, of Always, where 'ie = unit] file_world_content
    by blast
qed

text \<open>
  C24. An empty log file, which is what a crash between creating the log and writing its
  header leaves, is taken for a log with a header.  Recovery accepts it, appends succeed, and
  the first of them makes every later recovery fail with \<open>BadMagic\<close>.
\<close>

theorem append_to_empty_log:
  assumes "fs_ok w" and "content w (wal_path snapshot) = Some []"
    and "fs_exists (wal_path snapshot) w = (True, w0)"
    and "wal_open_for_append snapshot policy w = (Inr l :: ('ie, wal) result, w1)"
    and "append_record crc M r (l, w1) = (Inr () :: ('ie, unit) result, (l', w2))"
    and "length (record_image M r) \<le> MAX_RECORD_LEN" and "4 \<le> length (record_image M r)"
  shows "parse_records umax crc M [] = (Inr [] :: ('ie, 'm wal_record list) result) \<and>
    (\<exists>bs found. content w2 (wal_path snapshot) = Some bs \<and>
      parse_records umax crc M bs = (Inl (BadMagic found) :: ('ie, 'm wal_record list) result))"
proof -
  let ?new = "frame_image crc (record_image M r)"
  have open': "opened snapshot policy [] l w1"
    using wal_open_for_append_effect [OF assms(1,4,2,3)] by simp
  then have ready: "wal_ready (l, w1)" by (simp add: opened_def)
  have now: "content w1 (wal_path snapshot) = Some []"
    using open' by (auto simp: opened_def wal_ready_def content_def wal_node_def)
  have "advances (l, w1) ?new (l', w2)"
    using append_record_effect [OF ready assms(5)] by auto
  from advances_content [OF this ready]
  have bs: "content w2 (wal_path snapshot) = Some ?new"
    using now open' by (auto simp: opened_def)
  have "take 4 ?new = to_le 4 (of_nat (length (record_image M r)) :: u32)"
    by (simp add: frame_image_def del: to_le.simps)
  then have "unat (of_le (take 4 ?new) :: u32) = length (record_image M r)"
    using assms(6) by (simp add: unat_of_nat_u32 MAX_RECORD_LEN_u32 del: to_le.simps)
  moreover have "unat (of_le (take 4 WAL_MAGIC) :: u32) > MAX_RECORD_LEN"
    by (simp add: WAL_MAGIC_def ascii_def MAX_RECORD_LEN_def)
  ultimately have "take 4 ?new \<noteq> take 4 WAL_MAGIC"
    using assms(6) by auto
  then have "take 8 ?new \<noteq> WAL_MAGIC"
    by (metis take_take min.absorb1 numeral_le_iff semiring_norm(68,69,70,71,72,73,74,75,76,77,78))
  then show ?thesis
    using bs assms(7) by (simp add: parse_records_def)
qed

theorem append_to_empty_log_witness:
  "\<exists>w l w1 l' w2 bs found. content w (wal_path db_path) = Some [] \<and>
    wal_open_for_append db_path Always w = (Inr l :: (unit, wal) result, w1) \<and>
    append_record crc32_ieee flag_ops (Delete (U64 7)) (l, w1) = (Inr () :: (unit, unit) result, (l', w2)) \<and>
    content w2 (wal_path db_path) = Some bs \<and>
    parse_records U32_MAX crc32_ieee flag_ops bs = (Inl (BadMagic found) :: (unit, bool list wal_record list) result)"
proof -
  let ?w = "file_world (wal_path db_path) []"
  have calm: "calm ?w" and name: "names ?w (wal_path db_path) = Some 0" and nd: "\<not> dirs ?w (wal_path db_path)"
    by (simp_all add: calm_def file_world_def example_world_def wal_path_db)
  obtain l w1 where ex: "fs_exists (wal_path db_path) ?w = (True, ?w)"
    and op: "wal_open_for_append db_path Always ?w = (Inr l :: (unit, wal) result, w1)" and calm1: "calm w1"
    using open_for_append_sure [OF calm name nd, of Always, where 'ie = unit] by blast
  have ok: "record_ok flag_ops (Delete (U64 7))"
    unfolding record_ok_def by (rule conjI [OF flag_ops_ok]) (simp add: U32_MAX_def)
  obtain s' where "append_record crc32_ieee flag_ops (Delete (U64 7)) (l, w1) = (Inr () :: (unit, unit) result, s')"
    using append_record_sure [OF _ ok, where s = "(l, w1)" and crc = crc32_ieee and 'ie = unit] calm1
    by (metis snd_conv)
  then obtain l' w2 where app: "append_record crc32_ieee flag_ops (Delete (U64 7)) (l, w1) =
      (Inr () :: (unit, unit) result, (l', w2))" by (cases s') auto
  show ?thesis
    using append_to_empty_log [OF example_wal_world_ok file_world_content ex op app, of U32_MAX]
      op app file_world_content
    by (fastforce simp: MAX_RECORD_LEN_def)
qed

end
