(* ===== verification/Index_Ops.thy ===== *)
theory Index_Ops
  imports Format
begin

section \<open>The wrapped index (\<open>Persistable\<close> in \<open>src/lib.rs\<close>)\<close>

text \<open>
  The operations of the wrapped index that the crate calls, as the record \<open>index_ops\<close>:
  \<open>IndexCore\<close> and \<open>Index\<close> are another crate's traits, \<open>Persistable\<close> is declared in
  \<open>src/lib.rs\<close>.  The index is the state of its own operations.  What the crate relies on is
  the locale \<open>persistable\<close>: the payload written by \<open>save_to\<close> is read back by \<open>load_from\<close> as
  the same index, on indices that satisfy the implementation's own invariant \<open>wf\<close>, and a
  refused mutation changes nothing.
\<close>

record ('i, 'm, 'ie) index_ops =
  ix_insert :: "vector_id \<Rightarrow> f32 list \<Rightarrow> 'm option \<Rightarrow> 'i \<Rightarrow> ('ie + unit) \<times> 'i"
  ix_delete :: "vector_id \<Rightarrow> 'i \<Rightarrow> ('ie + unit) \<times> 'i"
  ix_len :: "'i \<Rightarrow> nat"
  ix_dim :: "'i \<Rightarrow> nat"
  ix_metric :: "'i \<Rightarrow> distance_metric"
  INDEX_TYPE :: bytes
  save_to :: "'i \<Rightarrow> writer \<Rightarrow> ('ie persist_error + unit) \<times> writer"
  load_from :: "reader \<Rightarrow> ('ie persist_error + 'i) \<times> reader"

text \<open>The index type is a short UTF-8 tag; the sizes of the index fit the host.\<close>

definition header_fits :: "nat \<Rightarrow> ('i, 'm, 'ie) index_ops \<Rightarrow> 'i \<Rightarrow> bool" where
  "header_fits umax IX i \<longleftrightarrow>
     utf8_valid (INDEX_TYPE IX) \<and> length (INDEX_TYPE IX) \<le> min MAX_INDEX_TYPE_LEN umax \<and>
     umax \<le> U64_MAX \<and> ix_dim IX i \<le> umax \<and> ix_len IX i \<le> umax \<and> metric_tag (ix_metric IX i) \<noteq> None"

locale persistable =
  fixes IX :: "('i, 'm, 'ie) index_ops"
    and wf :: "'i \<Rightarrow> bool"
    and payload :: "'i \<Rightarrow> bytes"
    and umax :: nat
  assumes fits: "wf i \<Longrightarrow> header_fits umax IX i \<and> length (payload i) \<le> umax"
    and saves: "wf i \<Longrightarrow> save_to IX i (vec_writer buf) = (Inr (), vec_writer (buf @ payload i))"
    and loads: "wf i \<Longrightarrow> fst (load_from IX (cursor_new (payload i))) = Inr i"
    and insert_refused: "ix_insert IX vid v m i = (Inl e, i') \<Longrightarrow> i' = i"
    and delete_refused: "ix_delete IX vid i = (Inl e, i') \<Longrightarrow> i' = i"

end
