(* ===== verification/Recovery.thy ===== *)
theory Recovery
  imports Wal_Log Index_Ops
begin

section \<open>Replay (\<open>src/recovery.rs\<close>)\<close>

text \<open>
  \<open>replay\<close> reads the log beside a snapshot and applies it to the index.  \<open>accepts\<close> is what
  a log means to an index: its mutations, in order, each of the right dimension and each
  accepted, lead from one index to another; \<open>replay_loop_accepts\<close> says the loop computes it.
\<close>

definition map_iqdb_prog :: "('i \<Rightarrow> ('ie + unit) \<times> 'i) \<Rightarrow> ('i, 'ie, unit) prog" where
  "map_iqdb_prog f i = (let (r, i') = f i in (map_iqdb r, i'))"

text \<open>The body of the loop of \<open>replay\<close>, then the loop.\<close>

fun replay_one :: "('i, 'm, 'ie) index_ops \<Rightarrow> 'm wal_record \<Rightarrow> ('i, 'ie, unit) prog" where
  "replay_one IX (Insert vid vector meta) i =
     (if length vector \<noteq> ix_dim IX i
      then (Inl (InvalidPayload ''WAL insert vector dimension disagrees with the index''), i)
      else map_iqdb_prog (ix_insert IX vid vector meta) i)"
| "replay_one IX (Delete vid) i = map_iqdb_prog (ix_delete IX vid) i"

fun replay_loop :: "('i, 'm, 'ie) index_ops \<Rightarrow> 'm wal_record list \<Rightarrow> nat \<Rightarrow> ('i, 'ie, nat) prog" where
  "replay_loop IX [] applied = sret applied"
| "replay_loop IX (r # rs) applied = sbind (replay_one IX r) (\<lambda>_. replay_loop IX rs (applied + 1))"

definition replay ::
  "nat \<Rightarrow> (bytes \<Rightarrow> u32) \<Rightarrow> 'm metadata_ops \<Rightarrow> ('i, 'm, 'ie) index_ops \<Rightarrow> path \<Rightarrow> ('i \<times> world, 'ie, nat) prog" where
  "replay umax crc M IX snapshot s =
     (let p = wal_path snapshot in
      case fs_read p (snd s) of
        (Inl e, w) \<Rightarrow>
          if io_error_kind e = NotFound then (Inr 0, (fst s, w)) else (Inl (Io p e), (fst s, w))
      | (Inr bytes, w) \<Rightarrow>
          (case parse_records umax crc M bytes of
             Inl e \<Rightarrow> (Inl e, (fst s, w))
           | Inr records \<Rightarrow> let (r, i) = replay_loop IX records 0 (fst s) in (r, (i, w))))"

subsection \<open>What a log means\<close>

text \<open>Applying mutations in order, as long as each is accepted.\<close>

fun apply_record :: "('i, 'm, 'ie) index_ops \<Rightarrow> 'm wal_record \<Rightarrow> 'i \<Rightarrow> ('ie + unit) \<times> 'i" where
  "apply_record IX (Insert vid v meta) i = ix_insert IX vid v meta i"
| "apply_record IX (Delete vid) i = ix_delete IX vid i"

fun right_dim :: "('i, 'm, 'ie) index_ops \<Rightarrow> 'm wal_record \<Rightarrow> 'i \<Rightarrow> bool" where
  "right_dim IX (Insert vid v meta) i \<longleftrightarrow> length v = ix_dim IX i"
| "right_dim IX (Delete vid) i \<longleftrightarrow> True"

fun accepts :: "('i, 'm, 'ie) index_ops \<Rightarrow> 'i \<Rightarrow> 'm wal_record list \<Rightarrow> 'i \<Rightarrow> bool" where
  "accepts IX i [] j \<longleftrightarrow> j = i"
| "accepts IX i (r # rs) j \<longleftrightarrow>
     right_dim IX r i \<and> fst (apply_record IX r i) = Inr () \<and> accepts IX (snd (apply_record IX r i)) rs j"

lemma replay_one_ok:
  "replay_one IX r i = (Inr (), i') \<longleftrightarrow>
     right_dim IX r i \<and> fst (apply_record IX r i) = Inr () \<and> i' = snd (apply_record IX r i)"
  by (cases r) (auto simp: map_iqdb_prog_def map_iqdb_def split: prod.splits sum.splits)

lemma replay_loop_accepts:
  "replay_loop IX rs k i = (Inr n, j) \<longleftrightarrow> accepts IX i rs j \<and> n = k + length rs"
  by (induction rs arbitrary: k i) (auto simp: sbind_Inr_iff replay_one_ok)

lemma accepts_append: "accepts IX i (rs @ rs') j \<longleftrightarrow> (\<exists>k. accepts IX i rs k \<and> accepts IX k rs' j)"
  by (induction rs arbitrary: i) auto

lemma accepts_fun: "accepts IX i rs j \<Longrightarrow> accepts IX i rs k \<Longrightarrow> j = k"
  by (induction rs arbitrary: i) auto

lemma replay_effect:
  assumes "replay umax crc M IX snapshot (i, w) = (r, (j, w'))"
  shows "quiet w w'"
  using assms fs_read_cases(1) [of "wal_path snapshot" w]
  by (auto simp: replay_def Let_def split: prod.splits sum.splits if_splits)

lemma fs_read_content:
  assumes "draw w = (Runs, w')" and "fs_ok w" and "content w p = Some bs"
  shows "fs_read p w = (Inr bs, w')"
proof -
  have "\<not> dirs w p" using assms(2,3) fs_okD(2) by (auto simp: content_def)
  then show ?thesis
    using assms quietD(2) [OF quiet_draw [OF assms(1)]] draw_frame(4) [OF assms(1)]
    by (simp add: fs_read_def call_def)
qed

lemma fs_read_Inr: "fs_read p w = (Inr bs, w') \<Longrightarrow> content w p = Some bs"
  by (drule fs_read_cases(2)) simp_all

subsection \<open>Properties\<close>

text \<open>
  The state behind a number of records, whatever they return; whether the record at a
  position is accepted in the state its predecessors leave; and what refusing a record yields,
  the error of the program and the index the refusing call leaves.
\<close>

definition applied_all :: "('i, 'm, 'ie) index_ops \<Rightarrow> 'm wal_record list \<Rightarrow> 'i \<Rightarrow> 'i" where
  "applied_all IX rs i = fold (\<lambda>r i. snd (apply_record IX r i)) rs i"

definition refused_at :: "('i, 'm, 'ie) index_ops \<Rightarrow> 'm wal_record list \<Rightarrow> 'i \<Rightarrow> nat \<Rightarrow> bool" where
  "refused_at IX rs i k \<longleftrightarrow>
     (let j = applied_all IX (take k rs) i
      in \<not> right_dim IX (rs ! k) j \<or> fst (apply_record IX (rs ! k) j) \<noteq> Inr ())"

definition refusal :: "('i, 'm, 'ie) index_ops \<Rightarrow> 'm wal_record \<Rightarrow> 'i \<Rightarrow> 'ie persist_error \<times> 'i" where
  "refusal IX r j =
     (if \<not> right_dim IX r j
      then (InvalidPayload ''WAL insert vector dimension disagrees with the index'', j)
      else (case apply_record IX r j of (res, j') \<Rightarrow> (IndexBuild (projl res), j')))"

lemma replay_one_refused:
  assumes "\<not> (right_dim IX r i \<and> fst (apply_record IX r i) = Inr ())"
  shows "replay_one IX r i = (Inl (fst (refusal IX r i)), snd (refusal IX r i))"
  using assms
  by (cases r) (auto simp: refusal_def map_iqdb_prog_def map_iqdb_def from_iqdb_def split: prod.splits sum.splits)

lemma refused_at_Cons:
  "refused_at IX (r # rs) i 0 \<longleftrightarrow> \<not> (right_dim IX r i \<and> fst (apply_record IX r i) = Inr ())"
  "refused_at IX (r # rs) i (Suc k) \<longleftrightarrow> refused_at IX rs (snd (apply_record IX r i)) k"
  by (simp_all add: refused_at_def applied_all_def Let_def)

lemma refused_positions:
  "filter (refused_at IX (r # rs) i) [0..<length (r # rs)] =
     (if right_dim IX r i \<and> fst (apply_record IX r i) = Inr () then [] else [0]) @
     map Suc (filter (refused_at IX rs (snd (apply_record IX r i))) [0..<length rs])"
proof -
  have "[0..<length (r # rs)] = 0 # map Suc [0..<length rs]"
    by (simp add: map_Suc_upt upt_conv_Cons del: upt_Suc)
  then show ?thesis by (simp add: refused_at_Cons filter_map comp_def del: upt_Suc)
qed

lemma replay_loop_fold:
  "replay_loop IX rs n i =
    (case filter (refused_at IX rs i) [0..<length rs] of
       [] \<Rightarrow> (Inr (n + length rs), applied_all IX rs i)
     | k # _ \<Rightarrow> (case refusal IX (rs ! k) (applied_all IX (take k rs) i) of (e, j) \<Rightarrow> (Inl e, j)))"
proof (induction rs arbitrary: n i)
  case Nil
  then show ?case by (simp add: sret_def applied_all_def)
next
  case (Cons r rs)
  let ?i = "snd (apply_record IX r i)"
  show ?case
  proof (cases "right_dim IX r i \<and> fst (apply_record IX r i) = Inr ()")
    case True
    then have "replay_one IX r i = (Inr (), ?i)" by (simp add: replay_one_ok)
    then have "replay_loop IX (r # rs) n i = replay_loop IX rs (n + 1) ?i" by (simp add: sbind_def)
    then show ?thesis
      unfolding refused_positions Cons.IH using True by (simp add: applied_all_def split: list.split)
  next
    case False
    have pos: "filter (refused_at IX (r # rs) i) [0..<length (r # rs)] =
        0 # map Suc (filter (refused_at IX rs ?i) [0..<length rs])"
      unfolding refused_positions by (simp only: False if_False append_Cons append_Nil)
    show ?thesis
      unfolding pos by (simp add: sbind_def replay_one_refused [OF False] applied_all_def split: prod.split)
  qed
qed

text \<open>
  C10. Replay is the fold of its mutations, and stops at the first one refused.  Apply the
  mutations one after the other and look at the positions whose mutation has another dimension
  than the index or is refused by it.  If there is none, the loop returns the number of
  mutations, and the index is the fold.  Otherwise it fails at the first of them, with
  \<open>InvalidPayload\<close> when the dimension disagrees and with the wrapped error of the index when
  the index refuses, and it leaves the index as the refusing call left it.
\<close>

theorem replay_is_fold:
  "replay_loop IX rs 0 i =
    (case filter (refused_at IX rs i) [0..<length rs] of
       [] \<Rightarrow> (Inr (length rs), fold (\<lambda>r i. snd (apply_record IX r i)) rs i)
     | k # _ \<Rightarrow>
        (let j = fold (\<lambda>r i. snd (apply_record IX r i)) (take k rs) i
         in if \<not> right_dim IX (rs ! k) j
            then (Inl (InvalidPayload ''WAL insert vector dimension disagrees with the index''), j)
            else (Inl (IndexBuild (projl (fst (apply_record IX (rs ! k) j)))), snd (apply_record IX (rs ! k) j))))"
  by (simp add: replay_loop_fold refusal_def applied_all_def Let_def split: list.split prod.split)

lemma frames_bound: "8 * length (frames crc bs) \<le> length bs"
proof (induction crc bs rule: frames.induct)
  case (1 crc bs)
  show ?case
  proof (cases "next_frame crc bs")
    case None
    then show ?thesis by (simp add: frames.simps)
  next
    case (Some x)
    obtain body rest where x: "x = (body, rest)" by (cases x)
    then have "8 * length (frames crc rest) \<le> length rest" using 1 Some by simp
    moreover have "length rest + 8 \<le> length bs"
      using Some x by (auto simp: next_frame_def Let_def split: if_splits)
    ultimately show ?thesis by (simp add: frames.simps [of crc bs] Some x)
  qed
qed

lemma decode_all_length: "decode_all umax M bodies = Inr rs \<Longrightarrow> length rs = length bodies"
  by (induction bodies arbitrary: rs) (auto simp: rbind_Inr_iff)

text \<open>
  C40. Recovery is bounded by the file.  However the length fields of a log are forged, the scan
  ends, and it yields at most one mutation for every eight bytes behind the header.
\<close>

theorem scan_bounded:
  assumes "parse_records umax crc M bytes = (Inr rs :: ('ie, 'm wal_record list) result)" and "length bytes \<le> umax"
  shows "8 * length rs + 12 \<le> length bytes \<or> rs = []"
proof (cases "length bytes < 12")
  case True
  then show ?thesis using assms(1) by (simp add: parse_records_def)
next
  case False
  have "take 8 bytes = WAL_MAGIC" and "u32_at bytes 8 = WAL_VERSION"
    using assms(1) False by (auto simp: parse_records_def Let_def split: if_splits)
  then have bytes: "bytes = wal_header @ drop 12 bytes" using False by (intro u32_at_version) simp_all
  have "parse_records umax crc M bytes = (decode_all umax M (frames crc (drop 12 bytes)) :: ('ie, 'm wal_record list) result)"
    using assms(2) False by (subst bytes) (simp add: parse_records_log)
  then have "(decode_all umax M (frames crc (drop 12 bytes)) :: ('ie, 'm wal_record list) result) = Inr rs"
    using assms(1) by simp
  from decode_all_length [OF this] frames_bound [of crc "drop 12 bytes"]
  have "8 * length rs \<le> length bytes - 12" by simp
  with False have "8 * length rs + 12 \<le> length bytes" by arith
  then show ?thesis ..
qed

theorem scan_bounded_witness:
  "8 * length example_log + 12 \<le> length (wal_log crc32_ieee flag_ops example_log) \<or> example_log = []"
  by (rule scan_bounded [OF parse_log [OF example_log_loggable MAX_RECORD_LEN_U32 example_log_length] example_log_length])

end
