(* ===== verification/Persisted.thy ===== *)
theory Persisted
  imports Recovery Storage Compression
begin

section \<open>The persisted index (\<open>src/persisted.rs\<close>)\<close>

text \<open>
  \<open>PersistedIndex\<close> with its snapshot writer and reader, the WAL-mode mutations and the
  checkpoint.  The parameters of the program (the host, the codecs, the checksum, the
  metadata and the wrapped index) are the record \<open>env\<close>.  \<open>&self\<close> methods run on the world,
  \<open>&mut self\<close> methods on the pair of the wrapper and the world.
\<close>

record ('i, 'm, 'ie) env =
  host_umax :: nat
  codecs :: codec
  crc_hash :: "bytes \<Rightarrow> u32"
  metadata :: "'m metadata_ops"
  index :: "('i, 'm, 'ie) index_ops"

record ('i, 'ie) persisted =
  inner :: 'i
  config :: persist_config
  storage_of :: "'ie storage"
  wal_of :: "wal option"

definition validate_config :: "codec \<Rightarrow> persist_config \<Rightarrow> ('ie, unit) result" where
  "validate_config C cfg =
     (case cfg_compression cfg of
        NoCompression \<Rightarrow> Inr ()
      | Zstd level \<Rightarrow>
          if zstd_feature C then Inr ()
          else Inl (Unsupported ''Zstd compression'' ''the `zstd` cargo feature'')
      | Lz4 \<Rightarrow>
          if lz4_feature C then Inr ()
          else Inl (Unsupported ''LZ4 compression'' ''the `lz4` cargo feature''))"

subsection \<open>Writing a snapshot\<close>

text \<open>The bytes of a snapshot file, then \<open>write_snapshot\<close>.\<close>

definition snapshot_image ::
  "('i, 'm, 'ie) env \<Rightarrow> ('i, 'ie) persisted \<Rightarrow> ('ie, bytes) result" where
  "snapshot_image E this =
     (let (saved, w) = save_to (index E) (inner this) (vec_writer []); payload_buf = wbuf w in
      rbind saved (\<lambda>_.
      let scheme = cfg_compression (config this) in
      rbind (encode (codecs E) scheme payload_buf) (\<lambda>data.
      rbind (ok_or (InvalidPayload ''payload length does not fit in u64'')
                   (u64_try_from (length payload_buf))) (\<lambda>uncompressed_len.
      let region = scheme_tag scheme # to_le 8 uncompressed_len @ data;
          header = \<lparr>fh_magic = MAGIC, fh_version = CURRENT_VERSION,
            fh_index_type = INDEX_TYPE (index E), fh_dim = ix_dim (index E) (inner this),
            fh_metric = ix_metric (index E) (inner this), fh_n_vectors = ix_len (index E) (inner this),
            fh_crc32 = compute (crc_hash E) region\<rparr>;
          (written, full) = write_header header (vec_writer [])
      in rbind written (\<lambda>_. Inr (wbuf full @ region))))))"

definition write_snapshot ::
  "('i, 'm, 'ie) env \<Rightarrow> ('i, 'ie) persisted \<Rightarrow> (world, 'ie, unit) prog" where
  "write_snapshot E this =
     sbind (slift (snapshot_image E this)) (\<lambda>full.
       write_atomic (storage_of this) (cfg_path (config this)) full (cfg_fsync_policy (config this)))"

definition save :: "('i, 'm, 'ie) env \<Rightarrow> ('i, 'ie) persisted \<Rightarrow> (world, 'ie, unit) prog" where
  "save E this = write_snapshot E this"

subsection \<open>Reading a snapshot\<close>

text \<open>The payload region of a version-2 file.\<close>

definition decode_region :: "nat \<Rightarrow> codec \<Rightarrow> bytes \<Rightarrow> ('ie, bytes) result" where
  "decode_region umax C payload =
     (if length payload < 9 then Inl (TruncatedPayload 9 (of_nat (length payload)))
      else
        let tag = payload ! 0; len_bytes = take 8 (drop 1 payload) in
        rbind (ok_or (InvalidPayload ''uncompressed length does not fit in usize on this host'')
                     (usize_try_from umax (of_le len_bytes))) (\<lambda>uncompressed_len.
        decode umax C tag (drop 9 payload) uncompressed_len))"

text \<open>What \<open>load\<close> makes of the bytes of the file.\<close>

definition decode_snapshot :: "('i, 'm, 'ie) env \<Rightarrow> bytes \<Rightarrow> ('ie, 'i) result" where
  "decode_snapshot E bytes =
     (let (read, cursor) = read_header (host_umax E) (cursor_new bytes) in
      rbind read (\<lambda>header.
      let header_end = rpos cursor in
      if header_end > length bytes then Inl (TruncatedHeader header_end (length bytes))
      else if fh_index_type header \<noteq> INDEX_TYPE (index E)
      then Inl (InvalidIndexType (fh_index_type header) (INDEX_TYPE (index E)))
      else
        let payload = drop header_end bytes in
        rbind (verify (crc_hash E) payload (fh_crc32 header)) (\<lambda>_.
        rbind (if 2 \<le> fh_version header then decode_region (host_umax E) (codecs E) payload
               else Inr payload) (\<lambda>raw.
        rbind (fst (load_from (index E) (cursor_new raw))) (\<lambda>i.
        if ix_dim (index E) i \<noteq> fh_dim header
        then Inl (InvalidPayload ''header dim disagrees with payload-reconstructed index'')
        else if ix_metric (index E) i \<noteq> fh_metric header
        then Inl (InvalidPayload ''header metric disagrees with payload-reconstructed index'')
        else if ix_len (index E) i \<noteq> fh_n_vectors header
        then Inl (InvalidPayload ''header n_vectors disagrees with payload-reconstructed index'')
        else Inr i)))))"

subsection \<open>Opening and loading\<close>

definition open_with_storage ::
  "('i, 'm, 'ie) env \<Rightarrow> 'i \<Rightarrow> persist_config \<Rightarrow> 'ie storage \<Rightarrow> (world, 'ie, ('i, 'ie) persisted) prog" where
  "open_with_storage E i cfg S =
     sbind (slift (validate_config (codecs E) cfg)) (\<lambda>_.
     let this = \<lparr>inner = i, config = cfg, storage_of = S, wal_of = None\<rparr> in
     if wal_enabled cfg then
       sbind (write_snapshot E this) (\<lambda>_.
       sbind (wal_create (cfg_path cfg) (cfg_fsync_policy cfg)) (\<lambda>wal.
       sret (this\<lparr>wal_of := Some wal\<rparr>)))
     else sret this)"

definition open_with ::
  "('i, 'm, 'ie) env \<Rightarrow> 'i \<Rightarrow> persist_config \<Rightarrow> (world, 'ie, ('i, 'ie) persisted) prog" where
  "open_with E i cfg = open_with_storage E i cfg std_fs_storage"

definition load_with_storage ::
  "('i, 'm, 'ie) env \<Rightarrow> persist_config \<Rightarrow> 'ie storage \<Rightarrow> (world, 'ie, ('i, 'ie) persisted) prog" where
  "load_with_storage E cfg S =
     sbind (slift (validate_config (codecs E) cfg)) (\<lambda>_.
     sbind (read_all S (cfg_path cfg)) (\<lambda>bytes.
     sbind (slift (decode_snapshot E bytes)) (\<lambda>i.
     let this = \<lparr>inner = i, config = cfg, storage_of = S, wal_of = None\<rparr> in
     if wal_enabled cfg then
       (\<lambda>w. let (r, (i', w')) =
                replay (host_umax E) (crc_hash E) (metadata E) (index E) (cfg_path cfg) (i, w)
            in sbind (slift r) (\<lambda>applied.
               sbind (wal_open_for_append (cfg_path cfg) (cfg_fsync_policy cfg)) (\<lambda>wal.
               sret (this\<lparr>inner := i', wal_of := Some wal\<rparr>))) w')
     else sret this)))"

definition load ::
  "('i, 'm, 'ie) env \<Rightarrow> persist_config \<Rightarrow> (world, 'ie, ('i, 'ie) persisted) prog" where
  "load E cfg = load_with_storage E cfg std_fs_storage"

subsection \<open>Mutations\<close>

type_synonym ('i, 'ie, 'a) wrapper_prog = "(('i, 'ie) persisted \<times> world, 'ie, 'a) prog"

text \<open>
  The shape \<open>insert\<close> and \<open>delete\<close> share: with a log, mark, append, apply, and roll back if
  the index refuses; without one, apply.
\<close>

definition log_then_apply ::
  "('ie, unit) wal_prog \<Rightarrow> ('i \<Rightarrow> ('ie + unit) \<times> 'i) \<Rightarrow> ('i, 'ie, unit) wrapper_prog" where
  "log_then_apply log_op apply_op s =
     (let this = fst s in
      case wal_of this of
        None \<Rightarrow> (let (r, i) = apply_op (inner this) in (map_iqdb r, (this\<lparr>inner := i\<rparr>, snd s)))
      | Some l \<Rightarrow>
          (case mark (l, snd s) of
             (Inl e, (l, w)) \<Rightarrow> (Inl e, (this\<lparr>wal_of := Some l\<rparr>, w))
           | (Inr m, lw) \<Rightarrow>
               (case log_op lw of
                  (Inl e, (l, w)) \<Rightarrow> (Inl e, (this\<lparr>wal_of := Some l\<rparr>, w))
                | (Inr _, (l, w)) \<Rightarrow>
                    (case apply_op (inner this) of
                       (Inr _, i) \<Rightarrow> (Inr (), (this\<lparr>inner := i, wal_of := Some l\<rparr>, w))
                     | (Inl e, i) \<Rightarrow>
                         (case rollback m (l, w) of
                            (Inl e', (l, w)) \<Rightarrow> (Inl e', (this\<lparr>inner := i, wal_of := Some l\<rparr>, w))
                          | (Inr _, (l, w)) \<Rightarrow>
                              (Inl (from_iqdb e), (this\<lparr>inner := i, wal_of := Some l\<rparr>, w)))))))"

definition insert_vector ::
  "('i, 'm, 'ie) env \<Rightarrow> vector_id \<Rightarrow> f32 list \<Rightarrow> 'm option \<Rightarrow> ('i, 'ie, unit) wrapper_prog" where
  "insert_vector E vid vector meta =
     log_then_apply (append_insert (crc_hash E) (metadata E) vid vector meta)
       (ix_insert (index E) vid vector meta)"

definition delete_vector :: "('i, 'm, 'ie) env \<Rightarrow> vector_id \<Rightarrow> ('i, 'ie, unit) wrapper_prog" where
  "delete_vector E vid =
     log_then_apply (append_delete (crc_hash E) vid) (ix_delete (index E) vid)"

definition checkpoint :: "('i, 'm, 'ie) env \<Rightarrow> ('i, 'ie, unit) wrapper_prog" where
  "checkpoint E s =
     (case write_snapshot E (fst s) (snd s) of
        (Inl e, w) \<Rightarrow> (Inl e, (fst s, w))
      | (Inr _, w) \<Rightarrow>
          (case wal_of (fst s) of
             None \<Rightarrow> (Inr (), (fst s, w))
           | Some l \<Rightarrow>
               (let (r, (l, w)) = wal_reset (l, w) in (r, ((fst s)\<lparr>wal_of := Some l\<rparr>, w)))))"

text \<open>The borrows of the wrapped index; \<open>index_mut\<close> runs whatever the caller does with it, unlogged.\<close>

definition index_ref :: "('i, 'ie) persisted \<Rightarrow> 'i" where
  "index_ref this = inner this"

definition index_mut :: "('i \<Rightarrow> 'a \<times> 'i) \<Rightarrow> ('i, 'ie) persisted \<Rightarrow> 'a \<times> ('i, 'ie) persisted" where
  "index_mut f this = (let (x, i) = f (inner this) in (x, this\<lparr>inner := i\<rparr>))"

definition config_ref :: "('i, 'ie) persisted \<Rightarrow> persist_config" where
  "config_ref this = config this"

subsection \<open>Snapshots of a lawful index\<close>

text \<open>The region that holds a raw payload as \<open>packed\<close>, and the header of a snapshot.\<close>

definition region_of :: "compression \<Rightarrow> bytes \<Rightarrow> bytes \<Rightarrow> bytes" where
  "region_of scheme raw packed = scheme_tag scheme # to_le 8 (of_nat (length raw) :: u64) @ packed"

definition header_of :: "('i, 'm, 'ie) env \<Rightarrow> 'i \<Rightarrow> bytes \<Rightarrow> file_header" where
  "header_of E i region = \<lparr>fh_magic = MAGIC, fh_version = CURRENT_VERSION,
     fh_index_type = INDEX_TYPE (index E), fh_dim = ix_dim (index E) i,
     fh_metric = ix_metric (index E) i, fh_n_vectors = ix_len (index E) i,
     fh_crc32 = compute (crc_hash E) region\<rparr>"

text \<open>
  The parameters with which the crate is used correctly: an index that keeps its contract on
  this host, codecs that are inverses.
\<close>

locale snapshots = persistable "index E" wf payload "host_umax E"
  for E :: "('i, 'm, 'ie) env" and wf payload +
  assumes codecs: "codec_ok (codecs E)"
begin

lemma fits_simps:
  assumes "wf i"
  shows "ix_dim (index E) i \<le> U64_MAX" "ix_len (index E) i \<le> U64_MAX" "length (payload i) \<le> U64_MAX"
    "length (INDEX_TYPE (index E)) \<le> U64_MAX" "length (payload i) \<le> host_umax E"
  using fits [OF assms] by (auto simp: header_fits_def)

lemma header_of_ok:
  assumes "wf i"
  obtains tag where "writable (header_of E i region) tag" and "header_ok (host_umax E) (header_of E i region)"
proof -
  obtain tag where "metric_tag (ix_metric (index E) i) = Some tag"
    using fits [OF assms] by (auto simp: header_fits_def)
  then have w: "writable (header_of E i region) tag"
    using fits_simps [OF assms] by (simp add: writable_def header_of_def)
  then have "header_ok (host_umax E) (header_of E i region)"
    using fits [OF assms]
    by (auto simp: header_ok_def header_of_def header_fits_def MIN_SUPPORTED_VERSION_def CURRENT_VERSION_def)
  with w show thesis by (rule that)
qed

lemma snapshot_image_Inr:
  assumes "wf (inner this)"
    and "encode (codecs E) (cfg_compression (config this)) (payload (inner this)) = (Inr packed :: ('ie, bytes) result)"
  obtains tag where
    "snapshot_image E this = Inr (header_image tag (header_of E (inner this)
        (region_of (cfg_compression (config this)) (payload (inner this)) packed)) @
        region_of (cfg_compression (config this)) (payload (inner this)) packed)"
    and "writable (header_of E (inner this) (region_of (cfg_compression (config this)) (payload (inner this)) packed)) tag"
proof -
  let ?region = "region_of (cfg_compression (config this)) (payload (inner this)) packed"
  obtain tag where w: "writable (header_of E (inner this) ?region) tag"
    using header_of_ok [OF assms(1)] by blast
  have "u64_try_from (length (payload (inner this))) = Some (of_nat (length (payload (inner this))))"
    using fits_simps(3) [OF assms(1)] by (simp add: u64_try_from_def)
  then have "snapshot_image E this = Inr (header_image tag (header_of E (inner this) ?region) @ ?region)"
    using saves [OF assms(1), of "[]"] assms(2)
    by (simp add: snapshot_image_def Let_def region_of_def header_of_def vec_writer_def
        write_header_image [OF w, of "[]", unfolded region_of_def header_of_def vec_writer_def])
  with w show thesis by (intro that)
qed

lemma snapshot_image_encoded:
  assumes "wf (inner this)" and "snapshot_image E this = Inr bytes"
  obtains packed where
    "encode (codecs E) (cfg_compression (config this)) (payload (inner this)) = (Inr packed :: ('ie, bytes) result)"
  using saves [OF assms(1), of "[]"] assms(2)
  by (auto simp: snapshot_image_def Let_def vec_writer_def rbind_Inr_iff)

lemma decode_region_of:
  assumes "wf i" and "encode (codecs E) scheme (payload i) = (Inr packed :: ('ie, bytes) result)"
  shows "decode_region (host_umax E) (codecs E) (region_of scheme (payload i) packed) =
    (if too_dense (host_umax E) scheme (payload i) packed
     then Inl (InvalidPayload ''declared uncompressed size exceeds the decompression-ratio guard'')
     else Inr (payload i) :: ('ie, bytes) result)"
proof -
  have "usize_try_from (host_umax E) (of_nat (length (payload i))) = Some (length (payload i))"
    using fits_simps(3,5) [OF assms(1)] by (simp add: usize_try_from_def unat_of_nat_u64)
  then show ?thesis
    using decode_encoded [OF codecs assms(2), of "host_umax E"]
    by (simp add: decode_region_def region_of_def Let_def del: to_le.simps)
qed

lemma decode_snapshot_image:
  assumes wf: "wf (inner this)" and img: "snapshot_image E this = Inr bytes"
    and enc: "encode (codecs E) (cfg_compression (config this)) (payload (inner this)) = (Inr packed :: ('ie, bytes) result)"
  shows "decode_snapshot E bytes =
    (if too_dense (host_umax E) (cfg_compression (config this)) (payload (inner this)) packed
     then Inl (InvalidPayload ''declared uncompressed size exceeds the decompression-ratio guard'')
     else Inr (inner this))"
proof -
  let ?i = "inner this" and ?scheme = "cfg_compression (config this)"
  let ?region = "region_of ?scheme (payload ?i) packed"
  let ?h = "header_of E ?i ?region"
  obtain tag where bytes: "bytes = header_image tag ?h @ ?region" and w: "writable ?h tag"
    using snapshot_image_Inr [OF wf enc] img by (metis Inr_inject)
  have ok: "header_ok (host_umax E) ?h" using header_of_ok [OF wf] by blast
  have len: "length (header_image tag ?h) = 41 + length (INDEX_TYPE (index E))"
    by (simp add: length_header_image header_of_def)
  have read: "read_header (host_umax E) (cursor_new bytes) =
      (Inr ?h :: ('ie, file_header) result, \<lparr>rrest = ?region, rpos = 41 + length (INDEX_TYPE (index E)), rend = None\<rparr>)"
    using read_header_image [OF ok w, of ?region 0 None]
    by (simp add: bytes cursor_new_def header_of_def)
  have "2 \<le> fh_version ?h" by (simp add: header_of_def CURRENT_VERSION_def)
  moreover have "drop (41 + length (INDEX_TYPE (index E))) bytes = ?region"
    by (simp add: bytes len)
  ultimately show ?thesis
    using len loads [OF wf]
    by (simp add: decode_snapshot_def read Let_def decode_region_of [OF wf enc])
      (simp add: bytes header_of_def verify_def Let_def)
qed

end

end
