(* ===== verification/Mock_Index.thy ===== *)
theory Mock_Index
  imports Persisted
begin

section \<open>The unit tests' index (\<open>MockIndex\<close> in \<open>src/persisted.rs\<close>)\<close>

text \<open>
  The index the module's unit tests wrap: a dimension, a metric and a counter, saved as a
  self-describing payload of 17 bytes.  It keeps the contracts \<open>persistable\<close> and
  \<open>snapshots\<close>, and is the concrete index of the witnesses.
\<close>

record mock_index =
  mock_dim :: nat
  mock_metric :: distance_metric
  mock_n :: nat

definition mock_insert :: "vector_id \<Rightarrow> f32 list \<Rightarrow> 'm option \<Rightarrow> mock_index \<Rightarrow> ('ie + unit) \<times> mock_index" where
  "mock_insert vid v m this = (Inr (), this\<lparr>mock_n := mock_n this + 1\<rparr>)"

definition mock_delete :: "vector_id \<Rightarrow> mock_index \<Rightarrow> ('ie + unit) \<times> mock_index" where
  "mock_delete vid this = (Inr (), this)"

definition mock_save_to :: "mock_index \<Rightarrow> (writer, 'ie, unit) prog" where
  "mock_save_to this =
     sbind (slift (metric_to_tag (mock_metric this))) (\<lambda>tag.
     sbind (write_all [tag]) (\<lambda>_.
     sbind (slift (ok_or (InvalidPayload ''mock dim does not fit in u64'') (u64_try_from (mock_dim this)))) (\<lambda>dim_u64.
     sbind (write_all (to_le 8 dim_u64)) (\<lambda>_.
     sbind (slift (ok_or (InvalidPayload ''mock n does not fit in u64'') (u64_try_from (mock_n this)))) (\<lambda>n_u64.
     write_all (to_le 8 n_u64))))))"

definition read_io :: "nat \<Rightarrow> (reader, 'ie, bytes) prog" where
  "read_io n = smap_err (Io (Path False [])) (read_exact n)"

definition mock_load_from :: "nat \<Rightarrow> (reader, 'ie, mock_index) prog" where
  "mock_load_from umax =
     sbind (read_io 1) (\<lambda>tag.
     sbind (slift (tag_to_metric (tag ! 0))) (\<lambda>metric.
     sbind (read_io 8) (\<lambda>buf.
     sbind (slift (ok_or (InvalidPayload ''mock dim does not fit in usize'') (usize_try_from umax (of_le buf)))) (\<lambda>dim.
     sbind (read_io 8) (\<lambda>buf.
     sbind (slift (ok_or (InvalidPayload ''mock n does not fit in usize'') (usize_try_from umax (of_le buf)))) (\<lambda>n.
     sret \<lparr>mock_dim = dim, mock_metric = metric, mock_n = n\<rparr>))))))"

definition mock_ops :: "nat \<Rightarrow> (mock_index, 'm, 'ie) index_ops" where
  "mock_ops umax = \<lparr>ix_insert = mock_insert, ix_delete = mock_delete, ix_len = mock_n,
     ix_dim = mock_dim, ix_metric = mock_metric, INDEX_TYPE = ascii ''mock'',
     save_to = mock_save_to, load_from = mock_load_from umax\<rparr>"

subsection \<open>The mock keeps the contract\<close>

definition mock_wf :: "nat \<Rightarrow> mock_index \<Rightarrow> bool" where
  "mock_wf umax i \<longleftrightarrow> mock_dim i \<le> umax \<and> mock_n i \<le> umax \<and> metric_tag (mock_metric i) \<noteq> None"

definition mock_payload :: "mock_index \<Rightarrow> bytes" where
  "mock_payload i = the (metric_tag (mock_metric i)) #
     to_le 8 (of_nat (mock_dim i) :: u64) @ to_le 8 (of_nat (mock_n i) :: u64)"

lemma read_io_ok:
  "length xs = n \<Longrightarrow> read_io n \<lparr>rrest = xs @ ys, rpos = p, rend = e\<rparr> =
     (Inr xs, \<lparr>rrest = ys, rpos = p + n, rend = e\<rparr>)"
  by (simp add: read_io_def smap_err_def read_exact_def)

lemma read_io_one:
  "read_io (Suc 0) \<lparr>rrest = x # ys, rpos = p, rend = e\<rparr> = (Inr [x], \<lparr>rrest = ys, rpos = Suc p, rend = e\<rparr>)"
  by (simp add: read_io_def smap_err_def read_exact_def)

lemma read_io_last:
  "length xs = n \<Longrightarrow> read_io n \<lparr>rrest = xs, rpos = p, rend = e\<rparr> =
     (Inr xs, \<lparr>rrest = [], rpos = p + n, rend = e\<rparr>)"
  using read_io_ok [of xs n "[]"] by simp

lemma mock_saves:
  assumes "mock_wf umax i" and "umax \<le> U64_MAX"
  shows "mock_save_to i (vec_writer buf) = (Inr (), vec_writer (buf @ mock_payload i))"
proof -
  obtain t where "metric_tag (mock_metric i) = Some t"
    using assms(1) by (auto simp: mock_wf_def)
  then show ?thesis
    using assms
    by (simp add: mock_save_to_def sbind_def metric_to_tag_Inr [THEN iffD2] u64_try_from_def mock_wf_def
        mock_payload_def del: to_le.simps)
qed

lemma mock_loads:
  assumes "mock_wf umax i" and "umax \<le> U64_MAX"
  shows "fst (mock_load_from umax (cursor_new (mock_payload i))) = Inr i"
proof -
  obtain t where "metric_tag (mock_metric i) = Some t"
    using assms(1) by (auto simp: mock_wf_def)
  then show ?thesis
    using assms
    by (cases i) (simp add: mock_load_from_def sbind_def mock_payload_def cursor_new_def read_io_one read_io_ok
        read_io_last tag_to_metric_Inr [THEN iffD2] usize_try_from_def unat_of_nat_u64 mock_wf_def
        del: to_le.simps)
qed

lemma utf8_mock: "utf8_valid (ascii ''mock'')"
  by (simp add: ascii_def)

lemma mock_persistable:
  assumes "4096 \<le> umax" and "umax \<le> U64_MAX"
  shows "persistable (mock_ops umax) (mock_wf umax) mock_payload umax"
proof
  fix i
  assume "mock_wf umax i"
  then show "header_fits umax (mock_ops umax) i \<and> length (mock_payload i) \<le> umax"
    using assms
    by (simp add: header_fits_def mock_ops_def mock_wf_def mock_payload_def utf8_mock MAX_INDEX_TYPE_LEN_def)
qed (use assms in \<open>simp_all add: mock_ops_def mock_saves mock_loads mock_insert_def mock_delete_def\<close>)

text \<open>The mock on a 64-bit host, with stored codecs, the IEEE checksum and \<open>()\<close>-like metadata.\<close>

definition mock_env :: "(mock_index, bool list, 'ie) env" where
  "mock_env = \<lparr>host_umax = U64_MAX, codecs = stored_codec, crc_hash = crc32_ieee,
     metadata = flag_ops, index = mock_ops U64_MAX\<rparr>"

interpretation mock: persistable "mock_ops U64_MAX" "mock_wf U64_MAX" mock_payload U64_MAX
  by (rule mock_persistable) (simp_all add: U64_MAX_def)

interpretation mock_snapshots: snapshots mock_env "mock_wf U64_MAX" mock_payload
proof -
  have "persistable (index mock_env) (mock_wf U64_MAX) mock_payload (host_umax mock_env)"
    using mock.persistable_axioms by (simp add: mock_env_def)
  then show "snapshots mock_env (mock_wf U64_MAX) mock_payload"
    by (simp add: snapshots_def snapshots_axioms_def stored_codec_ok mock_env_def)
qed

end
