(* ===== verification/Snapshots.thy ===== *)
theory Snapshots
  imports Mock_Index
begin

section \<open>Saving and loading a snapshot\<close>

text \<open>
  What \<open>save\<close> writes, \<open>load\<close> reads back: through the header, the checksum, the codec and the
  storage, and across a crash.  Damage is detected, files of format version 1 still load.
\<close>

text \<open>A raw payload whose encoded form the decoder's ratio guard lets through.\<close>

definition reloadable :: "('i, 'm, 'ie) env \<Rightarrow> compression \<Rightarrow> bytes \<Rightarrow> bool" where
  "reloadable E scheme raw \<longleftrightarrow> (\<forall>packed. encode (codecs E) scheme raw = (Inr packed :: ('ie, bytes) result) \<longrightarrow>
     \<not> too_dense (host_umax E) scheme raw packed)"

lemma reloadable_uncompressed [simp]: "reloadable E NoCompression raw"
  by (simp add: reloadable_def too_dense_def)

context snapshots
begin

lemma decode_saved:
  assumes "wf (inner this)" and "reloadable E (cfg_compression (config this)) (payload (inner this))"
    and "snapshot_image E this = Inr bytes"
  shows "decode_snapshot E bytes = Inr (inner this)"
proof -
  obtain packed where "encode (codecs E) (cfg_compression (config this)) (payload (inner this)) =
      (Inr packed :: ('ie, bytes) result)"
    using snapshot_image_encoded [OF assms(1,3)] by blast
  then show ?thesis
    using decode_snapshot_image [OF assms(1,3)] assms(2) by (simp add: reloadable_def)
qed

lemma decode_version_1:
  assumes "wf i" and "metric_tag (ix_metric (index E) i) = Some tag"
  shows "decode_snapshot E (header_image tag ((header_of E i (payload i))\<lparr>fh_version := 1\<rparr>) @ payload i) = Inr i"
proof -
  let ?h = "(header_of E i (payload i))\<lparr>fh_version := 1\<rparr>"
  have w: "writable ?h tag" using fits_simps [OF assms(1)] assms(2) by (simp add: writable_def header_of_def)
  moreover have "header_ok (host_umax E) ?h"
    using fits [OF assms(1)] w
    by (auto simp: header_ok_def header_of_def header_fits_def MIN_SUPPORTED_VERSION_def CURRENT_VERSION_def)
  ultimately have "read_header (host_umax E) (cursor_new (header_image tag ?h @ payload i)) =
      (Inr ?h :: ('ie, file_header) result, \<lparr>rrest = payload i, rpos = 41 + length (fh_index_type ?h), rend = None\<rparr>)"
    using read_header_image [of "host_umax E" ?h tag "payload i" 0 None] by (simp add: cursor_new_def)
  moreover have "length (header_image tag ?h) = 41 + length (INDEX_TYPE (index E))"
    by (simp add: length_header_image header_of_def)
  moreover have "\<not> (2 :: u32) \<le> 1" by (simp add: word_le_nat_alt)
  ultimately show ?thesis
    using loads [OF assms(1)] by (simp add: decode_snapshot_def Let_def header_of_def)
qed

end

lemma write_snapshot_cases:
  assumes "write_snapshot E this w = (r, v)" and "storage_of this = std_fs_storage" and "fs_ok w"
  obtains (refused) e where "snapshot_image E this = Inl e" and "r = Inl e" and "v = w"
    | (written) bytes where "snapshot_image E this = Inr bytes"
      and "atomic_outcome (cfg_path (config this)) bytes (cfg_fsync_policy (config this)) w r v"
proof (cases "snapshot_image E this")
  case (Inl e)
  then show ?thesis using assms(1) refused by (simp add: write_snapshot_def)
next
  case (Inr bytes)
  then have "write_atomic std_fs_storage (cfg_path (config this)) bytes (cfg_fsync_policy (config this)) w = (r, v)"
    using assms(1,2) by (simp add: write_snapshot_def)
  from std_fs.writes [OF assms(3) this] show ?thesis by (rule written [OF Inr])
qed

text \<open>Reading through the storage on a calm world.\<close>

lemma std_read_all_calm:
  assumes "calm w" and "fs_ok w" and "content w p = Some bs"
  shows "read_all std_fs_storage p w = (Inr bs, w)"
  using fs_read_content [OF draw_calm [OF assms(1)] assms(2,3)]
  by (simp add: std_fs_storage_def std_read_all_def smap_err_def)

lemma load_snapshot_only:
  assumes "calm w" and "fs_ok w" and "content w (cfg_path cfg) = Some bytes"
    and "decode_snapshot E bytes = Inr i" and "validate_config (codecs E) cfg = (Inr () :: ('ie, unit) result)"
    and "\<not> wal_enabled cfg"
  shows "load (E :: ('i, 'm, 'ie) env) cfg w =
    (Inr \<lparr>inner = i, config = cfg, storage_of = std_fs_storage, wal_of = None\<rparr>, w)"
  using assms
  by (simp add: load_def load_with_storage_def sbind_def std_read_all_calm)

subsection \<open>Damage\<close>

text \<open>A loadable snapshot is the image of its header followed by the region the checksum covers.\<close>

lemma decode_snapshot_parts:
  assumes "decode_snapshot (E :: ('i, 'm, 'ie) env) bytes = Inr i"
  obtains tag h region where "header_ok (host_umax E) h" and "writable h tag"
    and "bytes = header_image tag h @ region" and "compute (crc_hash E) region = fh_crc32 h"
    and "fh_index_type h = INDEX_TYPE (index E)"
    and "length (header_image tag h) = 41 + length (INDEX_TYPE (index E))"
proof -
  obtain rd c where rd: "read_header (host_umax E) (cursor_new bytes) = (rd :: ('ie, file_header) result, c)"
    by (metis prod.exhaust)
  with assms obtain h where h: "rd = Inr h" by (cases rd) (auto simp: decode_snapshot_def)
  obtain tag where t: "header_ok (host_umax E) h" "writable h tag"
      "bytes = header_image tag h @ rrest c" "rpos c = length (header_image tag h)"
    using read_header_sound [OF rd [unfolded h]] by (auto simp: cursor_new_def)
  then have "compute (crc_hash E) (rrest c) = fh_crc32 h" and it: "fh_index_type h = INDEX_TYPE (index E)"
    using assms rd h
    by (auto simp: decode_snapshot_def Let_def rbind_Inr_iff verify_ok_iff split: if_splits)
  moreover have "length (header_image tag h) = 41 + length (INDEX_TYPE (index E))"
    using t(1) it by (simp add: length_header_image header_ok_def)
  ultimately show thesis using t that by blast
qed

lemma decode_snapshot_region:
  assumes "header_ok (host_umax E) h" and "writable h tag"
    and "fh_index_type h = INDEX_TYPE (index (E :: ('i, 'm, 'ie) env))"
    and "compute (crc_hash E) region \<noteq> fh_crc32 h"
  shows "decode_snapshot E (header_image tag h @ region) =
    Inl (ChecksumMismatch (fh_crc32 h) (compute (crc_hash E) region))"
proof -
  have "fh_magic h = MAGIC" using assms(1) by (simp add: header_ok_def)
  note len = length_header_image [OF this, of tag]
  have "read_header (host_umax E) (cursor_new (header_image tag h @ region)) = (Inr h :: ('ie, file_header) result,
      \<lparr>rrest = region, rpos = 41 + length (fh_index_type h), rend = None\<rparr>)"
    using read_header_image [OF assms(1,2), of region 0 None] by (simp add: cursor_new_def)
  then show ?thesis
    using len by (simp add: decode_snapshot_def Let_def assms(3) verify_mismatch [OF assms(4)])
qed

lemma decode_damaged:
  fixes E :: "('i, 'm, 'ie) env"
  assumes crc: "crc_detects (crc_hash E)"
    and loads: "decode_snapshot E bytes = Inr i"
    and byte: "41 + length (INDEX_TYPE (index E)) \<le> k" "k < length bytes" "bytes ! k \<noteq> b"
  shows "\<exists>expected computed. decode_snapshot E (bytes[k := b]) = Inl (ChecksumMismatch expected computed)"
proof -
  obtain tag h region where parts: "header_ok (host_umax E) h" "writable h tag"
      "bytes = header_image tag h @ region" "compute (crc_hash E) region = fh_crc32 h"
      "fh_index_type h = INDEX_TYPE (index E)" "length (header_image tag h) = 41 + length (INDEX_TYPE (index E))"
    using decode_snapshot_parts [OF loads] by blast
  let ?j = "k - length (header_image tag h)"
  have j: "?j < length region" "region ! ?j \<noteq> b" and upd: "bytes[k := b] = header_image tag h @ region[?j := b]"
    using byte parts(3,6) by (auto simp: nth_append list_update_append)
  have "compute (crc_hash E) (region[?j := b]) \<noteq> fh_crc32 h"
    using crc_detects.detects_update [OF crc j] parts(4) by (simp add: compute_def)
  then show ?thesis
    unfolding upd using decode_snapshot_region [OF parts(1,2,5)] by blast
qed

text \<open>What a snapshot with the header \<open>h\<close> is loaded as, in full.\<close>

definition load_region :: "('i, 'm, 'ie) env \<Rightarrow> file_header \<Rightarrow> bytes \<Rightarrow> ('ie, 'i) result" where
  "load_region E h region =
     rbind (if 2 \<le> fh_version h then decode_region (host_umax E) (codecs E) region else Inr region)
       (\<lambda>raw. fst (load_from (index E) (cursor_new raw)))"

lemma decode_snapshot_header:
  assumes "header_ok (host_umax E) h" and "writable h tag"
  shows "decode_snapshot (E :: ('i, 'm, 'ie) env) (header_image tag h @ region) = Inr i \<longleftrightarrow>
    fh_index_type h = INDEX_TYPE (index E) \<and> compute (crc_hash E) region = fh_crc32 h \<and>
    load_region E h region = Inr i \<and>
    ix_dim (index E) i = fh_dim h \<and> ix_metric (index E) i = fh_metric h \<and> ix_len (index E) i = fh_n_vectors h"
proof -
  have "fh_magic h = MAGIC" using assms(1) by (simp add: header_ok_def)
  note len = length_header_image [OF this, of tag]
  have "read_header (host_umax E) (cursor_new (header_image tag h @ region)) = (Inr h :: ('ie, file_header) result,
      \<lparr>rrest = region, rpos = 41 + length (fh_index_type h), rend = None\<rparr>)"
    using read_header_image [OF assms, of region 0 None] by (simp add: cursor_new_def)
  then show ?thesis
    using len by (auto simp: decode_snapshot_def load_region_def Let_def rbind_Inr_iff verify_ok_iff)
qed

text \<open>
  The header is checked against what the checksum covers: with the same region and the same
  version, no two headers load.
\<close>

lemma header_determined:
  assumes "decode_snapshot (E :: ('i, 'm, 'ie) env) (header_image tag h @ region) = Inr i"
    and "decode_snapshot E (header_image tag' h' @ region) = Inr i'"
    and h: "header_ok (host_umax E) h" "writable h tag" and h': "header_ok (host_umax E) h'" "writable h' tag'"
    and "fh_version h' = fh_version h"
  shows "header_image tag' h' = header_image tag h"
proof -
  note one = assms(1) [unfolded decode_snapshot_header [OF h]]
  note two = assms(2) [unfolded decode_snapshot_header [OF h']]
  have "load_region E h' region = load_region E h region" by (simp add: load_region_def assms(7))
  then have "i' = i" using one two by simp
  then have same: "fh_dim h' = fh_dim h" "fh_metric h' = fh_metric h" "fh_n_vectors h' = fh_n_vectors h"
      "fh_crc32 h' = fh_crc32 h" "fh_index_type h' = fh_index_type h"
    using one two by auto
  then have "tag' = tag" using h(2) h'(2) by (simp add: writable_def)
  moreover have "fh_magic h' = fh_magic h" using h(1) h'(1) by (simp add: header_ok_def)
  ultimately show ?thesis using same assms(7) by (simp add: header_image_def)
qed

lemma header_version_field:
  assumes "header_ok umax h"
  shows "take 4 (drop 8 (header_image tag h @ region)) = to_le 4 (fh_version h)"
  using assms by (simp add: header_image_def header_ok_def del: to_le.simps)

lemma decode_damaged_header:
  assumes loads: "decode_snapshot (E :: ('i, 'm, 'ie) env) bytes = Inr i"
    and byte: "k < 41 + length (INDEX_TYPE (index E))" "bytes ! k \<noteq> b" "k < 8 \<or> 12 \<le> k"
  shows "decode_snapshot E (bytes[k := b]) \<noteq> Inr j"
proof
  assume bad: "decode_snapshot E (bytes[k := b]) = Inr j"
  obtain tag h region where h: "header_ok (host_umax E) h" "writable h tag" "bytes = header_image tag h @ region"
      "length (header_image tag h) = 41 + length (INDEX_TYPE (index E))"
    using decode_snapshot_parts [OF loads] by blast
  obtain tag' h' region' where h': "header_ok (host_umax E) h'" "writable h' tag'"
      "bytes[k := b] = header_image tag' h' @ region'"
      "length (header_image tag' h') = 41 + length (INDEX_TYPE (index E))"
    using decode_snapshot_parts [OF bad] by blast
  have upd: "bytes[k := b] = (header_image tag h)[k := b] @ region"
    using byte(1) h(3,4) by (simp add: list_update_append)
  then have split: "header_image tag' h' = (header_image tag h)[k := b]" "region' = region"
    using h'(3,4) h(4) by simp_all
  have "take 4 (drop 8 (bytes[k := b])) = take 4 (drop 8 bytes)"
    using byte(3) by (auto simp: drop_update_swap take_update_swap list_update_beyond)
  then have "to_le 4 (fh_version h') = to_le 4 (fh_version h)"
    using header_version_field [OF h(1), of tag region] header_version_field [OF h'(1), of tag' region'] h(3) h'(3) by simp
  then have "fh_version h' = fh_version h" by simp
  from header_determined [OF loads [unfolded h(3)] bad [unfolded h'(3) split(2)] h(1,2) h'(1,2) this] split(1)
  have "(header_image tag h)[k := b] = header_image tag h" by simp
  then have "header_image tag h ! k = b" using byte(1) h(4) nth_list_update_eq by metis
  moreover have "bytes ! k = header_image tag h ! k" using byte(1) h(3,4) by (simp add: nth_append)
  ultimately show False using byte(2) by simp
qed

lemma decode_other_type:
  fixes E :: "('i, 'm, 'ie) env"
  assumes "header_ok (host_umax E) h" and "writable h tag" and "fh_index_type h \<noteq> INDEX_TYPE (index E)"
  shows "decode_snapshot E (header_image tag h @ region) =
    Inl (InvalidIndexType (fh_index_type h) (INDEX_TYPE (index E)))"
proof -
  have "fh_magic h = MAGIC" using assms(1) by (simp add: header_ok_def)
  note len = length_header_image [OF this, of tag]
  have "read_header (host_umax E) (cursor_new (header_image tag h @ region)) = (Inr h :: ('ie, file_header) result,
      \<lparr>rrest = region, rpos = 41 + length (fh_index_type h), rend = None\<rparr>)"
    using read_header_image [OF assms(1,2), of region 0 None] by (simp add: cursor_new_def)
  then show ?thesis
    using len assms(3) by (simp add: decode_snapshot_def Let_def)
qed

subsection \<open>Properties\<close>

text \<open>The wrapped mock in snapshot-only mode.\<close>

definition mock_config :: persist_config where
  "mock_config = config_new db_path"

definition mock_at :: "nat \<Rightarrow> mock_index" where
  "mock_at n = \<lparr>mock_dim = 3, mock_metric = Cosine, mock_n = n\<rparr>"

definition mock_wrap :: "nat \<Rightarrow> (mock_index, 'ie) persisted" where
  "mock_wrap n = \<lparr>inner = mock_at n, config = mock_config,
     storage_of = std_fs_storage, wal_of = None\<rparr>"

lemma mock_at_wf: "n \<le> 10 \<Longrightarrow> mock_wf U64_MAX (mock_at n)"
  by (simp add: mock_wf_def mock_at_def U64_MAX_def metric_tag_def)

lemma mock_wrap_simps [simp]:
  "inner (mock_wrap n) = mock_at n" "config (mock_wrap n) = mock_config"
  "storage_of (mock_wrap n) = std_fs_storage" "wal_of (mock_wrap n) = None"
  by (simp_all add: mock_wrap_def)

lemma mock_config_simps [simp]:
  "cfg_path mock_config = db_path" "cfg_compression mock_config = NoCompression" "\<not> wal_enabled mock_config"
  "cfg_fsync_policy mock_config = Always" "validate_config C mock_config = Inr ()"
  by (simp_all add: mock_config_def config_new_def validate_config_def)

text \<open>
  C4. Saving and loading in snapshot-only mode.  After a successful \<open>save\<close>, \<open>load\<close> with the
  same configuration rebuilds the same wrapper around the same index, from the files as they
  are and, on unix and under a policy other than \<open>Never\<close>, from whatever any crash leaves of
  them.  The wrapped index keeps the contract of \<open>Persistable\<close>, the codecs are inverses,
  and the ratio guard does not refuse this payload.
\<close>

theorem save_load_round_trip:
  fixes E :: "('i, 'm, 'ie) env"
  assumes lawful: "snapshots E valid payload" "valid (inner this)"
    and guard: "reloadable E (cfg_compression (config this)) (payload (inner this))"
    and mode: "storage_of this = std_fs_storage" "wal_of this = None" "\<not> wal_enabled (config this)"
      "validate_config (codecs E) (config this) = (Inr () :: ('ie, unit) result)"
    and saved: "fs_ok w" "save E this w = (Inr (), v)"
    and later: "v' = v \<or> crash v v' \<and> cfg_unix w \<and> cfg_fsync_policy (config this) \<noteq> Never"
    and calm: "calm v'"
  shows "load E (config this) v' = (Inr this, v')"
proof -
  obtain bytes where img: "snapshot_image E this = Inr bytes"
    and out: "atomic_outcome (cfg_path (config this)) bytes (cfg_fsync_policy (config this)) w (Inr () :: ('ie, unit) result) v"
    using write_snapshot_cases [OF saved(2) [unfolded save_def] mode(1) saved(1)] by blast
  have "fs_ok v'" and "content v' (cfg_path (config this)) = Some bytes"
    using later out crash_ok crash_durable(1) by (auto simp: atomic_outcome_def)
  then show ?thesis
    using load_snapshot_only [OF calm _ _ snapshots.decode_saved [OF lawful guard img] mode(4,3)] mode(1,2)
    by (cases this) simp
qed

lemma mock_image: "n \<le> 10 \<Longrightarrow> \<exists>bytes. snapshot_image mock_env (mock_wrap n) = Inr bytes"
  by (rule mock_snapshots.snapshot_image_Inr [of "mock_wrap n" "mock_payload (inner (mock_wrap n))"])
    (simp add: mock_at_wf, simp, blast)

lemma mock_saved:
  assumes "n \<le> 10"
  shows "\<exists>v. save mock_env (mock_wrap n) (example_world []) = (Inr () :: (unit, unit) result, v) \<and> calm v"
proof -
  obtain bytes where img: "snapshot_image (mock_env :: (mock_index, bool list, unit) env) (mock_wrap n) = Inr bytes"
    using mock_image [OF assms] by blast
  have f: "path_file_name db_path = Some ''index.iqdb''" by (simp add: db_path_def)
  obtain v where "std_write_atomic db_path bytes Always (example_world []) = (Inr () :: (unit, unit) result, v)" and "calm v"
    using std_write_atomic_run [OF example_can_save f, where payload = bytes and policy = Always and 'ie = unit]
    by (auto simp: target_dir_def db_path_def)
  then show ?thesis
    by (simp add: save_def write_snapshot_def img std_fs_storage_def)
qed

theorem save_load_round_trip_witness:
  "\<exists>v. save mock_env (mock_wrap 7) (example_world []) = (Inr () :: (unit, unit) result, v) \<and>
    load mock_env mock_config v = (Inr (mock_wrap 7 :: (mock_index, unit) persisted), v)"
proof -
  obtain v where v: "save mock_env (mock_wrap 7) (example_world []) = (Inr () :: (unit, unit) result, v)" "calm v"
    using mock_saved [of 7] by auto
  let ?p = "mock_wrap 7 :: (mock_index, unit) persisted"
  have valid: "mock_wf U64_MAX (inner ?p)" by (simp add: mock_at_wf)
  have "load mock_env (config ?p) v = (Inr ?p, v)"
    by (rule save_load_round_trip [OF mock_snapshots.snapshots_axioms valid _ _ _ _ _ example_world_ok v(1) _ v(2)])
      simp_all
  with v(1) show ?thesis by auto
qed

text \<open>
  C11. Damage is detected.  Take any snapshot that loads and change one byte anywhere but in the
  version field: it is refused.  Behind the header, in the compression preamble or in the
  payload, the error is a checksum mismatch, before anything is decompressed or handed to the
  index.  In the header, which no checksum covers, the check against the loaded index does it.
\<close>

theorem damaged_snapshot_refused:
  fixes E :: "('i, 'm, 'ie) env"
  assumes crc: "crc_detects (crc_hash E)"
    and loads: "decode_snapshot E bytes = Inr i"
    and byte: "k < length bytes" "bytes ! k \<noteq> b" "k < 8 \<or> 12 \<le> k"
  shows "\<exists>e. decode_snapshot E (bytes[k := b]) = Inl e \<and>
    (41 + length (INDEX_TYPE (index E)) \<le> k \<longrightarrow> (\<exists>expected computed. e = ChecksumMismatch expected computed))"
proof (cases "41 + length (INDEX_TYPE (index E)) \<le> k")
  case True
  from decode_damaged [OF crc loads this byte(1,2)] show ?thesis by auto
next
  case False
  then have "decode_snapshot E (bytes[k := b]) \<noteq> Inr j" for j
    using decode_damaged_header [OF loads _ byte(2,3)] by simp
  with False show ?thesis by (cases "decode_snapshot E (bytes[k := b])") auto
qed

theorem damaged_snapshot_refused_witness:
  "\<exists>bytes b expected computed. decode_snapshot (mock_env :: (mock_index, bool list, unit) env) bytes = Inr (mock_at 7) \<and>
    decode_snapshot (mock_env :: (mock_index, bool list, unit) env) (bytes[50 := b]) =
      Inl (ChecksumMismatch expected computed)"
proof -
  let ?E = "mock_env :: (mock_index, bool list, unit) env"
  let ?p = "mock_wrap 7 :: (mock_index, unit) persisted"
  obtain bytes tag where img: "snapshot_image ?E ?p = Inr bytes"
      "bytes = header_image tag (header_of ?E (mock_at 7) (region_of NoCompression (mock_payload (mock_at 7)) (mock_payload (mock_at 7)))) @
        region_of NoCompression (mock_payload (mock_at 7)) (mock_payload (mock_at 7))"
    by (rule mock_snapshots.snapshot_image_Inr [of ?p "mock_payload (mock_at 7)"])
      (simp_all add: mock_at_wf)
  have dec: "decode_snapshot ?E bytes = Inr (mock_at 7)"
    using mock_snapshots.decode_saved [OF _ _ img(1)] by (simp add: mock_at_wf)
  have len: "50 < length bytes"
    by (simp add: img(2) length_header_image header_of_def region_of_def mock_payload_def mock_env_def mock_ops_def)
  have crc: "crc_detects (crc_hash ?E)" by (simp add: mock_env_def ieee.crc_detects_axioms)
  have it: "length (INDEX_TYPE (index ?E)) = 4" by (simp add: mock_env_def mock_ops_def)
  have "bytes ! 50 \<noteq> bytes ! 50 + 1" by simp
  from damaged_snapshot_refused [OF crc dec len this] dec it show ?thesis by auto
qed

text \<open>
  The version field is the exception.  Nothing ties it to the region, so flipping its lowest two
  bits makes the reader take the compression preamble for the beginning of a payload of version
  1.  For this index the three comparisons with the header pass, too, and the file loads.
\<close>

definition twin :: mock_index where
  "twin = \<lparr>mock_dim = 17, mock_metric = Cosine, mock_n = 4352\<rparr>"

definition twin_region :: bytes where
  "twin_region = region_of NoCompression (mock_payload twin) (mock_payload twin)"

lemma twin_region_bytes:
  "twin_region = [0, 17, 0, 0, 0, 0, 0, 0, 0, 0, 17, 0, 0, 0, 0, 0, 0, 0, 0, 17, 0, 0, 0, 0, 0, 0]"
  by code_simp

lemma load_twin_1:
  "fh_version h = 1 \<Longrightarrow> load_region (mock_env :: (mock_index, bool list, unit) env) h twin_region = Inr twin"
  by (simp add: twin_region_bytes load_region_def mock_env_def mock_ops_def mock_load_from_def cursor_new_def sbind_def
      read_io_def smap_err_def read_exact_def tag_to_metric_def usize_try_from_def twin_def word_le_nat_alt)

lemma version_bytes: "to_le 4 (2 :: u32) = [2, 0, 0, 0]" "to_le 4 (1 :: u32) = [1, 0, 0, 0]"
  by code_simp+

theorem flipped_version_loads:
  "\<exists>bytes. snapshot_image (mock_env :: (mock_index, bool list, unit) env)
      \<lparr>inner = twin, config = mock_config, storage_of = std_fs_storage, wal_of = None\<rparr> = Inr bytes \<and>
    bytes ! 8 = 2 \<and> decode_snapshot (mock_env :: (mock_index, bool list, unit) env) (bytes[8 := 1]) = Inr twin"
proof -
  let ?E = "mock_env :: (mock_index, bool list, unit) env"
  let ?t = "\<lparr>inner = twin, config = mock_config, storage_of = std_fs_storage, wal_of = None\<rparr> :: (mock_index, unit) persisted"
  let ?h = "header_of ?E twin twin_region"
  have valid: "mock_wf U64_MAX twin" by (simp add: mock_wf_def twin_def U64_MAX_def metric_tag_def)
  obtain bytes tag where img: "snapshot_image ?E ?t = Inr bytes"
    and bytes: "bytes = header_image tag ?h @ twin_region" and w: "writable ?h tag"
    by (rule mock_snapshots.snapshot_image_Inr [of ?t "mock_payload twin"]) (simp_all add: valid twin_region_def)
  let ?h1 = "?h\<lparr>fh_version := 1\<rparr>"
  have ok: "header_ok (host_umax ?E) ?h" using mock_snapshots.header_of_ok [OF valid] by blast
  then have ok1: "header_ok (host_umax ?E) ?h1" and w1: "writable ?h1 tag"
    using w by (auto simp: header_ok_def writable_def MIN_SUPPORTED_VERSION_def CURRENT_VERSION_def)
  have "header_image tag ?h ! 8 = 2" and "(header_image tag ?h)[8 := 1] = header_image tag ?h1"
    by (simp_all add: header_image_def header_of_def CURRENT_VERSION_def version_bytes nth_append list_update_append
        del: to_le.simps)
  moreover have "8 < length (header_image tag ?h)" by (simp add: length_header_image header_of_def)
  ultimately have upd: "bytes ! 8 = 2" "bytes[8 := 1] = header_image tag ?h1 @ twin_region"
    by (simp_all add: bytes nth_append list_update_append)
  have "decode_snapshot ?E (bytes[8 := 1]) = Inr twin"
    unfolding upd(2) using load_twin_1 [of ?h1]
    by (subst decode_snapshot_header [OF ok1 w1]) (simp add: header_of_def)
  with img upd(1) show ?thesis by blast
qed

text \<open>
  The type tag is checked before the payload is.  A snapshot of an index of another type
  is refused with both tags, whatever its payload and checksum say.
\<close>

theorem other_index_type_refused:
  fixes E :: "('i, 'm, 'ie) env"
  assumes "header_ok (host_umax E) h" and "writable h tag" and "fh_index_type h \<noteq> INDEX_TYPE (index E)"
  shows "decode_snapshot E (header_image tag h @ region) =
    Inl (InvalidIndexType (fh_index_type h) (INDEX_TYPE (index E)))"
  by (rule decode_other_type [OF assms])

theorem other_index_type_refused_witness:
  "decode_snapshot (mock_env :: (mock_index, bool list, unit) env) (header_image 2 example_header @ [1, 2]) =
    Inl (InvalidIndexType (fh_index_type example_header) (ascii ''mock''))"
proof -
  let ?E = "mock_env :: (mock_index, bool list, unit) env"
  have "header_ok (host_umax ?E) example_header"
    using example_header_ok by (simp add: header_ok_def mock_env_def U32_MAX_def U64_MAX_def)
  moreover have "fh_index_type example_header \<noteq> INDEX_TYPE (index ?E)"
    by (simp add: example_header_def mock_env_def mock_ops_def ascii_def)
  ultimately show ?thesis
    using other_index_type_refused [OF _ example_writable, of ?E "[1, 2]"] by (simp add: mock_env_def mock_ops_def)
qed

text \<open>
  C30. Format version 1 still loads.  A file of that version has the payload itself behind the
  header, without the preamble; it loads as the index that wrote the payload.
\<close>

theorem version_1_loads:
  fixes E :: "('i, 'm, 'ie) env"
  assumes lawful: "snapshots E valid payload" "valid i"
    and h: "h = (header_of E i (payload i))\<lparr>fh_version := 1\<rparr>" and "metric_tag (ix_metric (index E) i) = Some tag"
  shows "decode_snapshot E (header_image tag h @ payload i) = Inr i"
  unfolding h by (rule snapshots.decode_version_1 [OF lawful assms(4)])

theorem version_1_loads_witness:
  "\<exists>h. fh_version h = 1 \<and> decode_snapshot (mock_env :: (mock_index, bool list, unit) env)
    (header_image 0 h @ mock_payload (mock_at 7)) = Inr (mock_at 7)"
proof -
  let ?i = "mock_at 7"
  have "metric_tag (ix_metric (index (mock_env :: (mock_index, bool list, unit) env)) ?i) = Some 0"
    by (simp add: mock_env_def mock_ops_def mock_at_def metric_tag_def)
  from version_1_loads [OF mock_snapshots.snapshots_axioms mock_at_wf refl this] show ?thesis
    by (intro exI [of _ "(header_of (mock_env :: (mock_index, bool list, unit) env) ?i (mock_payload ?i))\<lparr>fh_version := 1\<rparr>"]) simp
qed

end
