(* ===== verification/Wal_Mode.thy ===== *)
theory Wal_Mode
  imports Snapshots
begin

section \<open>WAL mode: the log in step with the index\<close>

text \<open>
  The invariant of a wrapper in WAL mode, \<open>in_step\<close>: the log holds, as whole frames, the
  mutations that lead from the index of the snapshot to the index in memory.  Every mutation
  keeps it, whether the index accepts it or refuses it, and \<open>load\<close> turns it back into the
  same index.
\<close>

definition mutate :: "('i, 'm, 'ie) env \<Rightarrow> 'm wal_record \<Rightarrow> ('i, 'ie, unit) wrapper_prog" where
  "mutate E r = (case r of
     Insert vid vector meta \<Rightarrow> insert_vector E vid vector meta
   | Delete vid \<Rightarrow> delete_vector E vid)"

lemma mutate_eq:
  "mutate E r = log_then_apply (append_record (crc_hash E) (metadata E) r) (apply_record (index E) r)"
proof (cases r)
  case (Insert vid v m)
  have "apply_record (index E) (Insert vid v m) = ix_insert (index E) vid v m" by (rule ext) simp
  with Insert show ?thesis by (simp add: mutate_def insert_vector_def)
next
  case (Delete vid)
  have "apply_record (index E) (Delete vid) = ix_delete (index E) vid" by (rule ext) simp
  with Delete show ?thesis by (simp add: mutate_def delete_vector_def)
qed

subsection \<open>One mutation\<close>

lemma log_then_apply_steps:
  assumes "wal_of this = Some l"
  shows "mark (l, w) = (Inl e, (l1, w1)) \<Longrightarrow>
      log_then_apply f g (this, w) = (Inl e :: ('ie, unit) result, (this\<lparr>wal_of := Some l1\<rparr>, w1))"
    and "mark (l, w) = (Inr m :: ('ie, nat) result, s1) \<Longrightarrow> f s1 = (Inl e, (l2, w2)) \<Longrightarrow>
      log_then_apply f g (this, w) = (Inl e :: ('ie, unit) result, (this\<lparr>wal_of := Some l2\<rparr>, w2))"
    and "mark (l, w) = (Inr m :: ('ie, nat) result, s1) \<Longrightarrow> f s1 = (Inr u, (l2, w2)) \<Longrightarrow> g (inner this) = (Inr v, i) \<Longrightarrow>
      log_then_apply f g (this, w) = (Inr () :: ('ie, unit) result, (this\<lparr>inner := i, wal_of := Some l2\<rparr>, w2))"
    and "mark (l, w) = (Inr m :: ('ie, nat) result, s1) \<Longrightarrow> f s1 = (Inr u, (l2, w2)) \<Longrightarrow> g (inner this) = (Inl x, i) \<Longrightarrow>
      rollback m (l2, w2) = (back, (l3, w3)) \<Longrightarrow>
      (log_then_apply f g (this, w) :: ('ie, unit) result \<times> _) =
        (case back of Inl e \<Rightarrow> Inl e | Inr _ \<Rightarrow> Inl (from_iqdb x), (this\<lparr>inner := i, wal_of := Some l3\<rparr>, w3))"
  using assms by (simp_all add: log_then_apply_def split: sum.split)

lemma no_build_Inl: "no_build m \<Longrightarrow> m s = (Inl e, s') \<Longrightarrow> e \<noteq> IndexBuild x"
  by (auto simp: no_build_def)

lemma log_then_apply_effect:
  assumes ready: "wal_ready (l, w)" and l: "wal_of this = Some l"
    and run: "log_then_apply (append_record crc M r) app (this, w) = (res :: ('ie, unit) result, (this', w'))"
    and refused: "\<forall>i e i'. app i = (Inl e, i') \<longrightarrow> i' = i"
  obtains l' where "config this' = config this" and "storage_of this' = storage_of this" and "wal_of this' = Some l'"
    and "fs_ok w'" and "own_file (l, w) (l', w')"
    and "res = Inr () \<Longrightarrow> advances (l, w) (frame_image crc (record_image M r)) (l', w') \<and>
      app (inner this) = (Inr (), inner this') \<and> (w_policy l = Always \<longrightarrow> synced (wal_node (l', w')))"
    and "\<And>e. res = Inl (IndexBuild e) \<Longrightarrow> wal_ready (l', w') \<and>
      data (wal_node (l', w')) = data (wal_node (l, w)) \<and> synced (wal_node (l', w'))"
    and "res \<noteq> Inr () \<Longrightarrow> inner this' = inner this"
    and "synced (wal_node (l, w)) \<Longrightarrow>
      partly (data (wal_node (l, w))) (frame_image crc (record_image M r)) (wal_node (l', w'))"
proof -
  have sync: "advances (l, w) (take n (frame_image crc (record_image M r))) s' \<Longrightarrow> synced (wal_node (l, w)) \<Longrightarrow>
      partly (data (wal_node (l, w))) (frame_image crc (record_image M r)) (wal_node s')" for n s'
    using partly_grows by (auto simp: advances_def)
  obtain rm l1 w1 where mark: "mark (l, w) = (rm :: ('ie, nat) result, (l1, w1))" by (metis prod.exhaust)
  have a1: "advances (l, w) [] (l1, w1)" by (rule mark_effect(1) [OF ready mark])
  then have ready1: "wal_ready (l1, w1)" and own1: "own_file (l, w) (l1, w1)" by (simp_all add: advances_def)
  show thesis
  proof (cases rm)
    case (Inl e)
    have "e \<noteq> IndexBuild x" for x by (rule no_build_Inl [OF blameless_mark mark [unfolded Inl]])
    then show thesis
      using own1 ready1 run sync [of 0 "(l1, w1)"] a1 log_then_apply_steps(1) [where f = "append_record crc M r" and g = app, OF l mark [unfolded Inl]]
      by (intro that [of l1]) (auto simp: wal_ready_def)
  next
    case (Inr m)
    have m: "m = length (data (wal_node (l, w)))" by (rule mark_effect(2) [OF ready mark Inr])
    obtain ra l2 w2 where app: "append_record crc M r (l1, w1) = (ra :: ('ie, unit) result, (l2, w2))"
      by (metis prod.exhaust)
    obtain n where a2: "advances (l1, w1) (take n (frame_image crc (record_image M r))) (l2, w2)"
      and a3: "ra = Inr () \<Longrightarrow> take n (frame_image crc (record_image M r)) = frame_image crc (record_image M r) \<and>
        (w_policy l1 = Always \<longrightarrow> synced (wal_node (l2, w2)))"
      using append_record_effect [OF ready1 app] by auto
    have a: "advances (l, w) (take n (frame_image crc (record_image M r))) (l2, w2)"
      using advances_trans [OF a1 a2] by simp
    then have ready2: "wal_ready (l2, w2)" and own2: "own_file (l, w) (l2, w2)" by (simp_all add: advances_def)
    have pol: "w_policy l1 = w_policy l" using own1 by (simp add: own_file_def)
    show thesis
    proof (cases ra)
      case (Inl e)
      have "e \<noteq> IndexBuild x" for x by (rule no_build_Inl [OF blameless_append app [unfolded Inl]])
      then show thesis
        using own2 ready2 run sync [OF a] log_then_apply_steps(2) [where f = "append_record crc M r" and g = app, OF l mark [unfolded Inr] app [unfolded Inl]]
        by (intro that [of l2]) (auto simp: wal_ready_def)
    next
      case (Inr u)
      then have full: "advances (l, w) (frame_image crc (record_image M r)) (l2, w2)"
          "w_policy l = Always \<longrightarrow> synced (wal_node (l2, w2))"
        using a a3 pol by simp_all
      obtain rx i where ix: "app (inner this) = (rx, i)" by (metis prod.exhaust)
      show thesis
      proof (cases rx)
        case (Inr v)
        then show thesis
          using own2 ready2 full ix run sync [OF a]
            log_then_apply_steps(3) [where f = "append_record crc M r" and g = app, OF l mark [unfolded \<open>rm = Inr m\<close>] app [unfolded \<open>ra = Inr u\<close>] ix [unfolded Inr]]
          by (intro that [of l2]) (auto simp: wal_ready_def)
      next
        case (Inl e)
        have i: "i = inner this" using refused ix Inl by simp
        obtain rr l3 w3 where undo: "rollback m (l2, w2) = (rr :: ('ie, unit) result, (l3, w3))"
          by (metis prod.exhaust)
        have data2: "data (wal_node (l2, w2)) = data (wal_node (l, w)) @ frame_image crc (record_image M r)"
          using full(1) by (simp add: advances_def grows_def)
        have m2: "m \<le> length (data (wal_node (l2, w2)))" by (simp add: data2 m)
        note eff = rollback_effect [OF ready2 m2 undo]
        have cut: "rr = Inr () \<Longrightarrow> data (wal_node (l3, w3)) = data (wal_node (l, w))"
          using eff data2 m by simp
        have part: "synced (wal_node (l, w)) \<Longrightarrow>
            partly (data (wal_node (l, w))) (frame_image crc (record_image M r)) (wal_node (l3, w3))"
          using rollback_partly [OF ready2 _ sync [OF a] undo [unfolded m]] data2 by simp
        have own3: "own_file (l, w) (l3, w3)" using eff own2 own_file_trans by blast
        have "rr \<noteq> Inl (IndexBuild x)" for x
        proof
          assume "rr = Inl (IndexBuild x)"
          from no_build_Inl [OF blameless_rollback undo [unfolded this]] show False by blast
        qed
        then show thesis
          using i eff cut own3 run part log_then_apply_steps(4) [where f = "append_record crc M r" and g = app, OF l mark [unfolded \<open>rm = Inr m\<close>]
            app [unfolded \<open>ra = Inr u\<close>] ix [unfolded Inl] undo]
          by (intro that [of l3]) (auto simp: from_iqdb_def split: sum.splits)
      qed
    qed
  qed
qed

subsection \<open>The invariant\<close>

text \<open>
  \<open>in_step E base rs s\<close>: the log of \<open>s\<close> is open for appends and holds the mutations \<open>rs\<close>, and
  these lead from \<open>base\<close> to the index in memory.
\<close>

definition log_state :: "('i, 'm, 'ie) env \<Rightarrow> 'm wal_record list \<Rightarrow> ('i, 'ie) persisted \<times> world \<Rightarrow> wal \<Rightarrow> bool" where
  "log_state E rs s l \<longleftrightarrow> wal_of (fst s) = Some l \<and>
     opened (cfg_path (config (fst s))) (cfg_fsync_policy (config (fst s)))
       (wal_log (crc_hash E) (metadata E) rs) l (snd s)"

definition in_step :: "('i, 'm, 'ie) env \<Rightarrow> 'i \<Rightarrow> 'm wal_record list \<Rightarrow> ('i, 'ie) persisted \<times> world \<Rightarrow> bool" where
  "in_step E base rs s \<longleftrightarrow> (\<exists>l. log_state E rs s l) \<and> accepts (index E) base rs (inner (fst s))"

text \<open>The log's own file is on disk as far as it was written.\<close>

definition log_synced :: "('i, 'ie) persisted \<times> world \<Rightarrow> bool" where
  "log_synced s \<longleftrightarrow> (\<exists>l. wal_of (fst s) = Some l \<and> synced (wal_node (l, snd s)))"

lemma log_state_content:
  assumes "log_state E rs s l"
  shows "content (snd s) (wal_path (cfg_path (config (fst s)))) = Some (wal_log (crc_hash E) (metadata E) rs)"
  using assms by (auto simp: log_state_def opened_def wal_ready_def content_def wal_node_def wal_ino_def)

text \<open>A refused mutation changes nothing.\<close>

definition refuses_cleanly :: "('i, 'm, 'ie) index_ops \<Rightarrow> bool" where
  "refuses_cleanly IX \<longleftrightarrow> (\<forall>r i e i'. apply_record IX r i = (Inl e, i') \<longrightarrow> i' = i)"

lemma mutate_in_step:
  assumes step: "in_step E base rs (this, w)" and clean: "refuses_cleanly (index E)"
    and run: "mutate E r (this, w) = (res, (this', w'))"
  shows "config this' = config this" and "storage_of this' = storage_of this" and "fs_ok w'"
    and "spares (wal_path (cfg_path (config this))) w w'"
    and "names w' = names w" and "old_names w' = old_names w" and "cfg_unix w' = cfg_unix w"
    and "res = Inr () \<Longrightarrow> right_dim (index E) r (inner this) \<Longrightarrow> in_step E base (rs @ [r]) (this', w')"
    and "res = Inr () \<Longrightarrow> cfg_fsync_policy (config this) = Always \<Longrightarrow> log_synced (this', w')"
    and "res = Inl (IndexBuild e) \<Longrightarrow> in_step E base rs (this', w') \<and> log_synced (this', w')"
    and "res \<noteq> Inr () \<Longrightarrow> inner this' = inner this"
    and "res = Inr () \<Longrightarrow> \<exists>l'. log_state E (rs @ [r]) (this', w') l'"
    and "log_synced (this, w) \<Longrightarrow> \<exists>i. names w' (wal_path (cfg_path (config this))) = Some i \<and>
      partly (wal_log (crc_hash E) (metadata E) rs) (frame_image (crc_hash E) (record_image (metadata E) r)) (nodes w' i)"
proof -
  obtain l where l: "log_state E rs (this, w) l" and acc: "accepts (index E) base rs (inner this)"
    using step by (auto simp: in_step_def)
  then have wal: "wal_of this = Some l" and ready: "wal_ready (l, w)"
    and op: "w_path l = wal_path (cfg_path (config this))" "w_policy l = cfg_fsync_policy (config this)"
      "data (wal_node (l, w)) = wal_log (crc_hash E) (metadata E) rs"
    by (simp_all add: log_state_def opened_def)
  have ref: "\<forall>i e i'. apply_record (index E) r i = (Inl e, i') \<longrightarrow> i' = i"
    using clean by (simp add: refuses_cleanly_def)
  from log_then_apply_effect [OF ready wal run [unfolded mutate_eq] ref]
  obtain l' where eff: "config this' = config this" "storage_of this' = storage_of this" "wal_of this' = Some l'"
      "fs_ok w'" "own_file (l, w) (l', w')"
    and ok: "res = Inr () \<Longrightarrow> advances (l, w) (frame_image (crc_hash E) (record_image (metadata E) r)) (l', w') \<and>
      apply_record (index E) r (inner this) = (Inr (), inner this') \<and> (w_policy l = Always \<longrightarrow> synced (wal_node (l', w')))"
    and rej: "\<And>e. res = Inl (IndexBuild e) \<Longrightarrow> wal_ready (l', w') \<and>
      data (wal_node (l', w')) = data (wal_node (l, w)) \<and> synced (wal_node (l', w'))"
    and same: "res \<noteq> Inr () \<Longrightarrow> inner this' = inner this"
    and part: "synced (wal_node (l, w)) \<Longrightarrow> partly (data (wal_node (l, w)))
      (frame_image (crc_hash E) (record_image (metadata E) r)) (wal_node (l', w'))"
    by blast
  show "config this' = config this" "storage_of this' = storage_of this" "fs_ok w'"
    using eff by simp_all
  show "names w' = names w" "old_names w' = old_names w" "cfg_unix w' = cfg_unix w"
    using eff(5) by (simp_all add: own_file_def)
  show "spares (wal_path (cfg_path (config this))) w w'"
    using own_file_spares [OF eff(5) ready] op(1) by simp
  show "res \<noteq> Inr () \<Longrightarrow> inner this' = inner this" by (rule same)
  show "\<exists>i. names w' (wal_path (cfg_path (config this))) = Some i \<and>
      partly (wal_log (crc_hash E) (metadata E) rs) (frame_image (crc_hash E) (record_image (metadata E) r)) (nodes w' i)"
    if "log_synced (this, w)"
    using that part ready op wal eff(5) by (auto simp: log_synced_def wal_ready_def wal_node_def own_file_def)
  have op': "w_path l' = wal_path (cfg_path (config this))" "w_policy l' = cfg_fsync_policy (config this)"
    using eff(5) op by (simp_all add: own_file_def)
  show "in_step E base (rs @ [r]) (this', w')" if "res = Inr ()" "right_dim (index E) r (inner this)"
    using ok [OF that(1)] that(2) acc op op' eff(1,3)
    by (auto simp: in_step_def log_state_def opened_def advances_def grows_def wal_log_snoc accepts_append)
  show "\<exists>l'. log_state E (rs @ [r]) (this', w') l'" if "res = Inr ()"
    using ok [OF that] op op' eff(1,3)
    by (auto simp: log_state_def opened_def advances_def grows_def wal_log_snoc)
  show "log_synced (this', w')" if "res = Inr ()" "cfg_fsync_policy (config this) = Always"
    using ok [OF that(1)] that(2) op eff(3) by (simp add: log_synced_def)
  show "in_step E base rs (this', w') \<and> log_synced (this', w')" if "res = Inl (IndexBuild e)"
    using rej [OF that] same that acc op op' eff(1,3)
    by (auto simp: in_step_def log_state_def opened_def log_synced_def)
qed

context persistable
begin

lemma refuses: "refuses_cleanly IX"
  unfolding refuses_cleanly_def
proof (intro allI impI)
  fix r i e i'
  assume "apply_record IX r i = (Inl e, i')"
  then show "i' = i" by (cases r) (auto dest: insert_refused delete_refused)
qed

end

subsection \<open>Loading\<close>

text \<open>On a calm world \<open>load\<close> changes nothing on disk when the log exists; its result, in full.\<close>

lemma open_for_append_calm:
  assumes "calm w" and "names w (wal_path snapshot) = Some i" and "\<not> dirs w (wal_path snapshot)"
  shows "wal_open_for_append snapshot policy w =
    (Inr (new_wal \<lparr>h_ino = i, h_pos = length (data (nodes w i))\<rparr> (wal_path snapshot) policy) :: ('ie, wal) result, w)"
  using assms
  by (simp add: wal_open_for_append_def Let_def fs_exists_def call_def draw_calm sbind_def smap_err_def
      fs_open_rw_def returning_wal_def on_file_def fs_seek_end_def new_wal_def)

lemma replay_calm:
  assumes "calm w" and "fs_ok w" and "content w (wal_path snapshot) = Some bs"
  shows "replay umax crc M IX snapshot (i, w) =
    (case parse_records umax crc M bs of
       Inl e \<Rightarrow> (Inl e, (i, w))
     | Inr rs \<Rightarrow> let (r, j) = replay_loop IX rs 0 i in (r, (j, w)))"
  using fs_read_content [OF draw_calm [OF assms(1)] assms(2,3)] by (simp add: replay_def Let_def split: sum.split)

definition reopened_log :: "persist_config \<Rightarrow> world \<Rightarrow> wal" where
  "reopened_log cfg w = (let p = wal_path (cfg_path cfg); i = the (names w p)
     in new_wal \<lparr>h_ino = i, h_pos = length (data (nodes w i))\<rparr> p (cfg_fsync_policy cfg))"

lemma load_calm:
  assumes calm: "calm w" and ok: "fs_ok w"
    and cfg: "validate_config (codecs E) cfg = (Inr () :: ('ie, unit) result)" "wal_enabled cfg"
    and snap: "content w (cfg_path cfg) = Some bytes" "decode_snapshot E bytes = Inr base"
    and log: "content w (wal_path (cfg_path cfg)) = Some bs"
  shows "load (E :: ('i, 'm, 'ie) env) cfg w =
    (case parse_records (host_umax E) (crc_hash E) (metadata E) bs of
       Inl e \<Rightarrow> (Inl e, w)
     | Inr rs \<Rightarrow>
         (case replay_loop (index E) rs 0 base of
            (Inl e, _) \<Rightarrow> (Inl e, w)
          | (Inr n, i) \<Rightarrow> (Inr \<lparr>inner = i, config = cfg, storage_of = std_fs_storage,
               wal_of = Some (reopened_log cfg w)\<rparr>, w)))"
proof -
  obtain j where j: "names w (wal_path (cfg_path cfg)) = Some j" using log by (auto simp: content_def)
  then have "\<not> dirs w (wal_path (cfg_path cfg))" using ok fs_okD(2) by blast
  note op = open_for_append_calm [OF calm j this, where policy = "cfg_fsync_policy cfg" and 'ie = 'ie]
  show ?thesis
    using cfg snap op j
    by (simp add: load_def load_with_storage_def sbind_def std_read_all_calm [OF calm ok snap(1)]
        replay_calm [OF calm ok log] reopened_log_def Let_def split: sum.split prod.split)
qed

lemma reopened_log_opened:
  assumes "fs_ok w" and "content w (wal_path (cfg_path cfg)) = Some bs"
  shows "opened (cfg_path cfg) (cfg_fsync_policy cfg) bs (reopened_log cfg w) w"
  using assms
  by (auto simp: opened_def wal_ready_def reopened_log_def new_wal_def wal_node_def wal_ino_def content_def Let_def)

text \<open>The log that \<open>in_step\<close> speaks of is small enough to be read back.\<close>

definition readable :: "('i, 'm, 'ie) env \<Rightarrow> 'm wal_record list \<Rightarrow> bool" where
  "readable E rs \<longleftrightarrow> (\<forall>r\<in>set rs. loggable (metadata E) r) \<and> MAX_RECORD_LEN \<le> host_umax E \<and>
     length (wal_log (crc_hash E) (metadata E) rs) \<le> host_umax E"

lemma load_in_step:
  assumes calm: "calm w" and ok: "fs_ok w"
    and cfg: "validate_config (codecs E) cfg = (Inr () :: ('ie, unit) result)" "wal_enabled cfg"
    and snap: "content w (cfg_path cfg) = Some bytes" "decode_snapshot E bytes = Inr base"
    and log: "content w (wal_path (cfg_path cfg)) = Some (wal_log (crc_hash E) (metadata E) rs)"
    and rs: "readable E rs" "accepts (index E) base rs i"
  shows "load (E :: ('i, 'm, 'ie) env) cfg w =
      (Inr \<lparr>inner = i, config = cfg, storage_of = std_fs_storage, wal_of = Some (reopened_log cfg w)\<rparr>, w)"
    and "in_step E base rs (\<lparr>inner = i, config = cfg, storage_of = std_fs_storage,
      wal_of = Some (reopened_log cfg w)\<rparr>, w)"
proof -
  have parse: "parse_records (host_umax E) (crc_hash E) (metadata E) (wal_log (crc_hash E) (metadata E) rs) =
      (Inr rs :: ('ie, 'm wal_record list) result)"
    using rs(1) unfolding readable_def by (intro parse_log) auto
  have loop: "replay_loop (index E) rs 0 base = (Inr (length rs), i)"
    using rs(2) by (simp add: replay_loop_accepts)
  show "load E cfg w =
      (Inr \<lparr>inner = i, config = cfg, storage_of = std_fs_storage, wal_of = Some (reopened_log cfg w)\<rparr>, w)"
    by (simp add: load_calm [OF calm ok cfg snap log] parse loop)
  show "in_step E base rs (\<lparr>inner = i, config = cfg, storage_of = std_fs_storage,
      wal_of = Some (reopened_log cfg w)\<rparr>, w)"
    using reopened_log_opened [OF ok log] rs(2) by (auto simp: in_step_def log_state_def)
qed

end
