(* ===== verification/Interruption.thy ===== *)
theory Interruption
  imports Wal_Mode
begin

section \<open>Interrupted operations\<close>

text \<open>
  What a later process finds when a mutation or a checkpoint stopped anywhere: between two
  calls, inside a write, after a failed call or in a power loss.  A mutation leaves the log
  with some beginning of its frame behind the old frames (\<open>partly\<close>), and \<open>load_tail\<close> says
  what \<open>load\<close> makes of each.
\<close>

subsection \<open>What a later process finds\<close>

text \<open>
  What a later process may find of the world \<open>w\<close>: the same files, or what a crash left of
  them.  The entry of the log in its directory is taken to have survived: \<open>Wal::create\<close> does
  not sync the directory, so a crash may lose it (\<open>unsynced_log_entry_lost\<close> in
  \<open>Log_Entry\<close>).
\<close>

definition may_find :: "persist_config \<Rightarrow> world \<Rightarrow> world \<Rightarrow> bool" where
  "may_find cfg w v \<longleftrightarrow> quiet w v \<or>
     crash w v \<and> names v (wal_path (cfg_path cfg)) = names w (wal_path (cfg_path cfg))"

lemma found_snapshot:
  assumes "may_find cfg w v" and "fs_ok w" and "durable w p c"
  shows "content v p = c" and "durable v p c" and "fs_ok v"
  using assms crash_durable crash_ok
  by (auto simp: may_find_def quietD durable_content)

lemma found_partly:
  assumes find: "may_find cfg w v" and name: "names w (wal_path (cfg_path cfg)) = Some i"
    and part: "partly xs ys (nodes w i)"
  shows "\<exists>k. content v (wal_path (cfg_path cfg)) = Some (xs @ take k ys)"
proof (cases "quiet w v")
  case True
  then show ?thesis using name partly_data [OF part] by (simp add: content_def quietD [OF True])
next
  case False
  then have "crash w v" and same: "names v (wal_path (cfg_path cfg)) = Some i"
    using find name by (simp_all add: may_find_def)
  then have "survives (nodes w i) (nodes v i)" by (simp add: crash_def)
  from partly_survives [OF part this] show ?thesis using same by (simp add: content_def)
qed

subsection \<open>Loading with a beginning of one more frame\<close>

abbreviation loaded :: "persist_config \<Rightarrow> 'i \<Rightarrow> world \<Rightarrow> ('i, 'ie) persisted" where
  "loaded cfg i v \<equiv> \<lparr>inner = i, config = cfg, storage_of = std_fs_storage, wal_of = Some (reopened_log cfg v)\<rparr>"

lemma replay_loop_append:
  assumes "accepts IX i rs j"
  shows "replay_loop IX (rs @ rs') k i = replay_loop IX rs' (k + length rs) j"
  using assms by (induction rs arbitrary: k i) (auto simp: sbind_Inr [OF replay_one_ok [THEN iffD2]])

lemma load_tail:
  assumes calm: "calm v" and ok: "fs_ok v"
    and cfg: "validate_config (codecs E) cfg = (Inr () :: ('ie, unit) result)" "wal_enabled cfg"
    and snap: "content v (cfg_path cfg) = Some bytes" "decode_snapshot E bytes = Inr base"
    and img: "img = frame_image (crc_hash E) (record_image (metadata E) r)"
    and log: "content v (wal_path (cfg_path cfg)) = Some (wal_log (crc_hash E) (metadata E) rs @ take k img)"
    and rs: "readable E (rs @ [r])" "accepts (index E) base rs i"
  shows "load (E :: ('i, 'm, 'ie) env) cfg v =
    (if take k img = img
     then (case replay_one (index E) r i of (Inl e, _) \<Rightarrow> (Inl e, v) | (Inr _, j) \<Rightarrow> (Inr (loaded cfg j v), v))
     else (Inr (loaded cfg i v), v))"
proof -
  have parse: "parse_records (host_umax E) (crc_hash E) (metadata E) (wal_log (crc_hash E) (metadata E) rs @ take k img) =
      (if take k img = img then Inr (rs @ [r]) else Inr rs :: ('ie, 'm wal_record list) result)"
    using rs(1) unfolding readable_def img by (intro parse_tail) auto
  have "replay_loop (index E) rs 0 base = (Inr (length rs), i)"
    using rs(2) by (simp add: replay_loop_accepts)
  moreover have "replay_loop (index E) (rs @ [r]) 0 base =
      (case replay_one (index E) r i of (Inl e, j) \<Rightarrow> (Inl e, j) | (Inr _, j) \<Rightarrow> (Inr (Suc (length rs)), j))"
    using replay_loop_append [OF rs(2)] by (simp add: sbind_def split: prod.split sum.split)
  ultimately show ?thesis
    by (simp add: load_calm [OF calm ok cfg snap log] parse split: prod.split sum.split)
qed

text \<open>
  A mutation \<open>r\<close> that stopped anywhere, and then a process that loads: it finds the snapshot,
  the old frames and some beginning of the new one.
\<close>

lemma interrupted_load:
  fixes E :: "('i, 'm, 'ie) env"
  assumes step: "in_step E base rs (this, w)" "log_synced (this, w)" "config this = cfg"
    and clean: "refuses_cleanly (index E)"
    and cfg: "validate_config (codecs E) cfg = (Inr () :: ('ie, unit) result)" "wal_enabled cfg"
    and snap: "durable w (cfg_path cfg) (Some bytes)" "decode_snapshot E bytes = Inr base"
    and run: "mutate E r (this, w) = (res, (this', w'))"
    and find: "may_find cfg w' v" "calm v" and small: "readable E (rs @ [r])"
  obtains bs where "content v (wal_path (cfg_path cfg)) = Some bs" and "fs_ok v"
    and "durable v (cfg_path cfg) (Some bytes)"
    and "load E cfg v =
      (if bs = wal_log (crc_hash E) (metadata E) (rs @ [r])
       then (case replay_one (index E) r (inner this) of (Inl e, _) \<Rightarrow> (Inl e, v) | (Inr _, j) \<Rightarrow> (Inr (loaded cfg j v), v))
       else (Inr (loaded cfg (inner this) v), v))"
proof -
  let ?img = "frame_image (crc_hash E) (record_image (metadata E) r)"
  note eff = mutate_in_step [OF step(1) clean run]
  obtain i where "names w' (wal_path (cfg_path cfg)) = Some i"
    and "partly (wal_log (crc_hash E) (metadata E) rs) ?img (nodes w' i)"
    using eff(13) [OF step(2)] step(3) by blast
  from found_partly [OF find(1) this] obtain k where
    log: "content v (wal_path (cfg_path cfg)) = Some (wal_log (crc_hash E) (metadata E) rs @ take k ?img)" by blast
  have "durable w' (cfg_path cfg) (Some bytes)"
    using spares_durable [OF eff(4) _ snap(1)] step(3) wal_path_neq by metis
  note found = found_snapshot [OF find(1) eff(3) this]
  have acc: "accepts (index E) base rs (inner this)" using step(1) by (simp add: in_step_def)
  have "wal_log (crc_hash E) (metadata E) rs @ take k ?img = wal_log (crc_hash E) (metadata E) (rs @ [r]) \<longleftrightarrow>
      take k ?img = ?img" by (simp add: wal_log_snoc)
  with load_tail [OF find(2) found(3) cfg found(1) snap(2) refl log small acc] log found show thesis
    by (intro that [OF log]) simp_all
qed

end
