(* ===== verification/Lifetime.thy ===== *)
theory Lifetime
  imports Interruption
begin

section \<open>The recovery contract\<close>

text \<open>
  The life of a database in WAL mode as a step relation: it is opened, mutated, checkpointed,
  crashes and is loaded again, any number of times.  The invariant \<open>recoverable\<close> holds in
  every state of such a life, and from it a load rebuilds the index with exactly the
  acknowledged mutations.
\<close>

subsection \<open>Opening and checkpointing\<close>

lemma wal_log_Nil: "wal_log crc M [] = wal_header"
  by (simp add: wal_log_def record_frames_simps)

lemma snapshot_image_cong:
  "inner this = inner that \<Longrightarrow> config this = config that \<Longrightarrow> snapshot_image E this = snapshot_image E that"
  by (simp add: snapshot_image_def)

lemma open_with_effect:
  assumes ok: "fs_ok w" and unix: "cfg_unix w" and cfg: "wal_enabled cfg" "cfg_fsync_policy cfg \<noteq> Never"
    and run: "open_with (E :: ('i, 'm, 'ie) env) i cfg w = (Inr this, w')"
  obtains bytes where "inner this = i" and "config this = cfg" and "storage_of this = std_fs_storage"
    and "snapshot_image E this = Inr bytes" and "durable w' (cfg_path cfg) (Some bytes)"
    and "in_step E i [] (this, w')" and "log_synced (this, w')" and "fs_ok w'"
proof -
  let ?t = "\<lparr>inner = i, config = cfg, storage_of = std_fs_storage, wal_of = None\<rparr> :: ('i, 'ie) persisted"
  obtain w1 l where snap: "write_snapshot E ?t w = (Inr (), w1)"
    and wal: "wal_create (cfg_path cfg) (cfg_fsync_policy cfg) w1 = (Inr l :: ('ie, wal) result, w')"
    and it: "this = ?t\<lparr>wal_of := Some l\<rparr>"
    using run cfg(1) by (auto simp: open_with_def open_with_storage_def elim!: sbind_InrE)
  obtain bytes where img: "snapshot_image E ?t = Inr bytes"
    and out: "atomic_outcome (cfg_path cfg) bytes (cfg_fsync_policy cfg) w (Inr () :: ('ie, unit) result) w1"
    using write_snapshot_cases [OF snap _ ok] by auto
  then have "fs_ok w1" and dur: "durable w1 (cfg_path cfg) (Some bytes)"
    using unix cfg(2) by (simp_all add: atomic_outcome_def)
  note eff = wal_create_effect [OF this(1) wal]
  have "durable w' (cfg_path cfg) (Some bytes)"
    using spares_durable [OF _ _ dur] eff wal_path_neq by metis
  moreover have "snapshot_image E this = Inr bytes"
    using img snapshot_image_cong [of this ?t E] by (simp add: it)
  moreover have "log_state E [] (this, w') l" and "log_synced (this, w')"
    using eff by (simp_all add: log_state_def log_synced_def it wal_log_Nil)
  ultimately show thesis
    using eff by (intro that) (auto simp: it in_step_def)
qed

text \<open>A checkpoint does not look at what the log holds.\<close>

lemma checkpoint_effect:
  assumes ok: "fs_ok w" and unix: "cfg_unix w" and std: "storage_of this = std_fs_storage"
    and pol: "cfg_fsync_policy (config this) \<noteq> Never"
    and wal: "wal_of this = Some l" and op: "opened (cfg_path (config this)) (cfg_fsync_policy (config this)) bs l w"
    and run: "checkpoint (E :: ('i, 'm, 'ie) env) (this, w) = (Inr (), (this', w'))"
  obtains bytes where "inner this' = inner this" and "config this' = config this"
    and "storage_of this' = std_fs_storage"
    and "snapshot_image E this = Inr bytes" and "durable w' (cfg_path (config this)) (Some bytes)"
    and "in_step E (inner this) [] (this', w')" and "log_synced (this', w')" and "fs_ok w'"
proof -
  let ?p = "cfg_path (config this)"
  obtain w1 l' where snap: "write_snapshot E this w = (Inr (), w1)"
    and reset: "wal_reset (l, w1) = (Inr () :: ('ie, unit) result, (l', w'))"
    and it: "this' = this\<lparr>wal_of := Some l'\<rparr>"
    using run wal by (auto simp: checkpoint_def Let_def split: prod.splits sum.splits)
  obtain bytes where img: "snapshot_image E this = Inr bytes"
    and out: "atomic_outcome ?p bytes (cfg_fsync_policy (config this)) w (Inr () :: ('ie, unit) result) w1"
    using write_snapshot_cases [OF snap std ok] by auto
  have ok1: "fs_ok w1" and sp: "spares ?p w w1" and dur: "durable w1 ?p (Some bytes)"
    using out unix pol by (simp_all add: atomic_outcome_def)
  have name: "names w (wal_path ?p) = Some (wal_ino (l, w))"
    using op by (auto simp: opened_def wal_ready_def)
  note kept = sparesD [OF sp wal_path_neq name]
  have ready1: "wal_ready (l, w1)" and pol1: "w_path l = wal_path ?p" "w_policy l = cfg_fsync_policy (config this)"
    using op ok1 kept by (simp_all add: opened_def wal_ready_def wal_node_def wal_ino_def)
  note eff = wal_reset_effect [OF ready1 reset]
  have "spares (wal_path ?p) w1 w'" using own_file_spares [of "(l, w1)" "(l', w')"] eff ready1 pol1 by simp
  then have "durable w' ?p (Some bytes)" using spares_durable dur wal_path_neq by metis
  moreover have "log_state E [] (this', w') l'" and "log_synced (this', w')"
    using eff pol1 by (auto simp: log_state_def log_synced_def it wal_log_Nil opened_def own_file_def)
  ultimately show thesis
    using eff img std by (intro that) (auto simp: it in_step_def)
qed

subsection \<open>The life of a database\<close>

text \<open>
  \<open>lifetime E cfg i rs s\<close>: a database opened around \<open>i\<close> on unix has come to the state \<open>s\<close>,
  and \<open>rs\<close> are the mutations acknowledged since it was opened.  Opening, mutations and
  checkpoints may run under any faults that let them return as stated; a load is of a calm
  world.
\<close>

inductive lifetime ::
  "('i, 'm, 'ie) env \<Rightarrow> persist_config \<Rightarrow> 'i \<Rightarrow> 'm wal_record list \<Rightarrow> ('i, 'ie) persisted \<times> world \<Rightarrow> bool"
  for E cfg i where
  opened: "fs_ok w \<Longrightarrow> cfg_unix w \<Longrightarrow> open_with E i cfg w = (Inr this, w') \<Longrightarrow> lifetime E cfg i [] (this, w')"
| acked: "lifetime E cfg i rs s \<Longrightarrow> right_dim (index E) r (inner (fst s)) \<Longrightarrow>
    mutate E r s = (Inr (), s') \<Longrightarrow> lifetime E cfg i (rs @ [r]) s'"
| refused: "lifetime E cfg i rs s \<Longrightarrow> mutate E r s = (Inl (IndexBuild e), s') \<Longrightarrow> lifetime E cfg i rs s'"
| checkpointed: "lifetime E cfg i rs s \<Longrightarrow> cfg_unix (snd s) \<Longrightarrow> checkpoint E s = (Inr (), s') \<Longrightarrow>
    lifetime E cfg i rs s'"
| interrupted: "lifetime E cfg i rs s \<Longrightarrow> readable E (rs @ [r]) \<Longrightarrow> mutate E r s = (res, s') \<Longrightarrow>
    may_find cfg (snd s') v \<Longrightarrow> calm v \<Longrightarrow> load E cfg v = (Inr this, v') \<Longrightarrow>
    cfg_unix v' \<Longrightarrow> checkpoint E (this, v') = (Inr (), s'') \<Longrightarrow>
    lifetime E cfg i (if res \<noteq> Inr () \<and> inner this = inner (fst s) then rs else rs @ [r]) s''"
| restarted: "lifetime E cfg i rs s \<Longrightarrow> may_find cfg (snd s) v \<Longrightarrow> calm v \<Longrightarrow>
    load E cfg v = (Inr this, v') \<Longrightarrow> lifetime E cfg i rs (this, v')"

text \<open>
  Along the mutations \<open>rs\<close> the index keeps its invariant, and a snapshot of it could be read
  back.
\<close>

definition stays_valid ::
  "('i, 'm, 'ie) env \<Rightarrow> persist_config \<Rightarrow> ('i \<Rightarrow> bool) \<Rightarrow> ('i \<Rightarrow> bytes) \<Rightarrow> 'i \<Rightarrow> 'm wal_record list \<Rightarrow> bool" where
  "stays_valid E cfg valid payload i rs \<longleftrightarrow> (\<forall>n j. accepts (index E) i (take n rs) j \<longrightarrow>
     valid j \<and> reloadable E (cfg_compression cfg) (payload j))"

lemma stays_valid_prefix: "stays_valid E cfg valid payload i (rs @ rs') \<Longrightarrow> stays_valid E cfg valid payload i rs"
  unfolding stays_valid_def
proof (intro allI impI)
  fix n j
  assume all: "\<forall>n j. accepts (index E) i (take n (rs @ rs')) j \<longrightarrow>
      valid j \<and> reloadable E (cfg_compression cfg) (payload j)" and "accepts (index E) i (take n rs) j"
  moreover have "take n rs = take (min n (length rs)) (rs @ rs')" by (simp add: min_def)
  ultimately show "valid j \<and> reloadable E (cfg_compression cfg) (payload j)" by metis
qed

lemma stays_validD: "stays_valid E cfg valid payload i rs \<Longrightarrow> accepts (index E) i rs j \<Longrightarrow>
    valid j \<and> reloadable E (cfg_compression cfg) (payload j)"
  unfolding stays_valid_def by (metis order_refl take_all)

lemma readable_parts: "readable E (rs @ rs') \<Longrightarrow> readable E rs \<and> readable E rs'"
  by (auto simp: readable_def wal_log_def)

text \<open>The invariant: the snapshot and the log together hold the acknowledged mutations.\<close>

definition recoverable ::
  "('i, 'm, 'ie) env \<Rightarrow> persist_config \<Rightarrow> 'i \<Rightarrow> 'm wal_record list \<Rightarrow> ('i, 'ie) persisted \<times> world \<Rightarrow> bool" where
  "recoverable E cfg i rs s \<longleftrightarrow> (\<exists>base old new bytes. rs = old @ new \<and> accepts (index E) i old base \<and>
     durable (snd s) (cfg_path cfg) (Some bytes) \<and> decode_snapshot E bytes = Inr base \<and>
     in_step E base new s \<and> log_synced s \<and> fs_ok (snd s) \<and>
     config (fst s) = cfg \<and> storage_of (fst s) = std_fs_storage)"

lemma recoverable_fs_ok: "recoverable E cfg i rs s \<Longrightarrow> fs_ok (snd s)"
  by (auto simp: recoverable_def)

lemma recoverable_accepts: "recoverable E cfg i rs s \<Longrightarrow> accepts (index E) i rs (inner (fst s))"
  by (auto simp: recoverable_def in_step_def accepts_append)

text \<open>What a later process finds of the two files.\<close>

lemma found_log:
  assumes find: "may_find cfg w v" and ok: "fs_ok w" and l: "log_state E rs (this, w) l" and "config this = cfg"
    and sync: "synced (wal_node (l, w))"
  shows "content v (wal_path (cfg_path cfg)) = Some (wal_log (crc_hash E) (metadata E) rs)"
    and "synced (nodes v (the (names v (wal_path (cfg_path cfg)))))"
proof -
  let ?p = "wal_path (cfg_path cfg)" and ?j = "wal_ino (l, w)"
  have name: "names w ?p = Some ?j" and bytes: "data (nodes w ?j) = wal_log (crc_hash E) (metadata E) rs"
    and sy: "synced (nodes w ?j)"
    using l sync \<open>config this = cfg\<close> by (auto simp: log_state_def opened_def wal_ready_def wal_node_def)
  have "names v ?p = Some ?j \<and> data (nodes v ?j) = data (nodes w ?j) \<and> synced (nodes v ?j)"
    using find
  proof (cases "quiet w v")
    case True
    then show ?thesis using name sy by (simp add: quietD [OF True])
  next
    case False
    then have c: "crash w v" "names v ?p = names w ?p" using find by (simp_all add: may_find_def)
    then have sv: "survives (nodes w ?j) (nodes v ?j)" by (simp add: crash_def)
    have "data (nodes v ?j) = data (nodes w ?j)"
      using survives_synced [OF sv] sy by (simp add: synced_def)
    then show ?thesis using c(2) name sv by (simp add: survives_def synced_def)
  qed
  then show "content v ?p = Some (wal_log (crc_hash E) (metadata E) rs)" "synced (nodes v (the (names v ?p)))"
    using bytes by (simp_all add: content_def)
qed

subsection \<open>Every step keeps the invariant\<close>

text \<open>The crate used as documented: WAL mode, every append synced, a codec that is compiled in.\<close>

locale wal_use = snapshots E wf payload
  for E :: "('i, 'm, 'ie) env" and wf payload +
  fixes cfg :: persist_config
  assumes enabled: "wal_enabled cfg" and always: "cfg_fsync_policy cfg = Always"
    and validated: "validate_config (codecs E) cfg = (Inr () :: ('ie, unit) result)"
begin

lemma opened_recoverable:
  assumes "fs_ok w" and "cfg_unix w" and "open_with E i cfg w = (Inr this, w')"
    and valid: "stays_valid E cfg wf payload i []"
  shows "recoverable E cfg i [] (this, w')"
proof -
  have "cfg_fsync_policy cfg \<noteq> Never" by (simp add: always)
  from open_with_effect [OF assms(1,2) enabled this assms(3)] obtain bytes where
    eff: "inner this = i" "config this = cfg" "storage_of this = std_fs_storage"
      "snapshot_image E this = Inr bytes" "durable w' (cfg_path cfg) (Some bytes)"
      "in_step E i [] (this, w')" "log_synced (this, w')" "fs_ok w'"
    by blast
  have "wf i" and "reloadable E (cfg_compression cfg) (payload i)"
    using stays_validD [OF valid, of i] by simp_all
  then have "decode_snapshot E bytes = Inr i"
    using decode_saved [OF _ _ eff(4)] eff(1,2) by simp
  then show ?thesis using eff by (auto simp: recoverable_def)
qed

lemma mutate_recoverable:
  assumes rec: "recoverable E cfg i rs s" and run: "mutate E r s = (res, s')"
  shows "res = Inr () \<Longrightarrow> right_dim (index E) r (inner (fst s)) \<Longrightarrow> recoverable E cfg i (rs @ [r]) s'"
    and "res = Inl (IndexBuild e) \<Longrightarrow> recoverable E cfg i rs s'"
proof -
  obtain this w where s: "s = (this, w)" by (cases s)
  obtain this' w' where s': "s' = (this', w')" by (cases s')
  obtain base old new bytes where inv: "rs = old @ new" "accepts (index E) i old base"
      "durable w (cfg_path cfg) (Some bytes)" "decode_snapshot E bytes = Inr base"
      "in_step E base new (this, w)" "config this = cfg" "storage_of this = std_fs_storage"
    using rec by (auto simp: recoverable_def s)
  note eff = mutate_in_step [OF inv(5) refuses run [unfolded s s']]
  have "durable w' (cfg_path cfg) (Some bytes)"
    using spares_durable [OF eff(4) _ inv(3)] inv(6) wal_path_neq by metis
  note new = this eff(1-3) inv(1,2,4,6,7)
  show "recoverable E cfg i (rs @ [r]) s'" if "res = Inr ()" "right_dim (index E) r (inner (fst s))"
    using eff(8) [OF that(1)] eff(9) [OF that(1)] that(2) new always
    unfolding recoverable_def s s' by (intro exI [of _ base] exI [of _ old] exI [of _ "new @ [r]"] exI [of _ bytes]) simp
  show "recoverable E cfg i rs s'" if "res = Inl (IndexBuild e)"
    using eff(10) [OF that] new
    unfolding recoverable_def s s' by (intro exI [of _ base] exI [of _ old] exI [of _ new] exI [of _ bytes]) simp
qed

text \<open>
  A checkpoint makes a new beginning: from then on the snapshot holds every mutation so far,
  whatever the log held, a torn frame included.
\<close>

lemma checkpoint_heals:
  assumes ok: "fs_ok w" and unix: "cfg_unix w" and it: "config this = cfg" "storage_of this = std_fs_storage"
    and l: "wal_of this = Some l" "opened (cfg_path cfg) (cfg_fsync_policy cfg) bs l w"
    and acc: "accepts (index E) i rs (inner this)" and valid: "stays_valid E cfg wf payload i rs"
    and run: "checkpoint E (this, w) = (Inr (), s')"
  shows "recoverable E cfg i rs s'"
proof -
  obtain this' w' where s': "s' = (this', w')" by (cases s')
  have "cfg_fsync_policy (config this) \<noteq> Never" by (simp add: always it(1))
  from checkpoint_effect [OF ok unix it(2) this l(1) _ run [unfolded s']] l(2) it(1) obtain bytes where
    eff: "inner this' = inner this" "config this' = config this" "storage_of this' = std_fs_storage"
      "snapshot_image E this = Inr bytes" "durable w' (cfg_path (config this)) (Some bytes)"
      "in_step E (inner this) [] (this', w')" "log_synced (this', w')" "fs_ok w'" by auto
  have "wf (inner this)" and "reloadable E (cfg_compression cfg) (payload (inner this))"
    using stays_validD [OF valid acc] by simp_all
  then have "decode_snapshot E bytes = Inr (inner this)"
    using decode_saved [OF _ _ eff(4)] it by simp
  then show ?thesis
    using eff it acc unfolding recoverable_def s'
    by (intro exI [of _ "inner this"] exI [of _ rs] exI [of _ "[]"] exI [of _ bytes]) simp
qed

lemma checkpoint_recoverable:
  assumes rec: "recoverable E cfg i rs s" and unix: "cfg_unix (snd s)"
    and run: "checkpoint E s = (Inr (), s')" and valid: "stays_valid E cfg wf payload i rs"
  shows "recoverable E cfg i rs s'"
proof -
  obtain this w where s: "s = (this, w)" by (cases s)
  have acc: "accepts (index E) i rs (inner this)" using recoverable_accepts [OF rec] by (simp add: s)
  obtain l new where inv: "log_state E new (this, w) l" "fs_ok w" "config this = cfg" "storage_of this = std_fs_storage"
    using rec by (auto simp: recoverable_def in_step_def s)
  have "cfg_unix w" and "wal_of this = Some l"
    and "opened (cfg_path cfg) (cfg_fsync_policy cfg) (wal_log (crc_hash E) (metadata E) new) l w"
    using unix inv(1,3) by (simp_all add: s log_state_def)
  from checkpoint_heals [OF inv(2) this(1) inv(3,4) this(2,3) acc valid run [unfolded s]] show ?thesis .
qed

text \<open>An interrupted mutation: the loaded index has it or has it not, and the log can be checkpointed.\<close>

lemma interrupted_outcome:
  assumes rec: "recoverable E cfg i rs s" and run: "mutate E r s = (res, s')"
    and find: "may_find cfg (snd s') v" "calm v" and small: "readable E (rs @ [r])"
  obtains kept bs where "load E cfg v =
      (if kept then (case replay_one (index E) r (inner (fst s)) of (Inl e, _) \<Rightarrow> (Inl e, v) | (Inr _, j) \<Rightarrow> (Inr (loaded cfg j v), v))
       else (Inr (loaded cfg (inner (fst s)) v), v))"
    and "res = Inr () \<longrightarrow> kept" and "fs_ok v"
    and "opened (cfg_path cfg) (cfg_fsync_policy cfg) bs (reopened_log cfg v) v"
proof -
  obtain this w where s: "s = (this, w)" by (cases s)
  obtain this' w' where s': "s' = (this', w')" by (cases s')
  obtain base old new bytes where inv: "rs = old @ new" "durable w (cfg_path cfg) (Some bytes)"
      "decode_snapshot E bytes = Inr base" "in_step E base new (this, w)" "log_synced (this, w)" "config this = cfg"
    using rec by (auto simp: recoverable_def s)
  have new: "readable E (new @ [r])" using small readable_parts [of E old "new @ [r]"] inv(1) by simp
  note run = run [unfolded s s'] and find1 = find(1) [unfolded s' snd_conv]
  obtain bs where bs: "content v (wal_path (cfg_path cfg)) = Some bs" "fs_ok v" "durable v (cfg_path cfg) (Some bytes)"
    "load E cfg v =
      (if bs = wal_log (crc_hash E) (metadata E) (new @ [r])
       then (case replay_one (index E) r (inner this) of (Inl e, _) \<Rightarrow> (Inl e, v) | (Inr _, j) \<Rightarrow> (Inr (loaded cfg j v), v))
       else (Inr (loaded cfg (inner this) v), v))"
    by (rule interrupted_load [OF inv(4-6) refuses validated enabled inv(2,3) run find1 find(2) new])
  have "bs = wal_log (crc_hash E) (metadata E) (new @ [r])" if ack: "res = Inr ()"
  proof -
    note eff = mutate_in_step [OF inv(4) refuses run]
    obtain l where l: "log_state E (new @ [r]) (this', w') l" using eff(12) [OF ack] by blast
    have "synced (wal_node (l, w'))"
      using eff(9) [OF ack] always inv(6) l by (simp add: log_synced_def log_state_def)
    then show ?thesis using found_log(1) [OF find1 eff(3) l _] eff(1) inv(6) bs(1) by simp
  qed
  moreover have "inner (fst s) = inner this" by (simp add: s)
  ultimately show thesis using that [OF _ _ bs(2) reopened_log_opened [OF bs(2,1)]] bs(4) by metis
qed

lemma interrupted_recoverable:
  assumes rec: "recoverable E cfg i rs s" and run: "mutate E r s = (res, s')"
    and find: "may_find cfg (snd s') v" "calm v" and small: "readable E (rs @ [r])"
    and ld: "load E cfg v = (Inr this, v')" and unix: "cfg_unix v'" and ck: "checkpoint E (this, v') = (Inr (), s'')"
    and all: "all = (if res \<noteq> Inr () \<and> inner this = inner (fst s) then rs else rs @ [r])"
    and valid: "stays_valid E cfg wf payload i all"
  shows "recoverable E cfg i all s''"
proof -
  obtain kept bs where out: "load E cfg v =
      (if kept then (case replay_one (index E) r (inner (fst s)) of (Inl e, _) \<Rightarrow> (Inl e, v) | (Inr _, j) \<Rightarrow> (Inr (loaded cfg j v), v))
       else (Inr (loaded cfg (inner (fst s)) v), v))" "res = Inr () \<longrightarrow> kept" "fs_ok v"
      "opened (cfg_path cfg) (cfg_fsync_policy cfg) bs (reopened_log cfg v) v"
    by (rule interrupted_outcome [OF rec run find small])
  have acc: "accepts (index E) i rs (inner (fst s))" by (rule recoverable_accepts [OF rec])
  obtain j where j: "v' = v" "this = loaded cfg j v"
      "kept \<and> replay_one (index E) r (inner (fst s)) = (Inr (), j) \<or> \<not> kept \<and> j = inner (fst s)"
    using ld out(1) by (auto split: if_splits prod.splits sum.splits)
  then have "accepts (index E) i all (inner this)"
    using acc out(2) by (auto simp: all accepts_append replay_one_ok)
  from checkpoint_heals [OF out(3) _ _ _ _ out(4) this valid ck [unfolded j(1)]] show ?thesis
    using unix j(1,2) by simp
qed

lemma load_recoverable:
  assumes rec: "recoverable E cfg i rs s" and find: "may_find cfg (snd s) v" and calm: "calm v"
    and small: "readable E rs"
  obtains this where "load E cfg v = (Inr this, v)" and "inner this = inner (fst s)"
    and "recoverable E cfg i rs (this, v)"
proof -
  obtain that w where s: "s = (that, w)" by (cases s)
  obtain base old new bytes where inv: "rs = old @ new" "accepts (index E) i old base"
      "durable w (cfg_path cfg) (Some bytes)" "decode_snapshot E bytes = Inr base" "fs_ok w" "config that = cfg"
    and step: "in_step E base new (that, w)" "log_synced (that, w)"
    using rec unfolding recoverable_def s fst_conv snd_conv by blast
  obtain l where l: "log_state E new (that, w) l" using step(1) by (auto simp: in_step_def)
  have sync: "synced (wal_node (l, w))" using step(2) l by (simp add: log_synced_def log_state_def)
  have acc: "accepts (index E) base new (inner that)" using step(1) by (simp add: in_step_def)
  note find = find [unfolded s snd_conv]
  note snap = found_snapshot [OF find inv(5,3)]
  note log = found_log [OF find inv(5) l inv(6) sync]
  have new: "readable E new" using small readable_parts inv(1) by blast
  note ld = load_in_step [OF calm snap(3) validated enabled snap(1) inv(4) log(1) new acc]
  let ?new = "\<lparr>inner = inner that, config = cfg, storage_of = std_fs_storage,
      wal_of = Some (reopened_log cfg v)\<rparr> :: ('i, 'ie) persisted"
  have "log_synced (?new, v)"
    using log(2) by (simp add: log_synced_def reopened_log_def Let_def new_wal_def wal_node_def wal_ino_def)
  then have "recoverable E cfg i rs (?new, v)"
    unfolding recoverable_def using inv(1,2,4) snap ld(2)
    by (intro exI [of _ base] exI [of _ old] exI [of _ new] exI [of _ bytes]) simp
  then show thesis by (intro that [OF ld(1)]) (simp_all add: s)
qed

lemma lifetime_recoverable:
  assumes "lifetime E cfg i rs s" and "readable E rs" and "stays_valid E cfg wf payload i rs"
  shows "recoverable E cfg i rs s"
  using assms
proof (induction rule: lifetime.induct)
  case (opened w this w')
  from opened_recoverable [OF opened.hyps opened.prems(2)] show ?case .
next
  case (acked rs s r s')
  have "recoverable E cfg i rs s"
    by (rule acked.IH [OF conjunct1 [OF readable_parts [OF acked.prems(1)]] stays_valid_prefix [OF acked.prems(2)]])
  from mutate_recoverable(1) [OF this acked.hyps(3) refl acked.hyps(2)] show ?case .
next
  case (refused rs s r e s')
  from mutate_recoverable(2) [OF refused.IH [OF refused.prems] refused.hyps(2) refl] show ?case .
next
  case (checkpointed rs s s')
  from checkpoint_recoverable [OF checkpointed.IH [OF checkpointed.prems] checkpointed.hyps(2,3) checkpointed.prems(2)]
  show ?case .
next
  case (interrupted rs s r res s' v that v' s'')
  have "stays_valid E cfg wf payload i rs" 
    using interrupted.prems(2) stays_valid_prefix [of E cfg wf payload i rs "[r]"] by (auto split: if_splits)
  from interrupted.IH [OF conjunct1 [OF readable_parts [OF interrupted.hyps(2)]] this] show ?case
    by (rule interrupted_recoverable [OF _ interrupted.hyps(3-5,2,6-8) refl interrupted.prems(2)])
next
  case (restarted rs s v this v')
  obtain new where "load E cfg v = (Inr new, v)" and "recoverable E cfg i rs (new, v)"
    by (rule load_recoverable [OF restarted.IH [OF restarted.prems] restarted.hyps(2,3) restarted.prems(1)])
  with restarted.hyps(4) show ?case by simp
qed

end

subsection \<open>When nothing fails\<close>

lemma wal_create_sure:
  assumes "calm w" and "\<not> dirs w (wal_path p)" and "parent_exists w (wal_path p)"
  shows "\<exists>l w'. wal_create p policy w = (Inr l :: ('ie, wal) result, w') \<and> calm w' \<and>
    dirs w' = dirs w \<and> cfg_unix w' = cfg_unix w \<and> (\<forall>q. q \<noteq> wal_path p \<longrightarrow> names w' q = names w q)"
proof -
  obtain h w1 where op: "fs_open_rw True (wal_path p) w = (Inr h, w1)" and "calm w1"
    and w1: "dirs w1 = dirs w" "cfg_unix w1 = cfg_unix w" "\<forall>q. q \<noteq> wal_path p \<longrightarrow> names w1 q = names w q"
    using assms
    by (cases "names w (wal_path p)")
      (auto simp: fs_open_rw_def call_def draw_calm new_file_def set_name_def set_node_def calm_def)
  have "sure (sbind wal_write_header (\<lambda>_. sync_now) :: ('ie, unit) wal_prog)" by (intro surely)
  then obtain x s' where "sbind wal_write_header (\<lambda>_. sync_now) (new_wal h (wal_path p) policy, w1) =
      (Inr x :: ('ie, unit) result, s')" "calm (snd s')" "in_place w1 (snd s')"
    using \<open>calm w1\<close> by (metis sureE snd_conv)
  then show ?thesis
    using w1 by (cases s') (simp add: in_place_def wal_create_def Let_def sbind_def smap_err_def op returning_wal_def)
qed

lemma mutate_sure:
  assumes "calm w" and "wal_of this = Some l" and "record_ok (metadata E) r"
    and "apply_record (index E) r (inner this) = (Inr (), i)"
  shows "\<exists>s'. mutate (E :: ('i, 'm, 'ie) env) r (this, w) = (Inr (), s') \<and> calm (snd s') \<and> inner (fst s') = i \<and>
    in_place w (snd s')"
proof -
  have "sure (mark :: ('ie, nat) wal_prog)" by (intro surely)
  then obtain m s1 where m: "mark (l, w) = (Inr m :: ('ie, nat) result, s1)" "calm (snd s1)" "in_place w (snd s1)"
    using assms(1) by (metis sureE snd_conv)
  obtain l2 w2 where a: "append_record (crc_hash E) (metadata E) r s1 = (Inr () :: ('ie, unit) result, (l2, w2))" "calm w2"
      "in_place (snd s1) w2"
    using append_record_sure [OF m(2) assms(3)] by (metis prod.exhaust snd_conv)
  show ?thesis
    unfolding mutate_eq
    using log_then_apply_steps(3) [where f = "append_record (crc_hash E) (metadata E) r" and g = "apply_record (index E) r",
      OF assms(2) m(1) a(1) assms(4)] a(2) in_place_trans [OF m(3) a(3)] by auto
qed

subsection \<open>The contract\<close>

text \<open>The mock in WAL mode, and a row for it.\<close>

definition mock_wal_config :: persist_config where
  "mock_wal_config = (config_new db_path)\<lparr>wal_enabled := True\<rparr>"

definition mock_row :: "bool list wal_record" where
  "mock_row = Insert (U64 1) [1, 2, 3] None"

lemma mock_wal_config_simps [simp]:
  "cfg_path mock_wal_config = db_path" "cfg_compression mock_wal_config = NoCompression" "wal_enabled mock_wal_config"
  "cfg_fsync_policy mock_wal_config = Always" "validate_config C mock_wal_config = Inr ()"
  by (simp_all add: mock_wal_config_def config_new_def validate_config_def)

interpretation mock_wal: wal_use mock_env "mock_wf U64_MAX" mock_payload mock_wal_config
  by unfold_locales simp_all

lemma mock_row_loggable: "loggable flag_ops mock_row"
  using flag_ops_ok by (simp add: loggable_def mock_row_def record_ok_def component_image_def MAX_RECORD_LEN_def)

lemma mock_row_readable: "readable (mock_env :: (mock_index, bool list, unit) env) [mock_row]"
  using mock_row_loggable
  by (simp add: readable_def mock_env_def MAX_RECORD_LEN_def U64_MAX_def wal_log_def length_frame_image
      mock_row_def component_image_def)

lemma mock_apply_row [simp]:
  "apply_record (index mock_env) mock_row (mock_at n) = (Inr (), mock_at (Suc n))"
  "right_dim (index mock_env) mock_row (mock_at n)"
  by (simp_all add: mock_row_def mock_env_def mock_ops_def mock_insert_def mock_at_def)

lemma mock_row_valid: "stays_valid mock_env mock_wal_config (mock_wf U64_MAX) mock_payload (mock_at 0) [mock_row]"
  unfolding stays_valid_def
proof (intro allI impI)
  fix n j
  assume "accepts (index mock_env) (mock_at 0) (take n [mock_row]) j"
  then have "j = mock_at 0 \<or> j = mock_at 1" by (cases n) auto
  then show "mock_wf U64_MAX j \<and> reloadable mock_env (cfg_compression mock_wal_config) (mock_payload j)"
    using mock_at_wf [of 0] mock_at_wf [of 1] by auto
qed

lemma mock_opens:
  "\<exists>this w. open_with mock_env (mock_at 0) mock_wal_config (example_world []) =
    (Inr this :: (unit, (mock_index, unit) persisted) result, w) \<and> calm w"
proof -
  let ?E = "mock_env :: (mock_index, bool list, unit) env"
  let ?t = "\<lparr>inner = mock_at 0, config = mock_wal_config, storage_of = std_fs_storage, wal_of = None\<rparr> :: (mock_index, unit) persisted"
  obtain bytes where img: "snapshot_image ?E ?t = Inr bytes"
    by (rule mock_snapshots.snapshot_image_Inr [of ?t "mock_payload (mock_at 0)"]) (simp_all add: mock_at_wf)
  have f: "path_file_name db_path = Some ''index.iqdb''" by (simp add: db_path_def)
  obtain w1 where save: "std_write_atomic db_path bytes Always (example_world []) = (Inr () :: (unit, unit) result, w1)"
    and w1: "dirs w1 = dirs (example_world [])" "calm w1"
    using std_write_atomic_run [OF example_can_save f, where payload = bytes and policy = Always and 'ie = unit]
    by (auto simp: target_dir_def db_path_def)
  have "\<not> dirs w1 (wal_path db_path)" "parent_exists w1 (wal_path db_path)"
    unfolding w1(1) wal_path_db parent_exists_def by (simp_all add: w1(1) example_world_def)
  then obtain l w2 where "wal_create db_path Always w1 = (Inr l :: (unit, wal) result, w2)" "calm w2"
    using wal_create_sure [OF w1(2)] by blast
  then show ?thesis
    using save img
    by (intro exI [of _ "?t\<lparr>wal_of := Some l\<rparr>"] exI [of _ w2])
      (simp add: open_with_def open_with_storage_def Let_def write_snapshot_def sbind_def std_fs_storage_def)
qed

text \<open>A life with one acknowledged row.\<close>

lemma mock_first_row:
  assumes op: "open_with (mock_env :: (mock_index, bool list, unit) env) (mock_at 0) mock_wal_config (example_world []) =
      (Inr this, w)" "calm w"
  shows "\<exists>that v. lifetime (mock_env :: (mock_index, bool list, unit) env) mock_wal_config (mock_at 0) [mock_row] (that, v) \<and>
    calm v \<and> inner that = mock_at 1 \<and> in_place w v"
proof -
  let ?E = "mock_env :: (mock_index, bool list, unit) env"
  have life: "lifetime ?E mock_wal_config (mock_at 0) [] (this, w)"
    using op by (intro lifetime.opened [OF example_world_ok]) (simp_all add: example_world_def)
  then have rec: "recoverable ?E mock_wal_config (mock_at 0) [] (this, w)"
    using readable_parts [of ?E "[]" "[mock_row]"] stays_valid_prefix [of ?E mock_wal_config _ _ _ "[]" "[mock_row]"]
      mock_row_readable mock_row_valid
    by (intro mock_wal.lifetime_recoverable) simp_all
  then obtain l where l: "wal_of this = Some l" and i: "inner this = mock_at 0"
    by (auto simp: recoverable_def in_step_def log_state_def)
  have "record_ok (metadata ?E) mock_row" using loggable_record_ok [OF mock_row_loggable] by (simp add: mock_env_def)
  from mutate_sure [OF op(2) l this, of "mock_at 1"] i obtain s where
    m: "mutate ?E mock_row (this, w) = (Inr (), s)" "calm (snd s)" "inner (fst s) = mock_at 1" "in_place w (snd s)" by auto
  have "lifetime ?E mock_wal_config (mock_at 0) ([] @ [mock_row]) s"
    by (rule lifetime.acked [OF life _ m(1)]) (simp add: i)
  with m show ?thesis by (cases s) auto
qed

lemma mock_life:
  "\<exists>this w. lifetime (mock_env :: (mock_index, bool list, unit) env) mock_wal_config (mock_at 0) [mock_row] (this, w) \<and>
    calm w \<and> inner this = mock_at 1"
  using mock_opens mock_first_row by blast

text \<open>
  C1. The recovery contract.  Take any life of a database in WAL mode under \<open>Always\<close> on unix:
  opened, mutated, checkpointed, crashed and loaded again in any order, mutations that
  stopped half-way included when the load behind them is followed by a checkpoint.  Loading
  it from what a crash at this point leaves (its log's directory entry included) succeeds and
  gives the index that was in memory, which is the first one with exactly the acknowledged
  mutations applied in order (and of the interrupted ones those that a load brought back):
  none is lost, none applied twice, no refused one reappears.  A checkpoint or an \<open>open_with\<close>
  that is itself interrupted is not a step of a life.
\<close>

theorem recovery_contract:
  fixes E :: "('i, 'm, 'ie) env"
  assumes lawful: "snapshots E valid payload"
    and cfg: "wal_enabled cfg" "cfg_fsync_policy cfg = Always"
      "validate_config (codecs E) cfg = (Inr () :: ('ie, unit) result)"
    and life: "lifetime E cfg i rs s" "readable E rs" "stays_valid E cfg valid payload i rs"
    and found: "may_find cfg (snd s) v" "calm v"
  shows "\<exists>this. load E cfg v = (Inr this, v) \<and> inner this = inner (fst s) \<and> accepts (index E) i rs (inner this)"
proof -
  have use: "wal_use E valid payload cfg"
    using lawful cfg by (simp add: wal_use_def wal_use_axioms_def)
  note rec = wal_use.lifetime_recoverable [OF use life]
  obtain this where "load E cfg v = (Inr this, v)" and "inner this = inner (fst s)"
    by (rule wal_use.load_recoverable [OF use rec found life(2)])
  with recoverable_accepts [OF rec] show ?thesis by auto
qed

theorem recovery_contract_witness:
  "\<exists>this w v that. lifetime (mock_env :: (mock_index, bool list, unit) env) mock_wal_config (mock_at 0) [mock_row] (this, w) \<and>
    crash w v \<and> load (mock_env :: (mock_index, bool list, unit) env) mock_wal_config v = (Inr that, v) \<and>
    inner that = mock_at 1"
proof -
  let ?E = "mock_env :: (mock_index, bool list, unit) env"
  obtain this w where life: "lifetime ?E mock_wal_config (mock_at 0) [mock_row] (this, w)" "calm w" "inner this = mock_at 1"
    using mock_life by blast
  have "fs_ok w"
    using recoverable_fs_ok [OF mock_wal.lifetime_recoverable [OF life(1) mock_row_readable mock_row_valid]] by simp
  then obtain v where v: "crash w v" "names v = names w" "calm v"
    using crash_total [of w] life(2) by (auto simp: calm_def)
  then have "may_find mock_wal_config w v" by (simp add: may_find_def)
  from recovery_contract [OF mock_snapshots.snapshots_axioms _ _ _ life(1) mock_row_readable mock_row_valid _ v(3)] this
  show ?thesis using life v(1) by fastforce
qed

text \<open>
  C2. An interrupted mutation happens or does not.  In such a life, under \<open>Always\<close> on unix, let a
  mutation of the right dimension that the index accepts end in any way at all: acknowledged,
  with an error, in a partial write, by the death of the process or a power loss between any two
  calls.  The next load, of the files as they are or of what a crash leaves of them as long as
  the log's directory entry survived, succeeds, with the index as it was before or with the
  mutation applied, and with the latter if it was acknowledged.
\<close>

theorem interrupted_mutation_atomic:
  fixes E :: "('i, 'm, 'ie) env"
  assumes lawful: "snapshots E valid payload"
    and cfg: "wal_enabled cfg" "cfg_fsync_policy cfg = Always"
      "validate_config (codecs E) cfg = (Inr () :: ('ie, unit) result)"
    and life: "lifetime E cfg i rs s" "readable E (rs @ [r])" "stays_valid E cfg valid payload i rs"
    and accepted: "right_dim (index E) r (inner (fst s))" "apply_record (index E) r (inner (fst s)) = (Inr (), j)"
    and run: "mutate E r s = (res, s')" and found: "may_find cfg (snd s') v" "calm v"
  shows "\<exists>this. load E cfg v = (Inr this, v) \<and> (inner this = j \<or> res \<noteq> Inr () \<and> inner this = inner (fst s))"
proof -
  have use: "wal_use E valid payload cfg"
    using lawful cfg by (simp add: wal_use_def wal_use_axioms_def)
  have small: "readable E rs" using readable_parts [OF life(2)] by simp
  note rec = wal_use.lifetime_recoverable [OF use life(1) small life(3)]
  have "replay_one (index E) r (inner (fst s)) = (Inr (), j)" using accepted by (simp add: replay_one_ok)
  then show ?thesis
    using wal_use.interrupted_outcome [OF use rec run found life(2)]
    by (metis (no_types, lifting) case_prod_conv sum.case(2) persisted.select_convs(1))
qed

theorem interrupted_mutation_atomic_witness:
  "\<exists>s res s' v that. lifetime (mock_env :: (mock_index, bool list, unit) env) mock_wal_config (mock_at 0) [mock_row] s \<and>
    mutate (mock_env :: (mock_index, bool list, unit) env) mock_row s = (res, s') \<and> crash (snd s') v \<and>
    load (mock_env :: (mock_index, bool list, unit) env) mock_wal_config v = (Inr that, v) \<and>
    (inner that = mock_at 2 \<or> res \<noteq> Inr () \<and> inner that = mock_at 1)"
proof -
  let ?E = "mock_env :: (mock_index, bool list, unit) env"
  obtain this w where life: "lifetime ?E mock_wal_config (mock_at 0) [mock_row] (this, w)" "calm w" "inner this = mock_at 1"
    using mock_life by blast
  note rec = mock_wal.lifetime_recoverable [OF life(1) mock_row_readable mock_row_valid]
  then obtain l where l: "wal_of this = Some l" by (auto simp: recoverable_def in_step_def log_state_def)
  have "record_ok (metadata ?E) mock_row" using loggable_record_ok [OF mock_row_loggable] by (simp add: mock_env_def)
  from mutate_sure [OF life(2) l this, of "mock_at 2"] life(3) obtain s' where
    run: "mutate ?E mock_row (this, w) = (Inr (), s')" "calm (snd s')" by (auto simp: numeral_2_eq_2)
  have small: "readable ?E ([mock_row] @ [mock_row])"
    using mock_row_loggable
    by (simp add: readable_def mock_env_def MAX_RECORD_LEN_def U64_MAX_def wal_log_def length_frame_image
        mock_row_def component_image_def)
  have clean: "refuses_cleanly (index ?E)" using mock.refuses by (simp add: mock_env_def)
  obtain base new where "in_step ?E base new (this, w)" using rec by (auto simp: recoverable_def)
  from mutate_in_step(3) [OF this clean, of mock_row _ "fst s'" "snd s'"] run(1) have "fs_ok (snd s')" by auto
  then obtain v where v: "crash (snd s') v" "names v = names (snd s')" "calm v"
    using crash_total [of "snd s'"] run(2) by (auto simp: calm_def)
  then have find: "may_find mock_wal_config (snd s') v" by (simp add: may_find_def)
  have "\<exists>that. load ?E mock_wal_config v = (Inr that, v) \<and>
      (inner that = mock_at 2 \<or> (Inr () :: (unit, unit) result) \<noteq> Inr () \<and> inner that = inner (fst (this, w)))"
    by (rule interrupted_mutation_atomic [OF mock_snapshots.snapshots_axioms _ _ _ life(1) small mock_row_valid _ _ run(1) find v(3)])
      (simp_all add: life(3) numeral_2_eq_2)
  then obtain that where "load ?E mock_wal_config v = (Inr that, v)" and "inner that = mock_at 2" by auto
  with life(1) run(1) v(1) show ?thesis
    by (intro exI [of _ "(this, w)"] exI [of _ "Inr ()"] exI [of _ s'] exI [of _ v] exI [of _ that]) simp
qed

end
