(* ===== verification/Hazards.thy ===== *)
theory Hazards
  imports Lifetime
begin

section \<open>Failures, interruptions and their consequences\<close>

text \<open>
  What happens outside the lives of \<open>Lifetime\<close>: under the other sync policies, after calls
  that failed, and when the process stops between two steps of an operation.
\<close>

subsection \<open>An example disk\<close>

text \<open>
  A calm disk with the mock's empty snapshot and a log with one row, both synced; \<open>old\<close> says
  what the log's directory entry may still revert to.
\<close>

definition mock_disk :: "bytes \<Rightarrow> nat option list \<Rightarrow> world" where
  "mock_disk bytes old = (example_world [])\<lparr>
     nodes := (\<lambda>i. if i = 0 then \<lparr>data = bytes, stable = length bytes, older = []\<rparr>
       else if i = 1 then (let log = wal_log crc32_ieee flag_ops [mock_row] in
         \<lparr>data = log, stable = length log, older = []\<rparr>)
       else empty_inode),
     names := [db_path \<mapsto> 0, wal_path db_path \<mapsto> 1],
     old_names := (\<lambda>p. if p = wal_path db_path then old else []), next_ino := 2\<rparr>"

lemma mock_disk_simps:
  "calm (mock_disk bytes old)" "content (mock_disk bytes old) db_path = Some bytes"
  "content (mock_disk bytes old) (wal_path db_path) = Some (wal_log crc32_ieee flag_ops [mock_row])"
  "durable (mock_disk bytes old) db_path (Some bytes)" "cfg_unix (mock_disk bytes old)"
  "old_names (mock_disk bytes old) (wal_path db_path) = old"
  "parent_exists (mock_disk bytes old) (wal_path db_path)"
  using wal_path_neq [of db_path]
  by (simp_all add: mock_disk_def calm_def example_world_def content_def durable_def Let_def wal_path_db
      parent_exists_def del: wal_path_neq)

lemma mock_disk_ok: "set old \<subseteq> {None} \<Longrightarrow> fs_ok (mock_disk bytes old)"
  by (auto simp: fs_ok_def mock_disk_def example_world_def inode_ok_def empty_inode_def wal_path_db Let_def
      split: if_splits) (simp_all add: db_path_def)

lemma mock_disk_save: "can_save db_path (mock_disk bytes old)"
  by (simp add: can_save_def mock_disk_def example_world_def parent_exists_def db_path_def target_dir_def Let_def
      temp_name_def wal_path_db [unfolded db_path_def])

text \<open>The wrapper that \<open>load\<close> makes of it.\<close>

definition mock_loaded :: "bytes \<Rightarrow> nat option list \<Rightarrow> (mock_index, 'ie) persisted" where
  "mock_loaded bytes old = \<lparr>inner = mock_at 1, config = mock_wal_config, storage_of = std_fs_storage,
     wal_of = Some (reopened_log mock_wal_config (mock_disk bytes old))\<rparr>"

lemma mock_loaded_simps [simp]:
  "inner (mock_loaded bytes old) = mock_at 1" "config (mock_loaded bytes old) = mock_wal_config"
  "storage_of (mock_loaded bytes old) = std_fs_storage"
  "wal_of (mock_loaded bytes old) = Some (reopened_log mock_wal_config (mock_disk bytes old))"
  by (simp_all add: mock_loaded_def)

lemma mock_snapshot:
  "\<exists>bytes. decode_snapshot (mock_env :: (mock_index, bool list, unit) env) bytes = Inr (mock_at 0)"
proof -
  obtain bytes where img: "snapshot_image (mock_env :: (mock_index, bool list, unit) env) (mock_wrap 0) = Inr bytes"
    using mock_image [of 0] by auto
  have "decode_snapshot (mock_env :: (mock_index, bool list, unit) env) bytes = Inr (inner (mock_wrap 0 :: (mock_index, unit) persisted))"
    by (rule mock_snapshots.decode_saved [OF _ _ img]) (simp_all add: mock_at_wf)
  then show ?thesis by auto
qed

lemma mock_in_step:
  assumes "decode_snapshot (mock_env :: (mock_index, bool list, unit) env) bytes = Inr (mock_at 0)" and "set old \<subseteq> {None}"
  shows "in_step (mock_env :: (mock_index, bool list, unit) env) (mock_at 0) [mock_row] (mock_loaded bytes old, mock_disk bytes old)"
    and "fs_ok (mock_disk bytes old)"
    and "\<forall>l. wal_of (mock_loaded bytes old :: (mock_index, unit) persisted) = Some l \<longrightarrow>
      older (wal_node (l, mock_disk bytes old)) = []"
proof -
  show ok: "fs_ok (mock_disk bytes old)" by (rule mock_disk_ok [OF assms(2)])
  show "in_step (mock_env :: (mock_index, bool list, unit) env) (mock_at 0) [mock_row] (mock_loaded bytes old, mock_disk bytes old)"
    unfolding mock_loaded_def
    by (rule load_in_step(2) [OF _ ok, where bytes = bytes])
      (simp_all add: mock_disk_simps assms(1) mock_row_readable, simp_all add: mock_disk_simps mock_env_def)
  show "\<forall>l. wal_of (mock_loaded bytes old :: (mock_index, unit) persisted) = Some l \<longrightarrow>
      older (wal_node (l, mock_disk bytes old)) = []"
    using wal_path_neq [of db_path]
    by (simp add: reopened_log_def wal_node_def wal_ino_def new_wal_def mock_disk_def Let_def del: wal_path_neq)
qed

subsection \<open>Weaker sync policies\<close>

text \<open>A file that was only appended to since its last sync.\<close>

lemma crash_of_appends:
  assumes "crash w v" and "names v p = names w p" and "names w p = Some j" and "older (nodes w j) = []"
  shows "\<exists>k\<ge>stable (nodes w j). content v p = Some (take k (data (nodes w j)))"
proof -
  have "survives (nodes w j) (nodes v j)" using assms(1) by (simp add: crash_def)
  then show ?thesis using assms(2-4) by (auto simp: survives_def content_def)
qed

lemma accepts_take: "accepts IX i rs j \<Longrightarrow> \<exists>k. accepts IX i (take n rs) k"
  using accepts_append [of IX i "take n rs" "drop n rs" j] by auto

lemma load_after_crash:
  assumes calm: "calm v" and ok: "fs_ok v"
    and cfg: "validate_config (codecs E) cfg = (Inr () :: ('ie, unit) result)" "wal_enabled cfg"
    and snap: "content v (cfg_path cfg) = Some bytes" "decode_snapshot E bytes = Inr base"
    and log: "content v (wal_path (cfg_path cfg)) = Some (take k (wal_log (crc_hash E) (metadata E) rs))"
    and rs: "readable E rs" "accepts (index E) base rs i"
  shows "\<exists>n this. load (E :: ('i, 'm, 'ie) env) cfg v = (Inr this, v) \<and> accepts (index E) base (take n rs) (inner this)"
proof -
  obtain n where n: "whole_frames (metadata E) (k - 12) rs = take n rs" using whole_frames_prefix by blast
  have parse: "parse_records (host_umax E) (crc_hash E) (metadata E) (take k (wal_log (crc_hash E) (metadata E) rs)) =
      (Inr (take n rs) :: ('ie, 'm wal_record list) result)"
    using parse_truncated [of rs "metadata E" "host_umax E" "crc_hash E" k] rs(1) n by (simp add: readable_def)
  obtain j where j: "accepts (index E) base (take n rs) j" using accepts_take [OF rs(2)] by blast
  then have "replay_loop (index E) (take n rs) 0 base = (Inr (length (take n rs)), j)"
    by (simp add: replay_loop_accepts)
  then show ?thesis
    using load_calm [OF calm ok cfg snap log] parse j by auto
qed

text \<open>
  C5. A crash loses only the end of the log.  Let the log hold the mutations that lead from the
  snapshot's index to the one in memory, with any of its bytes not yet synced, as under
  \<open>Periodic\<close> and \<open>Never\<close>.  When it was only appended to since its last sync, the snapshot is
  durable and the crash keeps the log's directory entry, then loading succeeds, whatever part of
  the log reached the disk, and gives the index after some number of the logged mutations, in
  order: a suffix may be missing, never one in the middle, and no half mutation is applied.
\<close>

theorem crash_loses_suffix_only:
  fixes E :: "('i, 'm, 'ie) env"
  assumes cfg: "validate_config (codecs E) cfg = (Inr () :: ('ie, unit) result)" "wal_enabled cfg"
    and step: "in_step E base rs (this, w)" "config this = cfg" "readable E rs"
    and appends: "\<forall>l. wal_of this = Some l \<longrightarrow> older (wal_node (l, w)) = []"
    and snap: "durable w (cfg_path cfg) (Some bytes)" "decode_snapshot E bytes = Inr base"
    and crash: "crash w v" "names v (wal_path (cfg_path cfg)) = names w (wal_path (cfg_path cfg))" "calm v"
  shows "\<exists>n that. load E cfg v = (Inr that, v) \<and> accepts (index E) base (take n rs) (inner that)"
proof -
  obtain l where l: "log_state E rs (this, w) l" and acc: "accepts (index E) base rs (inner this)"
    using step(1) by (auto simp: in_step_def)
  then have name: "names w (wal_path (cfg_path cfg)) = Some (wal_ino (l, w))" and ok: "fs_ok w"
    and bytes: "data (nodes w (wal_ino (l, w))) = wal_log (crc_hash E) (metadata E) rs" and "wal_of this = Some l"
    using step(2) by (auto simp: log_state_def opened_def wal_ready_def wal_node_def)
  then have "older (nodes w (wal_ino (l, w))) = []" using appends by (simp add: wal_node_def)
  from crash_of_appends [OF crash(1,2) name this] bytes obtain k where
    "content v (wal_path (cfg_path cfg)) = Some (take k (wal_log (crc_hash E) (metadata E) rs))" by auto
  from load_after_crash [OF crash(3) crash_ok [OF crash(1) ok] cfg crash_durable(1) [OF crash(1) snap(1)] snap(2) this step(3) acc]
  show ?thesis by blast
qed

theorem crash_loses_suffix_only_witness:
  "\<exists>w v n that. crash w v \<and>
    load (mock_env :: (mock_index, bool list, unit) env) mock_wal_config v = (Inr that, v) \<and>
    accepts (index (mock_env :: (mock_index, bool list, unit) env)) (mock_at 0) (take n [mock_row]) (inner that)"
proof -
  let ?E = "mock_env :: (mock_index, bool list, unit) env"
  obtain bytes where dec: "decode_snapshot ?E bytes = Inr (mock_at 0)" using mock_snapshot by blast
  have old: "set [] \<subseteq> {None :: nat option}" by simp
  note disk = mock_in_step [OF dec old]
  obtain v where v: "crash (mock_disk bytes []) v" "names v = names (mock_disk bytes [])" "calm v"
    using crash_total [OF disk(2)] mock_disk_simps(1) [of bytes "[]"] by (auto simp: calm_def)
  have "\<exists>n that. load ?E mock_wal_config v = (Inr that, v) \<and> accepts (index ?E) (mock_at 0) (take n [mock_row]) (inner that)"
    by (rule crash_loses_suffix_only [OF _ _ disk(1) _ mock_row_readable disk(3) _ dec v(1) _ v(3)])
      (simp_all add: v(2) mock_disk_simps)
  with v(1) show ?thesis by blast
qed

subsection \<open>Appending behind what a failure left\<close>

text \<open>An append whose second write fails after \<open>k\<close> bytes.\<close>

lemma append_fails_midway:
  assumes ready: "wal_ready (l, w)" and ok: "record_ok M r" and k: "0 < k" "k \<le> length (record_image M r)"
    and fs: "faults w = [Proceed, Fail e k]" "\<not> down w"
  shows "\<exists>s. append_record crc M r (l, w) = (Inl (Io (w_path l) e) :: ('ie, unit) result, s) \<and> calm (snd s) \<and>
    content (snd s) (w_path l) = Some (data (wal_node (l, w)) @ take (8 + k) (frame_image crc (record_image M r)))"
proof -
  have name: "names w (w_path l) = Some (h_ino (w_file l))"
    and pos: "h_pos (w_file l) = length (data (nodes w (h_ino (w_file l))))"
    using ready by (simp_all add: wal_ready_def wal_node_def wal_ino_def)
  have len: "length (record_image M r) \<le> U32_MAX" using ok by (simp add: record_ok_def)
  have "to_le 4 v \<noteq> []" for v :: u32 by (metis length_to_le list.size(3) zero_neq_numeral)
  moreover have "take k (record_image M r) \<noteq> []" using k by auto
  ultimately show ?thesis
    using len k fs name pos
    by (simp add: append_record_eq sbind_def fill_scratch_def encode_record_ok [OF ok] commit_record_def u32_try_from_def
        compute_def on_file_def fs_write_all_def Let_def draw_def set_node_def content_def write_inode_def frame_image_def
        wal_node_def wal_ino_def calm_def min_def del: to_le.simps)
qed

text \<open>
  C34. A failed append is not rolled back.  When the write of a frame fails half-way, the
  partial frame stays in the file and the position behind it, and the log can still be used.
  When no later call fails, any number of mutations is then appended behind it, each
  acknowledged, and the next recovery replays none of them: when the length field was written,
  they are taken for the rest of the broken frame, whether they leave it incomplete or fill
  it, except when the checksum in its head happens to be the one of the bytes that fill it
  (\<open>unfilled\<close> excludes that).  (\<open>insert\<close> and \<open>delete\<close> roll back only when the index refuses.)
\<close>

theorem append_after_failed_append:
  assumes ready: "wal_ready s" "content (snd s) (w_path (fst s)) = Some (wal_log crc M rs)"
    and failed: "append_record crc M lost s = (Inl e :: ('ie, unit) result, s1)"
      "content (snd s1) (w_path (fst s)) = Some (wal_log crc M rs @ take k (frame_image crc (record_image M lost)))"
      "calm (snd s1)"
    and ok: "\<forall>r\<in>set rs. loggable M r" "record_ok M lost" "\<forall>r\<in>set rs'. record_ok M r"
    and gap: "unfilled crc k (frame_image crc (record_image M lost)) (record_frames crc M rs')"
    and size: "MAX_RECORD_LEN \<le> umax" "length (wal_log crc M (rs @ lost # rs')) \<le> umax"
  shows "\<exists>s2 bs. for_each (append_record crc M) rs' s1 = (Inr () :: ('ie, unit) result, s2) \<and>
    content (snd s2) (w_path (fst s)) = Some bs \<and>
    bs = wal_log crc M rs @ take k (frame_image crc (record_image M lost)) @ record_frames crc M rs' \<and>
    parse_records umax crc M bs = (Inr rs :: ('ie, 'm wal_record list) result)"
proof -
  let ?torn = "take k (frame_image crc (record_image M lost))"
  obtain n where adv: "advances s (take n (frame_image crc (record_image M lost))) s1"
    using append_record_effect [OF ready(1) failed(1)] by blast
  then have ready1: "wal_ready s1" and path: "w_path (fst s1) = w_path (fst s)"
    by (simp_all add: advances_def own_file_def)
  obtain s2 where run: "for_each (append_record crc M) rs' s1 = (Inr () :: ('ie, unit) result, s2)"
    and bs: "content (snd s2) (w_path (fst s)) = Some (wal_log crc M rs @ ?torn @ record_frames crc M rs')"
    using append_all_content [OF failed(3) ready1 ok(3), where crc = crc and 'ie = 'ie] failed(2) by (auto simp: path)
  have "next_frame crc (?torn @ record_frames crc M rs') = None"
    using ok(2) gap by (intro next_frame_unfilled) (simp_all add: record_ok_def)
  moreover have "length (wal_log crc M rs @ ?torn @ record_frames crc M rs') \<le> umax"
    using size(2) by (simp add: wal_log_def)
  ultimately have "parse_records umax crc M (wal_log crc M rs @ ?torn @ record_frames crc M rs') =
      (Inr rs :: ('ie, 'm wal_record list) result)"
    by (intro parse_stops [OF ok(1) size(1)])
  with run bs show ?thesis by blast
qed

theorem append_after_failed_append_witness:
  "\<exists>s e s1 s2 bs. append_record crc32_ieee flag_ops (Delete (U64 5)) s = (Inl e :: (unit, unit) result, s1) \<and>
    for_each (append_record crc32_ieee flag_ops) [Delete (U64 7), Delete (U64 9)] s1 =
      (Inr () :: (unit, unit) result, s2) \<and>
    content (snd s2) (wal_path db_path) = Some bs \<and>
    parse_records U32_MAX crc32_ieee flag_ops bs = (Inr [example_record] :: (unit, bool list wal_record list) result)"
proof -
  let ?log = "wal_log crc32_ieee flag_ops [example_record]"
  let ?lost = "Delete (U64 5) :: bool list wal_record" and ?new = "[Delete (U64 7), Delete (U64 9)] :: bool list wal_record list"
  let ?s = "example_wal [Proceed, Fail (IoError OtherKind ''disk full'') 4] ?log"
  obtain l w where s: "?s = (l, w)" by (cases ?s)
  then have ready: "wal_ready (l, w)" by (metis example_wal_ready)
  have path: "w_path l = wal_path db_path" and w: "faults w = [Proceed, Fail (IoError OtherKind ''disk full'') 4]" "\<not> down w"
    and node: "data (wal_node (l, w)) = ?log"
    using s by (auto simp: example_wal_def new_wal_def file_world_def example_world_def wal_node_def wal_ino_def)
  have rs: "\<forall>r\<in>set [example_record]. loggable flag_ops r" using example_record_loggable by simp
  have lost: "record_ok flag_ops ?lost" and new: "\<forall>r\<in>set ?new. record_ok flag_ops r"
    by (simp_all add: record_ok_def flag_ops_ok U32_MAX_def)
  obtain e s1 where fail: "append_record crc32_ieee flag_ops ?lost ?s = (Inl e :: (unit, unit) result, s1)"
    and calm: "calm (snd s1)" and left: "content (snd s1) (wal_path db_path) =
      Some (?log @ take 12 (frame_image crc32_ieee (record_image flag_ops ?lost)))"
    using append_fails_midway [OF ready lost _ _ w, where crc = crc32_ieee and 'ie = unit]
    unfolding s path node by auto
  have gap: "unfilled crc32_ieee 12 (frame_image crc32_ieee (record_image flag_ops ?lost))
      (record_frames crc32_ieee flag_ops ?new)"
    using example_misread by (simp add: unfilled_def)
  have len: "length (wal_log crc32_ieee flag_ops ([example_record] @ ?lost # ?new)) \<le> U32_MAX"
    by (simp add: wal_log_def example_record_length U32_MAX_def)
  have p: "w_path (fst ?s) = wal_path db_path" by (simp add: example_wal_def new_wal_def)
  show ?thesis
    using append_after_failed_append [OF example_wal_ready _ fail _ calm rs lost new gap MAX_RECORD_LEN_U32 len,
        unfolded p, OF example_wal_content left] fail
    by blast
qed

lemma next_frame_header: "next_frame crc (wal_header @ bs) = None"
proof -
  have "unat (of_le (take 4 (wal_header @ bs)) :: u32) > MAX_RECORD_LEN"
    by (simp add: wal_header_def WAL_MAGIC_def ascii_def MAX_RECORD_LEN_def)
  then show ?thesis by (simp add: next_frame_def Let_def)
qed

text \<open>
  C37. \<open>open_for_append\<close> takes an existence check that could not be answered for absence
  (\<open>Path::exists\<close> is false on any error): it then writes a second header behind the frames.
  The scan stops there, so everything appended from then on is acknowledged and not
  replayed.
\<close>

theorem unanswered_exists_check:
  assumes "fs_ok w" and "content w (wal_path snapshot) = Some (wal_log crc M rs)"
    and "fs_exists (wal_path snapshot) w = (False, w0)"
    and "wal_open_for_append snapshot policy w = (Inr l :: ('ie, wal) result, w1)"
    and "append_record crc M r (l, w1) = (Inr () :: ('ie, unit) result, (l', w2))"
    and "\<forall>r'\<in>set rs. loggable M r'" and "MAX_RECORD_LEN \<le> umax"
    and "length (wal_log crc M (rs @ [r])) + 12 \<le> umax"
  shows "\<exists>bs. content w2 (wal_path snapshot) = Some bs \<and>
    parse_records umax crc M bs = (Inr rs :: ('ie, 'm wal_record list) result)"
proof -
  let ?new = "frame_image crc (record_image M r)"
  have open': "opened snapshot policy (wal_log crc M rs @ wal_header) l w1"
    using wal_open_for_append_effect [OF assms(1,4,2,3)] by simp
  then have ready: "wal_ready (l, w1)" by (simp add: opened_def)
  then have now: "content w1 (wal_path snapshot) = Some (wal_log crc M rs @ wal_header)"
    using open' by (simp add: opened_def wal_ready_def content_def wal_node_def)
  have "advances (l, w1) ?new (l', w2)" using append_record_effect [OF ready assms(5)] by auto
  from advances_content [OF this ready]
  have "content w2 (wal_path snapshot) = Some (wal_log crc M rs @ wal_header @ ?new)"
    using now open' by (auto simp: opened_def)
  moreover have "parse_records umax crc M (wal_log crc M rs @ wal_header @ ?new) =
      (Inr rs :: ('ie, 'm wal_record list) result)"
    using assms(8) by (intro parse_stops [OF assms(6,7)] next_frame_header) (simp add: wal_log_def)
  ultimately show ?thesis by blast
qed

lemma draw_failing: "draw ((file_world p log)\<lparr>faults := [Fail e k]\<rparr>) = (Fails e k, file_world p log)"
  by (simp add: draw_def, simp add: file_world_def, simp add: example_world_def)

theorem unanswered_exists_check_witness:
  "\<exists>w l w1 l' w2 bs. wal_open_for_append db_path Always w = (Inr l :: (unit, wal) result, w1) \<and>
    append_record crc32_ieee flag_ops (Delete (U64 7)) (l, w1) = (Inr () :: (unit, unit) result, (l', w2)) \<and>
    content w2 (wal_path db_path) = Some bs \<and>
    parse_records U32_MAX crc32_ieee flag_ops bs = (Inr [Delete (U64 1)] :: (unit, bool list wal_record list) result)"
proof -
  let ?p = "wal_path db_path" and ?log = "wal_log crc32_ieee flag_ops [Delete (U64 1)]"
  let ?w = "(file_world ?p ?log)\<lparr>faults := [Fail (IoError OtherKind ''permission denied'') 0]\<rparr>"
  let ?d = "file_world ?p ?log"
  let ?l = "new_wal \<lparr>h_ino = 0, h_pos = 0\<rparr> ?p Always"
  have calm: "calm ?d" by (simp add: calm_def file_world_def example_world_def)
  have drawn: "draw ?w = (Fails (IoError OtherKind ''permission denied'') 0, ?d)"
    by (rule draw_failing)
  have ex: "fs_exists ?p ?w = (False, ?d)" by (simp add: fs_exists_def call_def drawn)
  have op: "fs_open_rw False ?p ?d = (Inr \<lparr>h_ino = 0, h_pos = 0\<rparr>, ?d)"
    by (simp add: fs_open_rw_def call_def draw_calm [OF calm]) (simp add: file_world_def example_world_def wal_path_db)
  have "sure (sbind (on_file fs_seek_end) (\<lambda>end_pos. sbind wal_write_header (\<lambda>_. sync_now)) :: (unit, unit) wal_prog)"
    by (intro surely)
  then obtain x s' where "sbind (on_file fs_seek_end) (\<lambda>end_pos. sbind wal_write_header (\<lambda>_. sync_now)) (?l, ?d) =
      (Inr x :: (unit, unit) result, s')" "calm (snd s')"
    using calm by (metis sureE snd_conv)
  then obtain l w1 where opened: "wal_open_for_append db_path Always ?w = (Inr l :: (unit, wal) result, w1)" and calm1: "calm w1"
    by (cases s') (simp add: wal_open_for_append_def Let_def ex op sbind_def smap_err_def returning_wal_def)
  have ok: "record_ok flag_ops (Delete (U64 7))"
    unfolding record_ok_def by (rule conjI [OF flag_ops_ok]) (simp add: U32_MAX_def)
  obtain l' w2 where app: "append_record crc32_ieee flag_ops (Delete (U64 7)) (l, w1) = (Inr () :: (unit, unit) result, (l', w2))"
    using append_record_sure [OF _ ok, where s = "(l, w1)" and crc = crc32_ieee and 'ie = unit] calm1
    by (metis snd_conv prod.exhaust)
  have rs: "\<forall>r'\<in>set [Delete (U64 1)]. loggable flag_ops r'"
    using flag_ops_ok by (simp add: loggable_def MAX_RECORD_LEN_def)
  have len: "length (wal_log crc32_ieee flag_ops ([Delete (U64 1)] @ [Delete (U64 7)])) + 12 \<le> U32_MAX"
    by (simp add: wal_log_def U32_MAX_def)
  have now: "content ?w ?p = Some ?log" and fine: "fs_ok ?w"
    using file_world_content [of ?p ?log] example_wal_world_ok [of ?log] by (simp_all add: content_def)
  from unanswered_exists_check [OF fine now ex opened app rs MAX_RECORD_LEN_U32 len] opened app show ?thesis by blast
qed

subsection \<open>Interrupted operations\<close>

lemma found_quietly:
  assumes "quiet w v" and "in_step E base rs (this, w)" and "config this = cfg"
  shows "fs_ok v" and "content v (wal_path (cfg_path cfg)) = Some (wal_log (crc_hash E) (metadata E) rs)"
proof -
  obtain l where l: "log_state E rs (this, w) l" using assms(2) by (auto simp: in_step_def)
  then have "fs_ok w" by (simp add: log_state_def opened_def wal_ready_def)
  then show "fs_ok v" by (simp add: quietD [OF assms(1)])
  show "content v (wal_path (cfg_path cfg)) = Some (wal_log (crc_hash E) (metadata E) rs)"
    using log_state_content [OF l] assms(3) by (simp add: quietD [OF assms(1)])
qed

lemma write_snapshot_in_step:
  assumes "in_step E base rs (this, w)" and "storage_of this = std_fs_storage"
    and "write_snapshot (E :: ('i, 'm, 'ie) env) this w = (Inr (), w1)"
  obtains bytes where "snapshot_image E this = Inr bytes" and "content w1 (cfg_path (config this)) = Some bytes"
    and "in_step E base rs (this, w1)"
proof -
  let ?p = "cfg_path (config this)"
  obtain l where l: "log_state E rs (this, w) l" and acc: "accepts (index E) base rs (inner this)"
    using assms(1) by (auto simp: in_step_def)
  then have op: "opened ?p (cfg_fsync_policy (config this)) (wal_log (crc_hash E) (metadata E) rs) l w" and wal: "wal_of this = Some l"
    by (simp_all add: log_state_def)
  then have ok: "fs_ok w" and name: "names w (wal_path ?p) = Some (wal_ino (l, w))"
    by (auto simp: opened_def wal_ready_def)
  obtain bytes where img: "snapshot_image E this = Inr bytes"
    and out: "atomic_outcome ?p bytes (cfg_fsync_policy (config this)) w (Inr () :: ('ie, unit) result) w1"
    using write_snapshot_cases [OF assms(3,2) ok] by auto
  then have ok1: "fs_ok w1" and sp: "spares ?p w w1" and now: "content w1 ?p = Some bytes"
    by (simp_all add: atomic_outcome_def)
  have "log_state E rs (this, w1) l"
    using op wal ok1 sparesD [OF sp wal_path_neq name]
    by (simp add: log_state_def opened_def wal_ready_def wal_node_def wal_ino_def)
  then show thesis using img now acc by (intro that) (auto simp: in_step_def)
qed





subsection \<open>Progress\<close>

text \<open>
  C9. Mutations make progress.  When no call fails, a mutation that fits a frame and that the
  index accepts is acknowledged: it is in the log, the index is the new one, and under
  \<open>Always\<close> the log is synced.
\<close>

theorem mutation_succeeds:
  fixes E :: "('i, 'm, 'ie) env"
  assumes step: "in_step E base rs (this, w)" and clean: "refuses_cleanly (index E)" and calm: "calm w"
    and fits: "record_ok (metadata E) r" "right_dim (index E) r (inner this)"
    and accepted: "apply_record (index E) r (inner this) = (Inr (), i)"
  shows "\<exists>this' w'. mutate E r (this, w) = (Inr (), (this', w')) \<and> inner this' = i \<and> calm w' \<and>
    in_step E base (rs @ [r]) (this', w') \<and>
    (cfg_fsync_policy (config this) = Always \<longrightarrow> log_synced (this', w'))"
proof -
  obtain l where l: "wal_of this = Some l" using step by (auto simp: in_step_def log_state_def)
  from mutate_sure [OF calm l fits(1) accepted] obtain this' w' where
    run: "mutate E r (this, w) = (Inr (), (this', w'))" "inner this' = i" "calm w'"
    by (metis prod.exhaust fst_conv snd_conv)
  note eff = mutate_in_step [OF step clean run(1)]
  show ?thesis using run eff(8) [OF refl fits(2)] eff(9) [OF refl] by blast
qed

theorem mutation_succeeds_witness:
  "\<exists>this w this' w'. mutate (mock_env :: (mock_index, bool list, unit) env) mock_row (this, w) = (Inr (), (this', w')) \<and>
    in_step (mock_env :: (mock_index, bool list, unit) env) (mock_at 0) [mock_row, mock_row] (this', w') \<and>
    log_synced (this', w')"
proof -
  let ?E = "mock_env :: (mock_index, bool list, unit) env"
  obtain bytes where dec: "decode_snapshot ?E bytes = Inr (mock_at 0)" using mock_snapshot by blast
  have old: "set [] \<subseteq> {None :: nat option}" by simp
  note disk = mock_in_step [OF dec old]
  have clean: "refuses_cleanly (index ?E)" using mock.refuses by (simp add: mock_env_def)
  have fits: "record_ok (metadata ?E) mock_row" using loggable_record_ok [OF mock_row_loggable] by (simp add: mock_env_def)
  have acc: "right_dim (index ?E) mock_row (inner (mock_loaded bytes [] :: (mock_index, unit) persisted))"
      "apply_record (index ?E) mock_row (inner (mock_loaded bytes [] :: (mock_index, unit) persisted)) = (Inr (), mock_at 2)"
    by (simp_all add: numeral_2_eq_2)
  from mutation_succeeds [OF disk(1) clean mock_disk_simps(1) fits acc] show ?thesis by auto
qed

end
