(* ===== verification/Sessions.thy ===== *)
theory Sessions
  imports Lifetime
begin

section \<open>Sessions: the persisted database against the index in memory\<close>

text \<open>
  A session is a script of mutations, checkpoints and restarts, run on the wrapper in WAL
  mode.  When no call fails the script runs to its end, and the index is the one the same
  mutations give without any persistence.  \<open>room\<close> is what the file system has to offer: the
  directory of the snapshot, and no directory or temporary file in the way.
\<close>

definition room :: "path \<Rightarrow> world \<Rightarrow> bool" where
  "room p w \<longleftrightarrow> cfg_unix w \<and> parent_exists w p \<and> \<not> dirs w p \<and> \<not> dirs w (wal_path p) \<and>
     (\<forall>f pid n. path_file_name p = Some f \<longrightarrow>
        (let t = path_join (target_dir p) (temp_name f pid n) in names w t = None \<and> \<not> dirs w t))"

text \<open>A path inside a named directory.\<close>

definition placed :: "path \<Rightarrow> bool" where
  "placed p \<longleftrightarrow> path_file_name p \<noteq> None \<and> path_parent p \<noteq> Some (Path False [])"

lemma room_can_save: "room p w \<Longrightarrow> calm w \<Longrightarrow> can_save p w"
  by (auto simp: room_def can_save_def calm_def Let_def)

lemma placed_parent:
  assumes "placed p"
  shows "path_parent p = Some (target_dir p)" and "path_parent (wal_path p) = path_parent p"
    and "target_dir p \<noteq> Path False []"
  using assms by (cases p; auto simp: placed_def target_dir_def wal_path_def split: if_splits)+

lemma temp_neq:
  assumes "path_file_name p = Some f"
  shows "path_join (target_dir p) (temp_name f pid n) \<noteq> p"
    and "path_join (target_dir p) (temp_name f pid n) \<noteq> wal_path p"
proof -
  show "path_join (target_dir p) (temp_name f pid n) \<noteq> p"
    using assms by (intro join_neq_target) (simp_all add: temp_name_def)
  show "path_join (target_dir p) (temp_name f pid n) \<noteq> wal_path p"
    using assms by (cases p) (auto simp: wal_path_def target_dir_def temp_name_def split: if_splits)
qed

lemma room_again:
  assumes "room p w" and "dirs v = dirs w" and "cfg_unix v = cfg_unix w"
    and "\<forall>q. q \<noteq> p \<longrightarrow> q \<noteq> wal_path p \<longrightarrow> names v q = names w q"
  shows "room p v"
  using assms temp_neq [of p] by (auto simp: room_def parent_exists_def Let_def split: option.splits)

lemma room_in_place: "room p w \<Longrightarrow> in_place w v \<Longrightarrow> room p v"
  using room_again [of p w v] by (simp add: in_place_def)

subsection \<open>The steps of a session\<close>

lemma write_snapshot_sure:
  assumes "calm w" and "room (cfg_path (config this)) w" and "placed (cfg_path (config this))"
    and "storage_of this = std_fs_storage" and "snapshot_image E this = Inr bytes"
  shows "\<exists>v. write_snapshot E this w = (Inr () :: ('ie, unit) result, v) \<and> calm v \<and> room (cfg_path (config this)) v \<and>
    dirs v = dirs w \<and> (\<forall>q. q \<noteq> cfg_path (config this) \<longrightarrow> names v q = names w q)"
proof -
  let ?p = "cfg_path (config this)"
  obtain f where f: "path_file_name ?p = Some f" using assms(3) by (auto simp: placed_def)
  obtain v where "std_write_atomic ?p bytes (cfg_fsync_policy (config this)) w = (Inr () :: ('ie, unit) result, v)"
    and v: "calm v" "dirs v = dirs w" "names v = (names w)(?p \<mapsto> next_ino w)" "cfg_unix v = cfg_unix w"
    using std_write_atomic_run [OF room_can_save [OF assms(2,1)] f, where payload = bytes
        and policy = "cfg_fsync_policy (config this)" and 'ie = 'ie] placed_parent(3) [OF assms(3)]
    by auto
  moreover have "room ?p v" using v by (intro room_again [OF assms(2)]) simp_all
  ultimately show ?thesis using assms(4,5) v(2,3) by (simp add: write_snapshot_def std_fs_storage_def)
qed

lemma open_with_sure:
  assumes calm: "calm w" and room: "room (cfg_path cfg) w" and placed: "placed (cfg_path cfg)"
    and cfg: "wal_enabled cfg" "validate_config (codecs E) cfg = (Inr () :: ('ie, unit) result)"
    and img: "snapshot_image E \<lparr>inner = i, config = cfg, storage_of = std_fs_storage, wal_of = None\<rparr> =
      (Inr bytes :: ('ie, bytes) result)"
  shows "\<exists>this v. open_with E i cfg w = (Inr this :: ('ie, ('i, 'ie) persisted) result, v) \<and> calm v \<and> room (cfg_path cfg) v"
proof -
  let ?t = "\<lparr>inner = i, config = cfg, storage_of = std_fs_storage, wal_of = None\<rparr> :: ('i, 'ie) persisted"
  obtain w1 where snap: "write_snapshot E ?t w = (Inr () :: ('ie, unit) result, w1)" and w1: "calm w1" "room (cfg_path cfg) w1"
    using write_snapshot_sure [of w ?t E bytes] calm room placed img by auto
  have "\<not> dirs w1 (wal_path (cfg_path cfg))" and "parent_exists w1 (wal_path (cfg_path cfg))"
    using w1(2) placed_parent(1,2) [OF placed] by (simp_all add: room_def parent_exists_def)
  then obtain l v where wal: "wal_create (cfg_path cfg) (cfg_fsync_policy cfg) w1 = (Inr l :: ('ie, wal) result, v)"
    and v: "calm v" "dirs v = dirs w1" "cfg_unix v = cfg_unix w1" "\<forall>q. q \<noteq> wal_path (cfg_path cfg) \<longrightarrow> names v q = names w1 q"
    using wal_create_sure [OF w1(1)] by blast
  then have "room (cfg_path cfg) v" by (intro room_again [OF w1(2)]) simp_all
  with snap wal v(1) cfg show ?thesis
    by (intro exI [of _ "?t\<lparr>wal_of := Some l\<rparr>"] exI [of _ v]) (simp add: open_with_def open_with_storage_def Let_def sbind_def)
qed

lemma checkpoint_sure:
  assumes "calm w" and "room (cfg_path (config this)) w" and "placed (cfg_path (config this))"
    and "storage_of this = std_fs_storage" and "snapshot_image E this = Inr bytes" and wal: "wal_of this = Some l"
  shows "\<exists>s'. checkpoint E (this, w) = (Inr () :: ('ie, unit) result, s') \<and> calm (snd s') \<and>
    room (cfg_path (config this)) (snd s')"
proof -
  obtain w1 where snap: "write_snapshot E this w = (Inr () :: ('ie, unit) result, w1)"
    and w1: "calm w1" "room (cfg_path (config this)) w1"
    using write_snapshot_sure [OF assms(1-5)] by blast
  have sure: "sure (wal_reset :: ('ie, unit) wal_prog)" by (rule sure_cuts)
  obtain x l' w2 where reset: "wal_reset (l, w1) = (Inr x :: ('ie, unit) result, (l', w2))" and w2: "calm w2" "in_place w1 w2"
    using sureE [OF sure, of "(l, w1)"] w1(1) by (metis prod.exhaust snd_conv)
  show ?thesis
    using snap wal reset w2 room_in_place [OF w1(2) w2(2)] by (simp add: checkpoint_def)
qed

subsection \<open>Snapshot-only mode\<close>

lemma config_new_simps [simp]:
  "cfg_path (config_new p) = p" "cfg_compression (config_new p) = NoCompression" "\<not> wal_enabled (config_new p)"
  "cfg_fsync_policy (config_new p) = Always" "validate_config C (config_new p) = Inr ()"
  by (simp_all add: config_new_def validate_config_def)

text \<open>Wrapped around \<open>i\<close> and saved.\<close>

definition wrapper_of :: "path \<Rightarrow> 'i \<Rightarrow> ('i, 'ie) persisted" where
  "wrapper_of p i = \<lparr>inner = i, config = config_new p, storage_of = std_fs_storage, wal_of = None\<rparr>"

lemma wrapper_of_simps [simp]:
  "inner (wrapper_of p i) = i" "config (wrapper_of p i) = config_new p" "storage_of (wrapper_of p i) = std_fs_storage"
  by (simp_all add: wrapper_of_def)

text \<open>A session without a log under any configuration that is accepted.\<close>

lemma saved_under:
  fixes E :: "('i, 'm, 'ie) env"
  defines "wrapped \<equiv> \<lambda>i cfg. \<lparr>inner = i, config = cfg, storage_of = std_fs_storage, wal_of = None\<rparr> :: ('i, 'ie) persisted"
  assumes snap: "snapshots E valid payload" and valid: "valid i"
    and cfg: "validate_config (codecs E) cfg = (Inr () :: ('ie, unit) result)" "\<not> wal_enabled cfg"
    and enc: "encode (codecs E) (cfg_compression cfg) (payload i) = (Inr packed :: ('ie, bytes) result)"
      "\<not> too_dense (host_umax E) (cfg_compression cfg) (payload i) packed"
    and world: "fs_ok w" "calm w" "room (cfg_path cfg) w" "placed (cfg_path cfg)"
  obtains bytes v where "open_with E i cfg w = (Inr (wrapped i cfg), w)" and "save E (wrapped i cfg) w = (Inr (), v)"
    and "decode_snapshot E bytes = Inr i" and "41 + length (INDEX_TYPE (index E)) < length bytes"
    and "calm v" "fs_ok v" "room (cfg_path cfg) v" "content v (cfg_path cfg) = Some bytes" "dirs v = dirs w"
    and "snapshot_image E (wrapped i cfg) = Inr bytes" and "\<forall>q. q \<noteq> cfg_path cfg \<longrightarrow> names v q = names w q"
    and "spares (cfg_path cfg) w v"
proof -
  let ?t = "wrapped i cfg" and ?region = "region_of (cfg_compression cfg) (payload i) packed"
  have t: "inner ?t = i" "config ?t = cfg" "storage_of ?t = std_fs_storage" by (simp_all add: wrapped_def)
  obtain bytes tag where img: "snapshot_image E ?t = Inr bytes"
    and bytes: "bytes = header_image tag (header_of E i ?region) @ ?region"
    by (rule snapshots.snapshot_image_Inr [OF snap, of ?t, unfolded t, OF valid enc(1)]) auto
  have long: "41 + length (INDEX_TYPE (index E)) < length bytes"
    by (simp add: bytes length_header_image header_of_def region_of_def)
  have "reloadable E (cfg_compression cfg) (payload i)" using enc by (simp add: reloadable_def)
  then have dec: "decode_snapshot E bytes = Inr i"
    using snapshots.decode_saved [OF snap, of ?t, unfolded t, OF valid _ img] by simp
  obtain v where run: "write_snapshot E ?t w = (Inr (), v)" and v: "calm v" "room (cfg_path cfg) v" "dirs v = dirs w"
      "\<forall>q. q \<noteq> cfg_path cfg \<longrightarrow> names v q = names w q"
    using write_snapshot_sure [of w ?t E bytes, unfolded t] world img by auto
  have "fs_ok v" and "content v (cfg_path cfg) = Some bytes" and "spares (cfg_path cfg) w v"
    using write_snapshot_cases [OF run t(3) world(1)] img by (auto simp: atomic_outcome_def t)
  moreover have "open_with E i cfg w = (Inr ?t, w)"
    using cfg by (simp add: open_with_def open_with_storage_def sbind_def slift_def sret_def Let_def wrapped_def)
  ultimately show thesis using run dec long v cfg(2) img by (intro that [of v bytes]) (simp_all add: save_def t)
qed

lemma opened_saved:
  fixes E :: "('i, 'm, 'ie) env"
  assumes snap: "snapshots E valid payload" and valid: "valid i"
    and world: "fs_ok w" "calm w" "room p w" "placed p"
  obtains bytes v where "open_with E i (config_new p) w = (Inr (wrapper_of p i), w)"
    and "save E (wrapper_of p i) w = (Inr (), v)" and "decode_snapshot E bytes = Inr i"
    and "41 + length (INDEX_TYPE (index E)) < length bytes" and "calm v" "fs_ok v" "room p v" "content v p = Some bytes"
  by (rule saved_under [OF snap valid, of "config_new p" "payload i" w, unfolded config_new_simps])
    (use world that in \<open>auto simp: wrapper_of_def too_dense_def\<close>)

lemma load_calm_snapshot:
  assumes "calm v" "fs_ok v" "content v p = Some bytes" "decode_snapshot E bytes = Inr i"
  shows "load E (config_new p) v = (Inr (wrapper_of p i), v)"
  using load_snapshot_only [of v "config_new p" bytes E i] assms by (simp add: wrapper_of_def)

lemma load_calm_refused:
  assumes "calm v" "fs_ok v" "content v p = Some bytes" "decode_snapshot E bytes = Inl e"
  shows "load E (config_new p) v = (Inl e, v)"
  using assms by (simp add: load_def load_with_storage_def sbind_def slift_def std_read_all_calm)

subsection \<open>Scripts\<close>

datatype 'm action = Mutation "'m wal_record" | Checkpoint | Restart

text \<open>A restart drops the wrapper and loads it again with the same configuration.\<close>

fun perform :: "('i, 'm, 'ie) env \<Rightarrow> 'm action \<Rightarrow> ('i, 'ie, unit) wrapper_prog" where
  "perform E (Mutation r) s = mutate E r s"
| "perform E Checkpoint s = checkpoint E s"
| "perform E Restart s =
     (case load E (config (fst s)) (snd s) of
        (Inl e, w) \<Rightarrow> (Inl e, (fst s, w))
      | (Inr this, w) \<Rightarrow> (Inr (), (this, w)))"

fun perform_all :: "('i, 'm, 'ie) env \<Rightarrow> 'm action list \<Rightarrow> ('i, 'ie, unit) wrapper_prog" where
  "perform_all E [] = sret ()"
| "perform_all E (a # as) = sbind (perform E a) (\<lambda>_. perform_all E as)"

fun mutations :: "'m action list \<Rightarrow> 'm wal_record list" where
  "mutations [] = []"
| "mutations (Mutation r # as) = r # mutations as"
| "mutations (_ # as) = mutations as"

lemma mutations_Cons: "mutations (a # as) = mutations [a] @ mutations as"
  by (cases a) simp_all

text \<open>A session: open the database around an index, then run the script.\<close>

definition session ::
  "('i, 'm, 'ie) env \<Rightarrow> 'i \<Rightarrow> persist_config \<Rightarrow> 'm action list \<Rightarrow> (world, 'ie, ('i, 'ie) persisted) prog" where
  "session E i cfg as =
     sbind (open_with E i cfg) (\<lambda>this w.
       let (r, (this, w)) = perform_all E as (this, w) in (rbind r (\<lambda>_. Inr this), w))"

text \<open>A codec that compresses every payload, as \<open>None\<close> and \<open>lz4\<close> do.\<close>

definition encodes_all :: "('i, 'm, 'ie) env \<Rightarrow> persist_config \<Rightarrow> bool" where
  "encodes_all E cfg \<longleftrightarrow> (\<forall>raw. \<exists>packed. encode (codecs E) (cfg_compression cfg) raw = (Inr packed :: ('ie, bytes) result))"

definition at_rest :: "persist_config \<Rightarrow> world \<Rightarrow> bool" where
  "at_rest cfg w \<longleftrightarrow> calm w \<and> room (cfg_path cfg) w"

context wal_use
begin

lemma snapshot_image_total:
  assumes "encodes_all E cfg" and "wf (inner this)" and "config this = cfg"
  shows "\<exists>bytes. snapshot_image E this = (Inr bytes :: ('ie, bytes) result)"
proof -
  obtain packed where "encode (codecs E) (cfg_compression (config this)) (payload (inner this)) = (Inr packed :: ('ie, bytes) result)"
    using assms(1,3) by (auto simp: encodes_all_def)
  from snapshot_image_Inr [OF assms(2) this] show ?thesis by blast
qed

lemma perform_sure:
  assumes placed: "placed (cfg_path cfg)" and enc: "encodes_all E cfg"
    and life: "lifetime E cfg i rs s" and rest: "at_rest cfg (snd s)"
    and read: "readable E (rs @ mutations [a])" and valid: "stays_valid E cfg wf payload i (rs @ mutations [a])"
    and acc: "accepts (index E) i (rs @ mutations [a]) j"
  shows "\<exists>s'. perform E a s = (Inr (), s') \<and> lifetime E cfg i (rs @ mutations [a]) s' \<and> at_rest cfg (snd s')"
proof -
  obtain this w where s: "s = (this, w)" by (cases s)
  have w: "calm w" "room (cfg_path cfg) w" using rest by (simp_all add: at_rest_def s)
  have valid1: "stays_valid E cfg wf payload i rs" by (rule stays_valid_prefix [OF valid])
  have rec: "recoverable E cfg i rs (this, w)"
    using lifetime_recoverable [OF life _ valid1] readable_parts [OF read] by (simp add: s)
  then obtain l where l: "wal_of this = Some l" and cfg: "config this = cfg" "storage_of this = std_fs_storage"
    by (auto simp: recoverable_def in_step_def log_state_def)
  have now: "accepts (index E) i rs (inner this)" using recoverable_accepts [OF rec] by simp
  show ?thesis
  proof (cases a)
    case (Mutation r)
    have dim: "right_dim (index E) r (inner this)" and ok: "apply_record (index E) r (inner this) = (Inr (), j)"
      using acc accepts_fun [OF now] by (auto simp: Mutation accepts_append prod_eq_iff)
    have "record_ok (metadata E) r" using read by (simp add: Mutation readable_def loggable_record_ok)
    from mutate_sure [OF w(1) l this ok] obtain s' where m: "mutate E r (this, w) = (Inr (), s')" "calm (snd s')" "in_place w (snd s')"
      by blast
    have "lifetime E cfg i (rs @ [r]) s'" using lifetime.acked [OF life, of r s'] dim m(1) by (simp add: s)
    with m room_in_place [OF w(2) m(3)] show ?thesis by (simp add: Mutation s at_rest_def)
  next
    case Checkpoint
    obtain bytes where img: "snapshot_image E this = (Inr bytes :: ('ie, bytes) result)"
      using snapshot_image_total [OF enc _ cfg(1)] stays_validD [OF valid1 now] by blast
    obtain s' where c: "checkpoint E (this, w) = (Inr (), s')" "calm (snd s')" "room (cfg_path cfg) (snd s')"
      using checkpoint_sure [of w this, OF w(1) _ _ cfg(2) img l] w(2) placed cfg(1) by auto
    have "cfg_unix (snd s)" using w(2) by (simp add: room_def s)
    from lifetime.checkpointed [OF life this, of s'] c show ?thesis by (simp add: Checkpoint s at_rest_def)
  next
    case Restart
    have find: "may_find cfg (snd (this, w)) w" by (simp add: may_find_def)
    obtain that where ld: "load E cfg w = (Inr that, w)"
      using load_recoverable [OF rec find w(1)] readable_parts [OF read] by blast
    from lifetime.restarted [OF life, of w that w] find w ld show ?thesis
      by (auto simp: Restart s cfg(1) at_rest_def)
  qed
qed

lemma perform_all_sure:
  assumes placed: "placed (cfg_path cfg)" and enc: "encodes_all E cfg"
    and "lifetime E cfg i rs s" and "at_rest cfg (snd s)"
    and "readable E (rs @ mutations as)" and "stays_valid E cfg wf payload i (rs @ mutations as)"
    and "accepts (index E) i (rs @ mutations as) j"
  shows "\<exists>s'. perform_all E as s = (Inr (), s') \<and> lifetime E cfg i (rs @ mutations as) s' \<and>
    at_rest cfg (snd s') \<and> inner (fst s') = j"
  using assms(3-)
proof (induction as arbitrary: rs s)
  case Nil
  have "accepts (index E) i rs (inner (fst s))"
    using recoverable_accepts [OF lifetime_recoverable] Nil by fastforce
  then show ?case using Nil accepts_fun by (fastforce simp: sret_def)
next
  case (Cons a as)
  have all: "rs @ mutations (a # as) = (rs @ mutations [a]) @ mutations as" using mutations_Cons [of a as] by simp
  note prems = Cons.prems [unfolded all]
  obtain k where k: "accepts (index E) i (rs @ mutations [a]) k"
    using prems(5) accepts_append [of "index E" i "rs @ mutations [a]"] by blast
  obtain s1 where s1: "perform E a s = (Inr (), s1)" "lifetime E cfg i (rs @ mutations [a]) s1" "at_rest cfg (snd s1)"
    using perform_sure [OF placed enc prems(1,2) _ stays_valid_prefix [OF prems(4)] k] readable_parts [OF prems(3)] by blast
  from Cons.IH [OF s1(2,3) prems(3,4,5)] show ?case
    by (simp add: all s1(1) sbind_def [of "perform E a"])
qed

lemma session_runs:
  assumes cfg: "encodes_all E cfg" "placed (cfg_path cfg)" and world: "fs_ok w" "at_rest cfg w"
    and script: "accepts (index E) i (mutations as) j" "readable E (mutations as)"
      "stays_valid E cfg wf payload i (mutations as)"
  shows "\<exists>this that v. session E i cfg as w = (Inr this, v) \<and> inner this = j \<and>
    load E cfg v = (Inr that, v) \<and> inner that = j"
proof -
  let ?t = "\<lparr>inner = i, config = cfg, storage_of = std_fs_storage, wal_of = None\<rparr> :: ('i, 'ie) persisted"
  have "wf i" using stays_validD [of E cfg wf payload i "[]" i] stays_valid_prefix [of E cfg wf payload i "[]"] script(3)
    by simp
  then obtain bytes where img: "snapshot_image E ?t = (Inr bytes :: ('ie, bytes) result)"
    using snapshot_image_total [OF cfg(1), of ?t] by auto
  obtain this w1 where op: "open_with E i cfg w = (Inr this, w1)" and w1: "at_rest cfg w1"
    using open_with_sure [OF _ _ cfg(2) enabled validated img, of w] world(2) by (auto simp: at_rest_def)
  have "cfg_unix w" using world(2) by (simp add: at_rest_def room_def)
  note life = lifetime.opened [OF world(1) this op]
  obtain s' where s': "perform_all E as (this, w1) = (Inr (), s')" "lifetime E cfg i (mutations as) s'"
      "at_rest cfg (snd s')" "inner (fst s') = j"
    using perform_all_sure [OF cfg(2,1) life, of as j] w1 script by auto
  note rec = lifetime_recoverable [OF s'(2) script(2,3)]
  have calm: "may_find cfg (snd s') (snd s')" "calm (snd s')" using s'(3) by (simp_all add: may_find_def at_rest_def)
  obtain that where "load E cfg (snd s') = (Inr that, snd s')" "inner that = inner (fst s')"
    by (rule load_recoverable [OF rec calm script(2)])
  with op s'(1,4) show ?thesis
    by (intro exI [of _ "fst s'"] exI [of _ that] exI [of _ "snd s'"]) (simp add: session_def sbind_def split: prod.split)
qed

end

subsection \<open>Properties\<close>

lemma db_path_placed: "placed db_path"
  by (simp add: placed_def db_path_def)

lemma example_room: "room db_path (example_world [])"
  by (simp add: room_def example_world_def parent_exists_def db_path_def wal_path_def target_dir_def Let_def
      temp_name_def)

lemma mock_rows_readable: "readable (mock_env :: (mock_index, bool list, unit) env) [mock_row, mock_row]"
  using mock_row_loggable
  by (simp add: readable_def mock_env_def MAX_RECORD_LEN_def U64_MAX_def wal_log_def length_frame_image
      mock_row_def component_image_def)

lemma mock_rows_valid:
  "stays_valid mock_env mock_wal_config (mock_wf U64_MAX) mock_payload (mock_at 0) [mock_row, mock_row]"
  unfolding stays_valid_def
proof (intro allI impI)
  fix n j
  assume "accepts (index mock_env) (mock_at 0) (take n [mock_row, mock_row]) j"
  then have "j \<in> {mock_at 0, mock_at 1, mock_at 2}" by (cases n; cases "n - 1") (auto simp: numeral_2_eq_2)
  then show "mock_wf U64_MAX j \<and> reloadable mock_env (cfg_compression mock_wal_config) (mock_payload j)"
    using mock_at_wf [of 0] mock_at_wf [of 1] mock_at_wf [of 2] by auto
qed



end
