(* ===== verification/Crash_Points.thy ===== *)
theory Crash_Points
  imports Hazards Sessions
begin

section \<open>Where a crash can hit\<close>

text \<open>
  The two operations that take more than one step on disk, stopped at each of them: a
  mutation that the index refuses, which is logged, synced and then rolled back, and a
  checkpoint, which writes the snapshot and then resets the log.
\<close>

subsection \<open>A refused mutation\<close>

text \<open>
  C33. A refusal is not crash-safe.  The mutation is logged before the index is asked, and cut
  off again when it refuses.  When the process stops in between, the log keeps the refused
  mutation.  Let the snapshot be durable and the log synced before a mutation of the right
  dimension that the index refuses, however it ends, and let a crash behind it keep the log's
  directory entry.  The result of the next load in full: the index as it was if the mutation's
  frame is not whole on disk, else the index's error, and no database.
\<close>

theorem interrupted_refusal:
  fixes E :: "('i, 'm, 'ie) env"
  assumes step: "in_step E base rs (this, w)" "log_synced (this, w)" "config this = cfg"
    and clean: "refuses_cleanly (index E)"
    and cfg: "validate_config (codecs E) cfg = (Inr () :: ('ie, unit) result)" "wal_enabled cfg"
    and snap: "durable w (cfg_path cfg) (Some bytes)" "decode_snapshot E bytes = Inr base"
    and refused: "right_dim (index E) r (inner this)" "apply_record (index E) r (inner this) = (Inl e, i)"
    and run: "mutate E r (this, w) = (res, (this', w'))"
    and find: "may_find cfg w' v" "calm v" and small: "readable E (rs @ [r])"
  shows "load E cfg v =
    (if content v (wal_path (cfg_path cfg)) = Some (wal_log (crc_hash E) (metadata E) (rs @ [r]))
     then Inl (IndexBuild e) else Inr (loaded cfg (inner this) v), v)"
proof -
  have "replay_one (index E) r (inner this) = (Inl (IndexBuild e), i)"
    using refused by (cases r) (simp_all add: map_iqdb_prog_def map_iqdb_def from_iqdb_def)
  then show ?thesis
    using interrupted_load [OF step clean cfg snap run find small, where thesis = ?thesis] by simp
qed

text \<open>Power is lost at the first call of the rollback, behind a complete and synced append.\<close>

lemma append_before_power_loss:
  assumes ok: "record_ok M r" and pol: "w_policy l = Always"
    and fs: "faults w = [Proceed, Proceed, Proceed, Proceed, PowerLoss 0]" "\<not> down w"
  shows "\<exists>s1 s2. mark (l, w) = (Inr (h_pos (w_file l)) :: ('ie, nat) result, s1) \<and>
    append_record crc M r s1 = (Inr () :: ('ie, unit) result, s2) \<and> faults (snd s2) = [PowerLoss 0] \<and> \<not> down (snd s2)"
proof -
  have len: "length (record_image M r) \<le> U32_MAX" using ok by (simp add: record_ok_def)
  have "to_le 4 v \<noteq> []" for v :: u32 by (metis length_to_le list.size(3) zero_neq_numeral)
  then show ?thesis
    using len fs pol
    by (cases "ticks w") (simp_all add: mark_def fs_stream_position_def call_def append_record_eq sbind_def fill_scratch_def
        encode_record_ok [OF ok] commit_record_def u32_try_from_def compute_def on_file_def fs_write_all_def Let_def
        draw_def set_node_def maybe_sync_def sync_now_def fs_sync_all_def instant_now_def del: to_le.simps)
qed

lemma rollback_power_loss:
  assumes "faults (snd s) = [PowerLoss 0]" and "\<not> down (snd s)"
  shows "\<exists>e s'. rollback m s = (Inl e :: ('ie, unit) result, s') \<and> faults (snd s') = [] \<and>
    wal_node s' = wal_node s \<and> wal_ino s' = wal_ino s"
  using assms
  by (cases s) (simp add: rollback_def sbind_def on_file_def fs_set_len_def call_def draw_def Let_def wal_node_def wal_ino_def)

text \<open>The mock as an index that refuses every delete.\<close>

definition strict_env :: "(mock_index, bool list, unit) env" where
  "strict_env = mock_env\<lparr>index := (mock_ops U64_MAX)\<lparr>ix_delete := (\<lambda>vid i. (Inl (), i))\<rparr>\<rparr>"

lemma strict_env_decode [simp]: "decode_snapshot strict_env bytes = decode_snapshot mock_env bytes"
  unfolding strict_env_def decode_snapshot_def mock_env_def mock_ops_def
    env.select_convs env.update_convs index_ops.select_convs index_ops.update_convs ..

lemma strict_env_simps [simp]:
  "apply_record (index strict_env) mock_row (mock_at n) = (Inr (), mock_at (Suc n))"
  "right_dim (index strict_env) mock_row (mock_at n)"
  "ix_delete (index strict_env) vid i = (Inl (), i)"
  "crc_hash strict_env = crc32_ieee" "metadata strict_env = flag_ops" "host_umax strict_env = U64_MAX"
  by (auto simp: strict_env_def mock_env_def mock_row_def mock_ops_def mock_insert_def mock_at_def)

lemma strict_env_clean: "refuses_cleanly (index strict_env)"
  unfolding refuses_cleanly_def
proof (intro allI impI)
  fix r i e i'
  assume "apply_record (index strict_env) r i = (Inl e, i')"
  then show "i' = i" by (cases r) (auto simp: strict_env_def mock_ops_def mock_insert_def)
qed

lemma strict_in_step:
  assumes "in_step (mock_env :: (mock_index, bool list, unit) env) (mock_at 0) [mock_row] (this, w)"
  shows "in_step strict_env (mock_at 0) [mock_row] (this, w\<lparr>faults := fs\<rparr>)"
proof -
  have "crc_hash (mock_env :: (mock_index, bool list, unit) env) = crc32_ieee"
    and "metadata (mock_env :: (mock_index, bool list, unit) env) = flag_ops" by (simp_all add: mock_env_def)
  then show ?thesis
    using assms by (auto simp: in_step_def log_state_def opened_def wal_ready_def wal_node_def wal_ino_def fs_ok_def)
qed

theorem interrupted_refusal_witness:
  "\<exists>this w res s' v. in_step strict_env (mock_at 0) [mock_row] (this, w) \<and>
    mutate strict_env (Delete (U64 1)) (this, w) = (res, s') \<and> crash (snd s') v \<and>
    load strict_env mock_wal_config v = (Inl (IndexBuild ()), v)"
proof -
  let ?E = strict_env and ?r = "Delete (U64 1) :: bool list wal_record"
  obtain bytes where dec': "decode_snapshot (mock_env :: (mock_index, bool list, unit) env) bytes = Inr (mock_at 0)"
    using mock_snapshot by blast
  then have dec: "decode_snapshot ?E bytes = Inr (mock_at 0)" by simp
  have old: "set [] \<subseteq> {None :: nat option}" by simp
  let ?t = "mock_loaded bytes [] :: (mock_index, unit) persisted"
  let ?w = "(mock_disk bytes [])\<lparr>faults := [Proceed, Proceed, Proceed, Proceed, PowerLoss 0]\<rparr>"
  let ?log = "wal_log crc32_ieee flag_ops"
  let ?l = "reopened_log mock_wal_config (mock_disk bytes [])"
  have step: "in_step ?E (mock_at 0) [mock_row] (?t, ?w)"
    by (rule strict_in_step [OF mock_in_step(1) [OF dec' old]])
  then have ready: "wal_ready (?l, ?w)" and log: "data (wal_node (?l, ?w)) = ?log [mock_row]"
    by (auto simp: in_step_def log_state_def opened_def)
  have sync: "log_synced (?t, ?w)"
    using wal_path_neq [of db_path]
    by (simp add: log_synced_def synced_def reopened_log_def wal_node_def wal_ino_def new_wal_def mock_disk_def Let_def
        del: wal_path_neq)
  have ok: "record_ok flag_ops ?r"
    unfolding record_ok_def by (rule conjI [OF flag_ops_ok]) (simp add: U32_MAX_def)
  have pol: "w_policy ?l = Always" by (simp add: reopened_log_def Let_def new_wal_def)
  obtain s1 s2 where m: "mark (?l, ?w) = (Inr (h_pos (w_file ?l)) :: (unit, nat) result, s1)"
    and a: "append_record crc32_ieee flag_ops ?r s1 = (Inr () :: (unit, unit) result, s2)"
    and f: "faults (snd s2) = [PowerLoss 0]" "\<not> down (snd s2)"
    using append_before_power_loss [OF ok pol, of ?w crc32_ieee] mock_disk_simps(1) [of bytes "[]"]
    by (auto simp: calm_def)
  obtain e s3 where b: "rollback (h_pos (w_file ?l)) s2 = (Inl e :: (unit, unit) result, s3)"
    and s3: "faults (snd s3) = []" "wal_node s3 = wal_node s2" "wal_ino s3 = wal_ino s2"
    using rollback_power_loss [OF f] by blast
  have run: "mutate ?E ?r (?t, ?w) = (Inl e, (?t\<lparr>wal_of := Some (fst s3)\<rparr>, snd s3))"
    using log_then_apply_steps(4) [OF _ m, of ?t "append_record crc32_ieee flag_ops ?r" "()" "fst s2" "snd s2"
      "apply_record (index ?E) ?r" "()" "inner ?t" "Inl e" "fst s3" "snd s3"] a b
    by (simp add: mutate_eq mock_loaded_def)
  let ?img = "frame_image crc32_ieee (record_image flag_ops ?r)"
  have "advances (?l, ?w) [] s1" by (rule mark_effect(1) [OF ready m])
  moreover from this have "advances s1 ?img s2" using append_record_effect [OF _ a] by (auto simp: advances_def)
  ultimately have "advances (?l, ?w) ?img s2" using advances_trans by fastforce
  then have "data (wal_node s3) = ?log [mock_row] @ ?img" and ino: "wal_ino s3 = wal_ino (?l, ?w)"
    using log s3 by (simp_all add: advances_def grows_def own_file_def)
  then have bs: "data (wal_node s3) = ?log ([mock_row] @ [?r])" by (simp only: wal_log_snoc)
  note eff = mutate_in_step [OF step strict_env_clean run]
  obtain v where v: "crash (snd s3) v" "names v = names (snd s3)" "\<forall>i. data (nodes v i) = data (nodes (snd s3) i)" "calm v"
    using crash_total [OF eff(3)] s3(1) by (auto simp: calm_def)
  then have find: "may_find mock_wal_config (snd s3) v" by (simp add: may_find_def)
  have "names v (wal_path db_path) = Some (wal_ino s3)"
    using v(2) eff(5) ready ino by (simp add: wal_ready_def reopened_log_def Let_def new_wal_def)
  then have kept: "content v (wal_path db_path) = Some (?log ([mock_row] @ [?r]))"
    using v(3) bs by (simp add: content_def wal_node_def)
  have small: "readable ?E ([mock_row] @ [?r])"
    using mock_row_loggable flag_ops_ok
    by (simp add: readable_def MAX_RECORD_LEN_def U64_MAX_def wal_log_def length_frame_image
        mock_row_def component_image_def loggable_def)
  have snap: "durable ?w (cfg_path mock_wal_config) (Some bytes)"
    using mock_disk_simps(4) [of bytes "[]"] by (simp add: durable_def split: option.splits)
  have "load ?E mock_wal_config v = (Inl (IndexBuild ()), v)"
    using interrupted_refusal [OF step sync _ strict_env_clean _ _ snap dec _ _ run find v(4) small, of "()" "mock_at 1"] kept
    by simp
  with step run v(1) show ?thesis by (metis snd_conv)
qed

subsection \<open>A checkpoint\<close>

lemma found_settled: "may_find cfg w v \<Longrightarrow> settled w p C \<Longrightarrow> content v p \<in> C"
  using settled_crash(1) settled_now by (auto simp: may_find_def quietD)

lemma found_ok: "may_find cfg w v \<Longrightarrow> fs_ok w \<Longrightarrow> fs_ok v"
  using crash_ok by (auto simp: may_find_def quietD)

lemma load_cut:
  assumes calm: "calm v" and ok: "fs_ok v"
    and cfg: "validate_config (codecs E) cfg = (Inr () :: ('ie, unit) result)" "wal_enabled cfg"
    and snap: "content v (cfg_path cfg) = Some bytes" "decode_snapshot E bytes = Inr i"
    and log: "content v (wal_path (cfg_path cfg)) = Some (take k (wal_log (crc_hash E) (metadata E) rs))"
    and rs: "readable E rs"
  shows "\<exists>n. load (E :: ('i, 'm, 'ie) env) cfg v =
    (case replay_loop (index E) (take n rs) 0 i of (Inl e, _) \<Rightarrow> (Inl e, v) | (Inr _, j) \<Rightarrow> (Inr (loaded cfg j v), v))"
proof -
  obtain n where "whole_frames (metadata E) (k - 12) rs = take n rs" using whole_frames_prefix by blast
  then have "parse_records (host_umax E) (crc_hash E) (metadata E) (take k (wal_log (crc_hash E) (metadata E) rs)) =
      (Inr (take n rs) :: ('ie, 'm wal_record list) result)"
    using parse_truncated [of rs "metadata E" "host_umax E" "crc_hash E" k] rs by (simp add: readable_def)
  then show ?thesis using load_calm [OF calm ok cfg snap log] by (intro exI [of _ n]) simp
qed

text \<open>
  Two operations write a snapshot and then cut the log down to a header: \<open>checkpoint\<close>, and
  \<open>open_with\<close> over an existing database.  What either leaves when it stops anywhere.
\<close>

lemma snapshot_then_cut:
  fixes E :: "('i, 'm, 'ie) env"
  assumes it: "config this = cfg" "storage_of this = std_fs_storage" and cfg: "cfg_fsync_policy cfg = Always" "cfg_unix w"
    and disk: "fs_ok w" "names w (wal_path (cfg_path cfg)) = Some i" "synced (nodes w i)"
      "data (nodes w i) = wal_log (crc_hash E) (metadata E) rs"
    and snap: "durable w (cfg_path cfg) (Some old)" and img: "snapshot_image E this = Inr new"
    and first: "write_snapshot E this w = (rw, w1)"
    and stopped: "rw \<noteq> Inr () \<Longrightarrow> w' = w1 \<and> \<not> complete"
    and cut: "rw = Inr () \<Longrightarrow> fs_ok w1 \<Longrightarrow> names w1 (wal_path (cfg_path cfg)) = Some i \<Longrightarrow> nodes w1 i = nodes w i \<Longrightarrow>
      fs_ok w' \<and> spares (wal_path (cfg_path cfg)) w1 w' \<and> names w' (wal_path (cfg_path cfg)) = Some i \<and>
      partly [] (wal_log (crc_hash E) (metadata E) rs) (nodes w' i) \<and>
      (complete \<longrightarrow> data (nodes w' i) = wal_header \<and> synced (nodes w' i))"
    and find: "may_find cfg w' v"
  obtains (before) "fs_ok v" and "\<not> complete" and "content v (cfg_path cfg) = Some old"
      and "content v (wal_path (cfg_path cfg)) = Some (wal_log (crc_hash E) (metadata E) rs)"
    | (between) k where "fs_ok v" and "content v (cfg_path cfg) = Some new"
      and "content v (wal_path (cfg_path cfg)) = Some (take k (wal_log (crc_hash E) (metadata E) rs))"
      and "complete \<longrightarrow> k = 12"
proof -
  let ?p = "cfg_path cfg" and ?log = "wal_log (crc_hash E) (metadata E) rs"
  have out: "atomic_outcome ?p new Always w rw w1"
    using write_snapshot_cases [OF first it(2) disk(1)] img it(1) cfg(1) by auto
  then have ok1: "fs_ok w1" and sp: "spares ?p w w1" by (simp_all add: atomic_outcome_def)
  note kept = sparesD [OF sp wal_path_neq disk(2)]
  show thesis
  proof (cases "rw = Inr ()")
    case False
    have "settled w1 ?p {Some new, Some old}"
      using out durable_settled [OF snap] by (simp add: atomic_outcome_def)
    then have "content v ?p \<in> {Some new, Some old}" using found_settled find stopped [OF False] by blast
    moreover have "partly ?log [] (nodes w' i)"
      using disk(3,4) kept(2) stopped [OF False] by (simp add: partly_def synced_def)
    then have "content v (wal_path ?p) = Some ?log"
      using found_partly [OF find, of i ?log "[]"] kept(1) stopped [OF False] by simp
    ultimately show thesis
      using stopped [OF False] found_ok [OF find] ok1 before between [of "length ?log"] by auto
  next
    case True
    note w' = cut [OF True ok1 kept(1,2)]
    have "durable w1 ?p (Some new)" using out cfg(2) True by (simp add: atomic_outcome_def)
    then have dur: "durable w' ?p (Some new)" using w' spares_durable wal_path_neq by metis
    have snap': "content v ?p = Some new" and ok: "fs_ok v" using found_snapshot [OF find _ dur] w' by simp_all
    obtain k where k: "content v (wal_path ?p) = Some (take k ?log)"
      using found_partly [OF find, of i "[]" ?log] w' by auto
    have "content v (wal_path ?p) = Some (take 12 ?log)" if "complete"
    proof -
      have "partly wal_header [] (nodes w' i)" using w' that by (simp add: partly_def synced_def)
      then show ?thesis using found_partly [OF find, of i wal_header "[]"] w' by (simp add: wal_log_def)
    qed
    then show thesis using between [OF ok snap' k] between [OF ok snap', of 12] by (cases complete) auto
  qed
qed

text \<open>
  What the next load makes of it: the old database, or what the new snapshot and some
  beginning of the old log give.
\<close>

lemma load_snapshot_then_cut:
  fixes E :: "('i, 'm, 'ie) env"
  assumes calm: "calm v" and ok: "fs_ok v"
    and cfg: "validate_config (codecs E) cfg = (Inr () :: ('ie, unit) result)" "wal_enabled cfg"
    and snap: "content v (cfg_path cfg) = Some new" "decode_snapshot E new = Inr i"
    and log: "content v (wal_path (cfg_path cfg)) = Some (take k (wal_log (crc_hash E) (metadata E) rs))"
    and small: "readable E rs" and k: "complete \<longrightarrow> k = 12"
  shows "load E cfg v = (Inr (loaded cfg i v), v) \<or>
    \<not> complete \<and> (\<exists>again rest. rs = again @ rest \<and> load E cfg v =
      (case replay_loop (index E) again 0 i of (Inl e, _) \<Rightarrow> (Inl e, v) | (Inr _, j) \<Rightarrow> (Inr (loaded cfg j v), v)))"
proof (cases complete)
  case True
  then have empty: "content v (wal_path (cfg_path cfg)) = Some (wal_log (crc_hash E) (metadata E) [])"
    using log k by (simp add: wal_log_def)
  have "readable E []" using readable_parts [of E "[]" rs] small by simp
  from load_in_step(1) [OF calm ok cfg snap empty this, of i] show ?thesis by simp
next
  case False
  from load_cut [OF calm ok cfg snap log small] obtain n where "load E cfg v =
      (case replay_loop (index E) (take n rs) 0 i of (Inl e, _) \<Rightarrow> (Inl e, v) | (Inr _, j) \<Rightarrow> (Inr (loaded cfg j v), v))" ..
  with False show ?thesis by (intro disjI2 conjI exI [of _ "take n rs"] exI [of _ "drop n rs"]) simp_all
qed

lemma checkpoint_points:
  fixes E :: "('i, 'm, 'ie) env"
  assumes step: "in_step E base rs (this, w)" "log_synced (this, w)" "config this = cfg" "storage_of this = std_fs_storage"
    and cfg: "cfg_fsync_policy cfg = Always" "cfg_unix w"
    and snap: "durable w (cfg_path cfg) (Some old)" and img: "snapshot_image E this = Inr new"
    and run: "checkpoint E (this, w) = (res, (this', w'))" and find: "may_find cfg w' v"
  obtains (before) "fs_ok v" and "res \<noteq> Inr ()" and "content v (cfg_path cfg) = Some old"
      and "content v (wal_path (cfg_path cfg)) = Some (wal_log (crc_hash E) (metadata E) rs)"
    | (between) k where "fs_ok v" and "content v (cfg_path cfg) = Some new"
      and "content v (wal_path (cfg_path cfg)) = Some (take k (wal_log (crc_hash E) (metadata E) rs))"
      and "res = Inr () \<longrightarrow> k = 12"
proof -
  let ?p = "cfg_path cfg" and ?log = "wal_log (crc_hash E) (metadata E) rs"
  obtain l where l: "log_state E rs (this, w) l" using step(1) by (auto simp: in_step_def)
  then have wal: "wal_of this = Some l" and ready: "wal_ready (l, w)" and bs: "data (wal_node (l, w)) = ?log"
    and path: "w_path l = wal_path ?p"
    using step(3) by (simp_all add: log_state_def opened_def)
  let ?i = "wal_ino (l, w)"
  have sync: "synced (wal_node (l, w))" using step(2) wal by (simp add: log_synced_def)
  have disk: "fs_ok w" "names w (wal_path ?p) = Some ?i" "synced (nodes w ?i)" "data (nodes w ?i) = ?log"
    using ready path sync bs by (simp_all add: wal_ready_def wal_node_def)
  obtain rw w1 where ws: "write_snapshot E this w = (rw, w1)" by (metis prod.exhaust)
  show thesis
  proof (rule snapshot_then_cut [OF step(3,4) cfg disk snap img ws _ _ find, where complete = "res = Inr ()"])
    assume "rw \<noteq> Inr ()"
    then show "w' = w1 \<and> \<not> res = Inr ()" using run ws by (cases rw) (auto simp: checkpoint_def)
  next
    assume w1: "rw = Inr ()" "fs_ok w1" "names w1 (wal_path ?p) = Some ?i" "nodes w1 ?i = nodes w ?i"
    then obtain l' where reset: "wal_reset (l, w1) = (res :: ('ie, unit) result, (l', w'))"
      using run ws wal by (auto simp: checkpoint_def Let_def split: prod.splits)
    have node1: "wal_node (l, w1) = wal_node (l, w)" using w1(4) by (simp add: wal_node_def wal_ino_def)
    have ready1: "wal_ready (l, w1)"
      using ready w1(2,3) node1 path by (simp add: wal_ready_def wal_ino_def)
    note eff = wal_reset_effect [OF ready1 reset]
    have "partly [] ?log (wal_node (l, w1))"
      using sync bs node1 by (auto simp: partly_def synced_def intro: exI [of _ "length ?log"])
    then have "partly [] ?log (wal_node (l', w'))" using wal_reset_partly [OF ready1 _ reset] unfolding wal_log_def by blast
    moreover have "wal_ino (l', w') = ?i" and "names w' (wal_path ?p) = Some ?i"
      using eff w1(3) by (simp_all add: own_file_def wal_ino_def)
    moreover have "spares (wal_path ?p) w1 w'" using own_file_spares [of "(l, w1)" "(l', w')"] eff ready1 path by simp
    ultimately show "fs_ok w' \<and> spares (wal_path ?p) w1 w' \<and> names w' (wal_path ?p) = Some ?i \<and>
        partly [] ?log (nodes w' ?i) \<and> (res = Inr () \<longrightarrow> data (nodes w' ?i) = wal_header \<and> synced (nodes w' ?i))"
      using eff by (simp add: wal_node_def)
  qed (rule before, assumption+, rule between, assumption+)
qed

text \<open>
  C6. Where a checkpoint can be interrupted.  In a life of a database, under \<open>Always\<close> on unix, let
  a checkpoint end in any way, and let a crash behind it keep the log's directory entry.  If it
  succeeded the next load gives the index in memory.  If not, the load either
  gives that index too, or the checkpoint stopped between the snapshot and the end of the log's
  reset: then the result is that of applying a consecutive run of the acknowledged mutations
  (what is left of the log) once more to an index that already has them, or the error when the
  index refuses one of them.  No mutation is missing from an index that is loaded.
\<close>

theorem interrupted_checkpoint:
  fixes E :: "('i, 'm, 'ie) env"
  assumes lawful: "snapshots E valid payload"
    and cfg: "wal_enabled cfg" "cfg_fsync_policy cfg = Always"
      "validate_config (codecs E) cfg = (Inr () :: ('ie, unit) result)"
    and life: "lifetime E cfg i rs s" "readable E rs" "stays_valid E cfg valid payload i rs"
    and run: "checkpoint E s = (res, s')" "cfg_unix (snd s)"
    and found: "may_find cfg (snd s') v" "calm v"
  shows "(\<exists>that. load E cfg v = (Inr that, v) \<and> inner that = inner (fst s)) \<or>
    res \<noteq> Inr () \<and> (\<exists>old again rest. rs = old @ again @ rest \<and> load E cfg v =
      (case replay_loop (index E) again 0 (inner (fst s)) of
         (Inl e, _) \<Rightarrow> (Inl e, v) | (Inr _, j) \<Rightarrow> (Inr (loaded cfg j v), v)))"
proof -
  have use: "wal_use E valid payload cfg"
    using lawful cfg by (simp add: wal_use_def wal_use_axioms_def)
  note rec = wal_use.lifetime_recoverable [OF use life]
  obtain this w where s: "s = (this, w)" by (cases s)
  obtain this' w' where s': "s' = (this', w')" by (cases s')
  obtain base old new bytes where inv: "rs = old @ new" "durable w (cfg_path cfg) (Some bytes)"
      "decode_snapshot E bytes = Inr base" "in_step E base new (this, w)" "log_synced (this, w)" "config this = cfg"
      "storage_of this = std_fs_storage" "fs_ok w"
    using rec by (auto simp: recoverable_def s)
  have valid: "valid (inner this)" "reloadable E (cfg_compression (config this)) (payload (inner this))"
    using stays_validD [OF life(3) recoverable_accepts [OF rec]] inv(6) by (simp_all add: s)
  have small: "readable E new" using readable_parts life(2) inv(1) by blast
  have acc: "accepts (index E) base new (inner this)" using inv(4) by (simp add: in_step_def)
  note find = found(1) [unfolded s' snd_conv]
  note run' = run(1) [unfolded s s']
  show ?thesis
  proof (cases "snapshot_image E this")
    case (Inl e)
    then have "s' = s" using run' by (simp add: checkpoint_def write_snapshot_def s s')
    then have find0: "may_find cfg (snd s) v" using found(1) by simp
    obtain that where "load E cfg v = (Inr that, v)" and "inner that = inner (fst s)"
      by (rule wal_use.load_recoverable [OF use rec find0 found(2) life(2)])
    then show ?thesis by simp
  next
    case (Inr img)
    have dec: "decode_snapshot E img = Inr (inner this)" by (rule snapshots.decode_saved [OF lawful valid Inr])
    have "cfg_unix w" using run(2) by (simp add: s)
    then show ?thesis
    proof (rule checkpoint_points [OF inv(4-7) cfg(2) _ inv(2) Inr run' find])
      assume at: "fs_ok v" "content v (cfg_path cfg) = Some bytes"
        "content v (wal_path (cfg_path cfg)) = Some (wal_log (crc_hash E) (metadata E) new)"
      from load_in_step(1) [OF found(2) at(1) cfg(3,1) at(2) inv(3) at(3) small acc] show ?thesis by (simp add: s)
    next
      fix k
      assume at: "fs_ok v" "content v (cfg_path cfg) = Some img"
        "content v (wal_path (cfg_path cfg)) = Some (take k (wal_log (crc_hash E) (metadata E) new))" "res = Inr () \<longrightarrow> k = 12"
      from load_snapshot_then_cut [OF found(2) at(1) cfg(3,1) at(2) dec at(3) small at(4)] show ?thesis
        unfolding s fst_conv inv(1) by (elim disjE conjE exE) (simp, blast)
    qed
  qed
qed

text \<open>A calm life with one row, and room for a checkpoint.\<close>

lemma mock_life_with_room:
  "\<exists>this w. lifetime (mock_env :: (mock_index, bool list, unit) env) mock_wal_config (mock_at 0) [mock_row] (this, w) \<and>
    calm w \<and> room db_path w \<and> inner this = mock_at 1"
proof -
  let ?E = "mock_env :: (mock_index, bool list, unit) env"
  let ?t = "\<lparr>inner = mock_at 0, config = mock_wal_config, storage_of = std_fs_storage, wal_of = None\<rparr> :: (mock_index, unit) persisted"
  obtain bytes where img: "snapshot_image ?E ?t = Inr bytes"
    by (rule mock_snapshots.snapshot_image_Inr [of ?t "mock_payload (mock_at 0)"]) (simp_all add: mock_at_wf)
  obtain this w where op: "open_with ?E (mock_at 0) mock_wal_config (example_world []) = (Inr this, w)" "calm w" "room db_path w"
    using open_with_sure [OF _ _ _ _ _ img, of "example_world []"] example_room db_path_placed
    by (auto simp: calm_def example_world_def)
  from mock_first_row [OF op(1,2)] room_in_place [OF op(3)] show ?thesis by blast
qed

theorem interrupted_checkpoint_witness:
  "\<exists>s s' that. lifetime (mock_env :: (mock_index, bool list, unit) env) mock_wal_config (mock_at 0) [mock_row] s \<and>
    checkpoint (mock_env :: (mock_index, bool list, unit) env) s = (Inr (), s') \<and>
    load (mock_env :: (mock_index, bool list, unit) env) mock_wal_config (snd s') = (Inr that, snd s') \<and> inner that = mock_at 1"
proof -
  let ?E = "mock_env :: (mock_index, bool list, unit) env"
  obtain this w where life: "lifetime ?E mock_wal_config (mock_at 0) [mock_row] (this, w)" "calm w" "room db_path w"
      "inner this = mock_at 1"
    using mock_life_with_room by blast
  have it: "config this = mock_wal_config" "storage_of this = std_fs_storage" "wal_of this \<noteq> None"
    using mock_wal.lifetime_recoverable [OF life(1) mock_row_readable mock_row_valid]
    by (auto simp: recoverable_def in_step_def log_state_def)
  then obtain l where l: "wal_of this = Some l" by blast
  obtain bytes where img: "snapshot_image ?E this = Inr bytes"
    by (rule mock_snapshots.snapshot_image_Inr [of this "mock_payload (mock_at 1)"]) (simp_all add: mock_at_wf it life(4))
  obtain s' where run: "checkpoint ?E (this, w) = (Inr (), s')" "calm (snd s')"
    using checkpoint_sure [OF life(2) _ _ it(2) img l] life(3) db_path_placed it(1) by auto
  have "cfg_unix (snd (this, w))" using life(3) by (simp add: room_def)
  moreover have "may_find mock_wal_config (snd s') (snd s')" by (simp add: may_find_def)
  ultimately obtain that where "load ?E mock_wal_config (snd s') = (Inr that, snd s')" and "inner that = mock_at 1"
    using interrupted_checkpoint [OF mock_snapshots.snapshots_axioms _ _ _ life(1) mock_row_readable mock_row_valid run(1) _ _ run(2)]
      life(4) by auto
  with life(1) run(1) show ?thesis by (intro exI [of _ "(this, w)"] exI [of _ s'] exI [of _ that]) simp
qed

subsection \<open>Opening over an existing database\<close>

lemma open_points:
  fixes E :: "('i, 'm, 'ie) env"
  assumes cfg: "wal_enabled cfg" "cfg_fsync_policy cfg = Always" "cfg_unix w"
      "validate_config (codecs E) cfg = (Inr () :: ('ie, unit) result)"
    and log: "log_state E rs (this, w) l" "log_synced (this, w)" "config this = cfg"
    and snap: "durable w (cfg_path cfg) (Some old)"
      "snapshot_image E \<lparr>inner = k, config = cfg, storage_of = std_fs_storage, wal_of = None\<rparr> = Inr new"
    and run: "open_with E k cfg w = (res, w')" and find: "may_find cfg w' v"
  obtains (before) e where "fs_ok v" and "res = Inl e" and "content v (cfg_path cfg) = Some old"
      and "content v (wal_path (cfg_path cfg)) = Some (wal_log (crc_hash E) (metadata E) rs)"
    | (between) n where "fs_ok v" and "content v (cfg_path cfg) = Some new"
      and "content v (wal_path (cfg_path cfg)) = Some (take n (wal_log (crc_hash E) (metadata E) rs))"
      and "\<not> (\<exists>e. res = Inl e) \<longrightarrow> n = 12"
proof -
  let ?i = "wal_ino (l, w)" and ?p = "cfg_path cfg" and ?log = "wal_log (crc_hash E) (metadata E) rs"
  have disk: "fs_ok w" "names w (wal_path ?p) = Some ?i" "synced (nodes w ?i)" "data (nodes w ?i) = ?log"
    using log by (auto simp: log_state_def opened_def wal_ready_def wal_node_def log_synced_def)
  let ?t = "\<lparr>inner = k, config = cfg, storage_of = std_fs_storage, wal_of = None\<rparr> :: ('i, 'ie) persisted"
  note run' = run [unfolded open_with_def open_with_storage_def]
  obtain rw w1 where ws: "write_snapshot E ?t w = (rw, w1)" by (metis prod.exhaust)
  have it: "config ?t = cfg" "storage_of ?t = std_fs_storage" by simp_all
  show thesis
  proof (rule snapshot_then_cut [OF it cfg(2,3) disk snap ws _ _ find, where complete = "\<not> (\<exists>e. res = Inl e)"])
    assume "rw \<noteq> Inr ()"
    then show "w' = w1 \<and> \<not> \<not> (\<exists>e. res = Inl e)"
      using run' ws cfg by (cases rw) (auto simp: sbind_def Let_def slift_def)
  next
    assume w1: "rw = Inr ()" "fs_ok w1" "names w1 (wal_path ?p) = Some ?i" "nodes w1 ?i = nodes w ?i"
    obtain rl where create: "wal_create ?p Always w1 = (rl :: ('ie, wal) result, w')"
      and res: "(\<exists>e. res = Inl e) \<longleftrightarrow> (\<exists>e. rl = Inl e)"
      using run' ws w1(1) cfg
      by (cases "wal_create ?p Always w1 :: ('ie, wal) result \<times> world")
        (auto simp: sbind_def Let_def slift_def sret_def split: sum.splits)
    note eff = wal_create_effect [OF w1(2) create]
    have "partly [] ?log (nodes w1 ?i)"
      using disk(3,4) w1(4) by (auto simp: partly_def synced_def intro: exI [of _ "length ?log"])
    then have cut: "names w' (wal_path ?p) = Some ?i \<and> partly [] ?log (nodes w' ?i)"
      using wal_create_partly [OF w1(2,3) _ create] unfolding wal_log_def by blast
    have "data (nodes w' ?i) = wal_header \<and> synced (nodes w' ?i)" if "\<not> (\<exists>e. rl = Inl e)"
      using that eff cut by (cases rl) (auto simp: opened_def wal_ready_def wal_node_def)
    then show "fs_ok w' \<and> spares (wal_path ?p) w1 w' \<and> names w' (wal_path ?p) = Some ?i \<and> partly [] ?log (nodes w' ?i) \<and>
        (\<not> (\<exists>e. res = Inl e) \<longrightarrow> data (nodes w' ?i) = wal_header \<and> synced (nodes w' ?i))"
      using eff cut res by blast
  qed (use before in blast, rule between, assumption+)
qed

text \<open>
  C7. Where opening over an existing database can be interrupted.  Let \<open>open_with\<close> replace
  the database of a life, under \<open>Always\<close> on unix, by a new index \<open>k\<close> and end in any way, and let a
  crash behind it keep the log's directory entry.  If it succeeded the next load gives \<open>k\<close>.  If not, it gives the old index or \<open>k\<close>, or the open stopped between the new
  snapshot and the end of the log's truncation: then the result is that of applying a
  consecutive run of the old database's mutations (what is left of its log) to \<open>k\<close>, an index they
  were never meant for.
\<close>

theorem interrupted_open:
  fixes E :: "('i, 'm, 'ie) env"
  assumes lawful: "snapshots E valid payload" "valid k" "reloadable E (cfg_compression cfg) (payload k)"
    and cfg: "wal_enabled cfg" "cfg_fsync_policy cfg = Always"
      "validate_config (codecs E) cfg = (Inr () :: ('ie, unit) result)"
    and life: "lifetime E cfg i rs s" "readable E rs" "stays_valid E cfg valid payload i rs"
    and run: "open_with E k cfg (snd s) = (res, w')" "cfg_unix (snd s)"
    and found: "may_find cfg w' v" "calm v"
  shows "(\<exists>that. load E cfg v = (Inr that, v) \<and>
      (inner that = k \<or> (\<exists>e. res = Inl e) \<and> inner that = inner (fst s))) \<or>
    (\<exists>e. res = Inl e) \<and> (\<exists>old again rest. rs = old @ again @ rest \<and> load E cfg v =
      (case replay_loop (index E) again 0 k of (Inl e, _) \<Rightarrow> (Inl e, v) | (Inr _, j) \<Rightarrow> (Inr (loaded cfg j v), v)))"
proof -
  have use: "wal_use E valid payload cfg"
    using lawful cfg by (simp add: wal_use_def wal_use_axioms_def)
  note rec = wal_use.lifetime_recoverable [OF use life]
  obtain this w where s: "s = (this, w)" by (cases s)
  obtain base old new bytes l where inv: "rs = old @ new" "durable w (cfg_path cfg) (Some bytes)"
      "decode_snapshot E bytes = Inr base" "log_state E new (this, w) l" "log_synced (this, w)" "config this = cfg"
      "accepts (index E) base new (inner this)"
    using rec by (auto simp: recoverable_def in_step_def s)
  have small: "readable E new" using readable_parts life(2) inv(1) by blast
  let ?t = "\<lparr>inner = k, config = cfg, storage_of = std_fs_storage, wal_of = None\<rparr> :: ('i, 'ie) persisted"
  note run' = run [unfolded s snd_conv]
  show ?thesis
  proof (cases "snapshot_image E ?t")
    case (Inl e)
    then have out: "w' = w" "res = Inl e"
      using run'(1) cfg by (simp_all add: open_with_def open_with_storage_def write_snapshot_def sbind_def Let_def slift_def)
    then have find0: "may_find cfg (snd s) v" using found(1) by (simp add: s)
    obtain that where "load E cfg v = (Inr that, v)" and "inner that = inner (fst s)"
      by (rule wal_use.load_recoverable [OF use rec find0 found(2) life(2)])
    with out(2) show ?thesis by blast
  next
    case (Inr img)
    have dec: "decode_snapshot E img = Inr k" using snapshots.decode_saved [OF lawful(1) _ _ Inr] lawful(2,3) by simp
    show ?thesis
    proof (rule open_points [OF cfg(1,2) run'(2) cfg(3) inv(4-6,2) Inr run'(1) found(1)])
      fix e
      assume at: "fs_ok v" "res = Inl e" "content v (cfg_path cfg) = Some bytes"
        "content v (wal_path (cfg_path cfg)) = Some (wal_log (crc_hash E) (metadata E) new)"
      from load_in_step(1) [OF found(2) at(1) cfg(3,1) at(3) inv(3) at(4) small inv(7)] at(2) show ?thesis by (simp add: s)
    next
      fix n
      assume at: "fs_ok v" "content v (cfg_path cfg) = Some img"
        "content v (wal_path (cfg_path cfg)) = Some (take n (wal_log (crc_hash E) (metadata E) new))"
        "\<not> (\<exists>e. res = Inl e) \<longrightarrow> n = 12"
      from load_snapshot_then_cut [OF found(2) at(1) cfg(3,1) at(2) dec at(3) small at(4)] show ?thesis
        unfolding inv(1) by (elim disjE conjE exE) (simp, blast)
    qed
  qed
qed

theorem interrupted_open_witness:
  "\<exists>s this v that. lifetime (mock_env :: (mock_index, bool list, unit) env) mock_wal_config (mock_at 0) [mock_row] s \<and>
    open_with (mock_env :: (mock_index, bool list, unit) env) (mock_at 5) mock_wal_config (snd s) = (Inr this, v) \<and>
    load (mock_env :: (mock_index, bool list, unit) env) mock_wal_config v = (Inr that, v) \<and> inner that = mock_at 5"
proof -
  let ?E = "mock_env :: (mock_index, bool list, unit) env"
  let ?t = "\<lparr>inner = mock_at 5, config = mock_wal_config, storage_of = std_fs_storage, wal_of = None\<rparr> :: (mock_index, unit) persisted"
  obtain this w where life: "lifetime ?E mock_wal_config (mock_at 0) [mock_row] (this, w)" "calm w" "room db_path w"
    using mock_life_with_room by blast
  obtain bytes where img: "snapshot_image ?E ?t = Inr bytes"
    by (rule mock_snapshots.snapshot_image_Inr [of ?t "mock_payload (mock_at 5)"]) (simp_all add: mock_at_wf)
  obtain that v where run: "open_with ?E (mock_at 5) mock_wal_config (snd (this, w)) = (Inr that, v)" "calm v"
    using open_with_sure [OF life(2) _ _ _ _ img] life(3) db_path_placed by auto
  have unix: "cfg_unix (snd (this, w))" using life(3) by (simp add: room_def)
  have find: "may_find mock_wal_config v v" by (simp add: may_find_def)
  have valid: "mock_wf U64_MAX (mock_at 5)" by (simp add: mock_at_wf)
  from interrupted_open [OF mock_snapshots.snapshots_axioms valid _ _ _ _ life(1) mock_row_readable mock_row_valid run(1) unix find run(2)]
  obtain other where "load ?E mock_wal_config v = (Inr other, v)" and "inner other = mock_at 5" by auto
  with life(1) run(1) show ?thesis
    by (intro exI [of _ "(this, w)"] exI [of _ that] exI [of _ v] exI [of _ other]) simp
qed

end
