(* ===== verification/Api.thy ===== *)
theory Api
  imports Hazards
begin

section \<open>What every wrapper satisfies\<close>

text \<open>
  The invariant that the declaration of \<open>PersistedIndex\<close> states of its field \<open>wal\<close>, for every
  value the public functions can produce: under any storage, any faults, any change of the
  world between two calls, after calls that failed, and with any use of \<open>index_mut\<close>.
\<close>

subsection \<open>The methods of the log keep its identity\<close>

definition same_log :: "wal \<Rightarrow> wal \<Rightarrow> bool" where
  "same_log l l' \<longleftrightarrow> w_path l' = w_path l \<and> w_policy l' = w_policy l"

definition keeps :: "('ie, 'a) wal_prog \<Rightarrow> bool" where
  "keeps m \<longleftrightarrow> (\<forall>s. same_log (fst s) (fst (snd (m s))))"

named_theorems keeping \<open>methods that keep the path and the policy of the log\<close>

lemma keepsD: "keeps m \<Longrightarrow> m (l, w) = (r, (l', w')) \<Longrightarrow> same_log l l'"
  unfolding keeps_def by (metis fst_conv snd_conv)

lemma same_log_trans: "same_log l l' \<Longrightarrow> same_log l' l'' \<Longrightarrow> same_log l l''"
  by (simp add: same_log_def)

lemma keeps_sbind [keeping]:
  assumes "keeps m" and "\<And>x. keeps (f x)"
  shows "keeps (sbind m f)"
  unfolding keeps_def
proof
  fix s
  obtain r s1 where m: "m s = (r, s1)" by (metis prod.exhaust)
  have one: "same_log (fst s) (fst s1)" using assms(1) m unfolding keeps_def by (metis snd_conv)
  show "same_log (fst s) (fst (snd (sbind m f s)))"
  proof (cases r)
    case (Inr x)
    have "same_log (fst s1) (fst (snd (f x s1)))" by (metis assms(2) keeps_def)
    then show ?thesis using same_log_trans [OF one] by (simp add: sbind_def m Inr)
  qed (use one in \<open>simp add: sbind_def m\<close>)
qed

lemma keeps_on_file [keeping]: "keeps (on_file m)"
  by (simp add: keeps_def on_file_def same_log_def split: prod.split sum.split)

lemma keeps_pure [keeping]: "keeps (sret x)" "keeps (slift r)" "keeps (fill_scratch enc)"
  by (simp_all add: keeps_def same_log_def fill_scratch_def split: prod.split)

lemma keeps_sync [keeping]: "keeps sync_now"
  unfolding sync_now_def
  by (intro keeping) (simp add: keeps_def same_log_def split: prod.split)

lemma keeps_maybe_sync [keeping]: "keeps maybe_sync"
  unfolding keeps_def
proof
  fix s :: "wal \<times> world"
  have sync: "same_log l (fst (snd (sync_now (l, w) :: ('a, unit) result \<times> wal \<times> world)))" for l w
    using keeps_sync unfolding keeps_def by (metis fst_conv)
  show "same_log (fst s) (fst (snd (maybe_sync s :: ('a, unit) result \<times> wal \<times> world)))"
    using sync [of "fst s" "snd s"]
    by (auto simp: maybe_sync_def Let_def sync [unfolded same_log_def] same_log_def split: fsync_policy.split prod.split)
qed

lemma keeps_commit [keeping]: "keeps (commit_record crc)"
  unfolding keeps_def
proof
  fix s
  show "same_log (fst s) (fst (snd (commit_record crc s :: ('a, unit) result \<times> wal \<times> world)))"
    unfolding commit_record_def
    by (rule keeps_def [THEN iffD1, rule_format]) (simp only: Let_def, intro keeping)
qed

lemma keeps_methods [keeping]:
  "keeps mark" "keeps (rollback m)" "keeps wal_reset" "keeps wal_write_header"
  "keeps (append_insert crc M vid v meta)" "keeps (append_delete crc vid)"
  unfolding mark_def rollback_def wal_reset_def wal_write_header_def append_insert_def append_delete_def
  by (intro keeping)+

lemma returning_same_log:
  assumes "keeps m" and "returning_wal m l w = (Inr l', w')"
  shows "same_log l l'"
  using assms(2) by (auto simp: returning_wal_def dest: keepsD [OF assms(1)] split: prod.splits sum.splits)

lemma wal_create_identity:
  assumes "wal_create p policy w = (Inr l :: ('ie, wal) result, w')"
  shows "w_path l = wal_path p \<and> w_policy l = policy"
proof -
  obtain f w1 where run: "returning_wal (sbind wal_write_header (\<lambda>_. sync_now)) (new_wal f (wal_path p) policy) w1 =
      (Inr l :: ('ie, wal) result, w')"
    using assms unfolding wal_create_def Let_def by (rule sbind_InrE)
  have "keeps (sbind wal_write_header (\<lambda>_. sync_now) :: ('ie, unit) wal_prog)" by (intro keeping)
  from returning_same_log [OF this run] show ?thesis by (simp add: same_log_def new_wal_def)
qed

lemma wal_open_identity:
  assumes "wal_open_for_append p policy w = (Inr l :: ('ie, wal) result, w')"
  shows "w_path l = wal_path p \<and> w_policy l = policy"
proof -
  obtain existed w0 where ex: "fs_exists (wal_path p) w = (existed, w0)" by (metis prod.exhaust)
  let ?init = "sbind (on_file fs_seek_end)
      (\<lambda>end_pos. if \<not> existed then sbind wal_write_header (\<lambda>_. sync_now) else sret ()) :: ('ie, unit) wal_prog"
  obtain f w1 where run: "returning_wal ?init (new_wal f (wal_path p) policy) w1 = (Inr l :: ('ie, wal) result, w')"
    using assms unfolding wal_open_for_append_def Let_def ex prod.case by (rule sbind_InrE)
  have "keeps ?init" by (cases existed) (simp_all only: if_True if_False not_True_eq_False not_False_eq_True, (intro keeping)+)
  from returning_same_log [OF this run] show ?thesis by (simp add: same_log_def new_wal_def)
qed

subsection \<open>The values the public functions produce\<close>

definition well_configured :: "('i, 'ie) persisted \<Rightarrow> bool" where
  "well_configured this \<longleftrightarrow>
     (wal_of this = None \<longleftrightarrow> \<not> wal_enabled (config this)) \<and>
     (\<forall>l. wal_of this = Some l \<longrightarrow>
        w_path l = wal_path (cfg_path (config this)) \<and> w_policy l = cfg_fsync_policy (config this))"

inductive made :: "('i, 'm, 'ie) env \<Rightarrow> ('i, 'ie) persisted \<Rightarrow> bool" for E where
  opened: "open_with_storage E i cfg S w = (Inr this, w') \<Longrightarrow> made E this"
| loaded: "load_with_storage E cfg S w = (Inr this, w') \<Longrightarrow> made E this"
| inserted: "made E this \<Longrightarrow> insert_vector E vid v m (this, w) = (r, (this', w')) \<Longrightarrow> made E this'"
| deleted: "made E this \<Longrightarrow> delete_vector E vid (this, w) = (r, (this', w')) \<Longrightarrow> made E this'"
| checkpointed: "made E this \<Longrightarrow> checkpoint E (this, w) = (r, (this', w')) \<Longrightarrow> made E this'"
| borrowed: "made E this \<Longrightarrow> index_mut f this = ((), this') \<Longrightarrow> made E this'"

lemma well_configured_update:
  assumes "well_configured this" and "wal_of this = Some l" and "same_log l l'"
    and "config this' = config this" and "wal_of this' = Some l'"
  shows "well_configured this'"
  using assms by (simp add: well_configured_def same_log_def)

lemma log_then_apply_configured:
  assumes wc: "well_configured this" and op: "keeps log_op"
    and run: "log_then_apply log_op app (this, w) = (r :: ('ie, unit) result, (this', w'))"
  shows "well_configured this'"
proof (cases "wal_of this")
  case None
  then show ?thesis
    using wc run by (auto simp: log_then_apply_def well_configured_def split: prod.splits)
next
  case (Some l)
  obtain rm l1 w1 where m: "mark (l, w) = (rm :: ('ie, nat) result, (l1, w1))" by (metis prod.exhaust)
  obtain ra l2 w2 where a: "log_op (l1, w1) = (ra, (l2, w2))" by (metis prod.exhaust)
  obtain rx i where x: "app (inner this) = (rx, i)" by (metis prod.exhaust)
  obtain rb l3 w3 where b: "\<And>n. rm = Inr n \<Longrightarrow> rollback n (l2, w2) = (rb :: ('ie, unit) result, (l3, w3))"
    by (cases rm) (metis sum.distinct(1), metis prod.exhaust Inr_inject)
  have one: "same_log l l1" by (rule keepsD [OF keeps_methods(1) m])
  have two: "same_log l l2" using same_log_trans [OF one keepsD [OF op a]] .
  have three: "same_log l l3" if "rm = Inr n" for n
    using same_log_trans [OF two keepsD [OF keeps_methods(2) b [OF that]]] .
  have "config this' = config this \<and> (\<exists>l'. wal_of this' = Some l' \<and> same_log l l')"
    using run Some m a x b one two three
    by (cases rm; cases ra; cases rx; cases rb) (auto simp: log_then_apply_def)
  then show ?thesis using well_configured_update [OF wc Some] by blast
qed

lemma made_configured: "made E this \<Longrightarrow> well_configured this"
proof (induction rule: made.induct)
  case (opened i cfg S w this w')
  then show ?case
    by (auto simp: open_with_storage_def Let_def well_configured_def dest!: wal_create_identity
        split: if_splits elim!: sbind_InrE)
next
  case (loaded cfg S w this w')
  then show ?case
    by (auto simp: load_with_storage_def Let_def well_configured_def dest!: wal_open_identity
        split: if_splits prod.splits elim!: sbind_InrE)
next
  case (inserted this vid v m w r this' w')
  then show ?case using log_then_apply_configured [OF inserted.IH keeps_methods(5)] by (simp add: insert_vector_def)
next
  case (deleted this vid w r this' w')
  then show ?case using log_then_apply_configured [OF deleted.IH keeps_methods(6)] by (simp add: delete_vector_def)
next
  case (checkpointed this w r this' w')
  then show ?case
    by (auto simp: checkpoint_def Let_def well_configured_def same_log_def split: prod.splits sum.splits option.splits
        dest!: keepsD [OF keeps_methods(3)])
next
  case (borrowed this f this')
  then show ?case by (auto simp: index_mut_def well_configured_def split: prod.splits)
qed

text \<open>The version that \<open>cargo\<close> takes from the manifest; its example asks for three parts.\<close>

definition VERSION :: string where
  "VERSION = ''1.0.0''"

lemma VERSION_parts: "length (filter (\<lambda>c. c = CHR ''.'') VERSION) + 1 = 3"
  by (simp add: VERSION_def)

text \<open>
  \<open>Debug\<close> of a wrapper, in the format without line breaks; the printers of the index and of the
  configuration are parameters.  Of the log it shows whether there is one, which is the mode.
\<close>

definition debug_fmt :: "('i \<Rightarrow> string) \<Rightarrow> (persist_config \<Rightarrow> string) \<Rightarrow> ('i, 'ie) persisted \<Rightarrow> string" where
  "debug_fmt debug_inner debug_config this =
     ''PersistedIndex { inner: '' @ debug_inner (inner this) @ '', config: '' @ debug_config (config this) @
     '', storage: \"<dyn Storage>\", wal: '' @ (if wal_of this \<noteq> None then ''true'' else ''false'') @ '' }''"

lemma debug_shows_mode:
  assumes "made E this"
  shows "\<exists>rest. debug_fmt debug_inner debug_config this =
    rest @ (if wal_enabled (config this) then ''wal: true }'' else ''wal: false }'')"
  using made_configured [OF assms] by (auto simp: well_configured_def debug_fmt_def)

text \<open>
  C8. The field \<open>wal\<close>.  In every wrapper the public functions can produce, whatever failed on
  the way, there is a log exactly when the configuration enables one, it is the file beside
  the snapshot and it follows the configured sync policy.
\<close>

theorem log_matches_config:
  assumes "made E this"
  shows "(wal_of this \<noteq> None \<longleftrightarrow> wal_enabled (config this)) \<and>
    (\<forall>l. wal_of this = Some l \<longrightarrow>
      w_path l = wal_path (cfg_path (config this)) \<and> w_policy l = cfg_fsync_policy (config this))"
  using made_configured [OF assms] by (auto simp: well_configured_def)

theorem log_matches_config_witness:
  "\<exists>this. made (mock_env :: (mock_index, bool list, unit) env) this \<and> wal_of this \<noteq> None \<and> inner this = mock_at 0"
proof -
  let ?E = "mock_env :: (mock_index, bool list, unit) env"
  obtain this w where op: "open_with ?E (mock_at 0) mock_wal_config (example_world []) = (Inr this, w)"
    using mock_opens by blast
  then have made: "made ?E this" by (auto simp: open_with_def intro: made.opened)
  have "config this = mock_wal_config \<and> inner this = mock_at 0"
    using op by (auto simp: open_with_def open_with_storage_def Let_def elim!: sbind_InrE)
  then show ?thesis using log_matches_config [OF made] made by auto
qed

end
