(* ===== verification/Wal_Typing.thy ===== *)
theory Wal_Typing
  imports Wal_Frames
begin

section \<open>What a scan can yield\<close>

text \<open>
  A log may hold any bytes.  Whatever they are, the mutations the scan yields are ones the
  program could have logged: strings are UTF-8, and the identifier, the vector and the metadata
  together take exactly the bytes that were read for them, none from behind the frame.
  \<open>yields\<close> is the logic of the cursor programs: what a program returns and how many bytes it
  took for it.
\<close>

definition yields :: "(cur, 'ie, 'a) prog \<Rightarrow> ('a \<Rightarrow> nat \<Rightarrow> bool) \<Rightarrow> bool" where
  "yields m P \<longleftrightarrow> (\<forall>c x c'. cpos c \<le> length (cbytes c) \<longrightarrow> m c = (Inr x, c') \<longrightarrow>
     cbytes c' = cbytes c \<and> cpos c \<le> cpos c' \<and> cpos c' \<le> length (cbytes c) \<and> P x (cpos c' - cpos c))"

named_theorems yielding \<open>what the cursor programs return\<close>

lemma yieldsD:
  assumes "yields m P" and "m c = (Inr x, c')" and "cpos c \<le> length (cbytes c)"
  shows "cbytes c' = cbytes c" and "cpos c \<le> cpos c'" and "cpos c' \<le> length (cbytes c)" and "P x (cpos c' - cpos c)"
  using assms unfolding yields_def by blast+

lemma yields_sbind:
  assumes "yields m P" and "\<And>x n. P x n \<Longrightarrow> yields (f x) (\<lambda>y k. Q y (n + k))"
  shows "yields (sbind m f) Q"
  unfolding yields_def
proof (intro allI impI)
  fix c y c'
  assume c: "cpos c \<le> length (cbytes c)" and "sbind m f c = (Inr y, c')"
  then obtain x c1 where m: "m c = (Inr x, c1)" and f: "f x c1 = (Inr y, c')" by (auto elim: sbind_InrE)
  note one = yieldsD [OF assms(1) m c]
  have c1: "cpos c1 \<le> length (cbytes c1)" using one(1,3) by simp
  note two = yieldsD [OF assms(2) [OF one(4)] f c1]
  have "cpos c1 - cpos c + (cpos c' - cpos c1) = cpos c' - cpos c" using one(2) two(2) by simp
  then show "cbytes c' = cbytes c \<and> cpos c \<le> cpos c' \<and> cpos c' \<le> length (cbytes c) \<and> Q y (cpos c' - cpos c)"
    using one two by auto
qed

lemma yields_pure:
  "P x 0 \<Longrightarrow> yields (sret x) P"
  "yields (sfail e) P"
  "(\<And>x. r = Inr x \<Longrightarrow> P x 0) \<Longrightarrow> yields (slift r) P"
  by (auto simp: yields_def sret_def sfail_def slift_def)

lemma yields_if: "(b \<Longrightarrow> yields m P) \<Longrightarrow> (\<not> b \<Longrightarrow> yields m' P) \<Longrightarrow> yields (if b then m else m') P"
  by simp

lemma yields_mono: "yields m P \<Longrightarrow> (\<And>x n. P x n \<Longrightarrow> Q x n) \<Longrightarrow> yields m Q"
  unfolding yields_def by blast

lemma yields_take [yielding]: "yields (cur_take umax n) (\<lambda>b k. length b = n \<and> k = n)"
  by (auto simp: yields_def cur_take_def sbind_Inr_iff slice_get_def usize_checked_add_def split: if_splits)

lemma yields_prims [yielding]:
  "yields (cur_u8 umax) (\<lambda>b k. k = 1)" "yields (cur_u32 umax) (\<lambda>b k. k = 4)"
  "yields (cur_u64 umax) (\<lambda>b k. k = 8)" "yields (cur_i64 umax) (\<lambda>b k. k = 8)"
  "yields (cur_f64 umax) (\<lambda>b k. k = 8)" "yields (cur_f32 umax) (\<lambda>b k. k = 4)"
  "yields (cur_bytes umax n) (\<lambda>b k. length b = n \<and> k = n)"
  unfolding cur_u8_def cur_u32_def cur_u64_def cur_f32_def cur_i64_def cur_f64_def cur_bytes_def
  by (auto intro!: yields_sbind [OF yields_take] yields_pure yields_take)

lemma yields_collect:
  assumes "yields get (\<lambda>x k. P x \<and> k = size_of x)"
  shows "yields (collect_n n get) (\<lambda>xs k. length xs = n \<and> (\<forall>x\<in>set xs. P x) \<and> k = sum_list (map size_of xs))"
proof (induction n)
  case 0
  show ?case unfolding collect_n.simps by (rule yields_pure) simp
next
  case (Suc n)
  show ?case
    unfolding collect_n.simps
    by (rule yields_sbind [OF assms], rule yields_sbind [OF Suc.IH], rule yields_pure) auto
qed

text \<open>The bytes that identifiers, values and entries take in a body.\<close>

fun id_size :: "vector_id \<Rightarrow> nat" where
  "id_size (U64 n) = 9"
| "id_size (Bytes b) = 9 + length b"

fun value_size :: "metadata_value \<Rightarrow> nat" where
  "value_size (VString s) = 5 + length s"
| "value_size (VInt i) = 9"
| "value_size (VFloat f) = 9"
| "value_size (VBool b) = 2"
| "value_size VNull = 1"

fun entry_size :: "bytes \<times> metadata_value \<Rightarrow> nat" where
  "entry_size (key, v) = 4 + length key + value_size v"

lemma yields_vector_id: "yields (decode_vector_id umax) (\<lambda>vid k. k = id_size vid)"
  unfolding decode_vector_id_def
  apply (rule yields_sbind [OF yields_prims(1)])
  apply (intro yields_if)
    apply (rule yields_sbind [OF yields_prims(3)], rule yields_pure, simp)
   apply (rule yields_sbind [OF yields_prims(3)], rule yields_sbind [OF yields_pure(3) [where P = "\<lambda>x k. k = 0"]], simp)
   apply (rule yields_sbind [OF yields_prims(7)], rule yields_pure, simp)
  apply (rule yields_pure)
  done

lemma yields_utf8:
  "yields (slift (ok_or e (from_utf8 b))) (\<lambda>s k. s = b \<and> utf8_valid b \<and> k = 0)"
  by (rule yields_pure) (simp add: from_utf8_def split: if_splits)

lemma yields_value: "yields (decode_value umax) (\<lambda>v k. value_utf8 v \<and> k = value_size v)"
  unfolding decode_value_def
  apply (rule yields_sbind [OF yields_prims(1)])
  apply (intro yields_if)
       apply (rule yields_sbind [OF yields_prims(2)], rule yields_sbind [OF yields_prims(7)])
       apply (rule yields_sbind [OF yields_utf8], rule yields_pure, simp)
      apply (auto intro!: yields_sbind [OF yields_prims(1)] yields_sbind [OF yields_prims(4)]
        yields_sbind [OF yields_prims(5)] yields_pure)
  done

lemma yields_entry:
  "yields (decode_entry umax) (\<lambda>e k. (utf8_valid (fst e) \<and> value_utf8 (snd e)) \<and> k = entry_size e)"
  unfolding decode_entry_def
  apply (rule yields_sbind [OF yields_prims(2)], rule yields_sbind [OF yields_prims(7)])
  apply (rule yields_sbind [OF yields_utf8], rule yields_sbind [OF yields_value], rule yields_pure)
  apply simp
  done

text \<open>Metadata collected from well-typed entries that take \<open>n\<close> bytes with their number.\<close>

definition collected :: "'m metadata_ops \<Rightarrow> nat \<Rightarrow> 'm \<Rightarrow> bool" where
  "collected M n m \<longleftrightarrow> (\<exists>entries. m = meta_collect M entries \<and> n = 4 + sum_list (map entry_size entries) \<and>
     (\<forall>(k, v)\<in>set entries. utf8_valid k \<and> value_utf8 v))"

lemma yields_metadata: "yields (decode_metadata umax M) (\<lambda>m k. collected M k m)"
  unfolding decode_metadata_def
  apply (rule yields_sbind [OF yields_prims(2)], rule yields_sbind [OF yields_collect [OF yields_entry]])
  apply (rule yields_pure)
  unfolding collected_def
  apply (intro exI conjI, rule refl)
   apply (auto simp: split_def)
  done

text \<open>A mutation that takes \<open>n\<close> bytes, and one that fits a body of \<open>n\<close> bytes.\<close>

fun takes_bytes :: "'m metadata_ops \<Rightarrow> nat \<Rightarrow> 'm wal_record \<Rightarrow> bool" where
  "takes_bytes M n (Insert vid v meta) \<longleftrightarrow>
     (\<exists>k. n = 1 + id_size vid + 4 + 4 * length v + 1 + k \<and>
       (case meta of None \<Rightarrow> k = 0 | Some m \<Rightarrow> collected M k m))"
| "takes_bytes M n (Delete vid) \<longleftrightarrow> n = 1 + id_size vid"

definition fits_body :: "'m metadata_ops \<Rightarrow> nat \<Rightarrow> 'm wal_record \<Rightarrow> bool" where
  "fits_body M n r \<longleftrightarrow> (\<exists>k\<le>n. takes_bytes M k r)"

lemma fits_body_mono: "fits_body M n r \<Longrightarrow> n \<le> n' \<Longrightarrow> fits_body M n' r"
  unfolding fits_body_def using le_trans by blast

lemma yields_body: "yields (decode_body umax M) (\<lambda>r k. takes_bytes M k r)"
proof -
  let ?meta = "\<lambda>has_meta :: byte. if has_meta = 1 then sbind (decode_metadata umax M) (\<lambda>m. sret (Some m)) else sret None"
  have meta: "yields (?meta b) (\<lambda>meta k. case meta of None \<Rightarrow> k = 0 | Some m \<Rightarrow> collected M k m)" for b
    by (intro yields_if yields_sbind [OF yields_metadata] yields_pure) simp_all
  have comp: "yields (cur_f32 umax) (\<lambda>x k. True \<and> k = 4)"
    by (rule yields_mono [OF yields_prims(6)]) simp
  have insert: "yields (sbind (decode_vector_id umax) (\<lambda>id. sbind (cur_u32 umax) (\<lambda>vec_len.
      sbind (collect_n (unat vec_len) (cur_f32 umax)) (\<lambda>v. sbind (cur_u8 umax) (\<lambda>has_meta.
      sbind (?meta has_meta) (\<lambda>meta. sret (Insert id v meta))))))) (\<lambda>r k. takes_bytes M (1 + k) r)"
    apply (rule yields_sbind [OF yields_vector_id], rule yields_sbind [OF yields_prims(2)])
    apply (rule yields_sbind [OF yields_collect [OF comp]], rule yields_sbind [OF yields_prims(1)])
    apply (rule yields_sbind [OF meta], rule yields_pure)
    apply (simp add: sum_list_triv)
    done
  have delete: "yields (sbind (decode_vector_id umax) (\<lambda>id. sret (Delete id))) (\<lambda>r k. takes_bytes M (1 + k) r)"
    by (rule yields_sbind [OF yields_vector_id], rule yields_pure) simp
  show ?thesis
    unfolding decode_body_def
    by (rule yields_sbind [OF yields_prims(1)]) (simp only:, intro yields_if insert delete yields_pure)
qed

lemma decode_record_fits:
  assumes "decode_record umax M body = (Inr r :: ('ie, 'm wal_record) result)"
  shows "fits_body M (length body) r"
proof -
  obtain c where run: "decode_body umax M (cur_new body) = (Inr r :: ('ie, 'm wal_record) result, c)"
    using assms unfolding decode_record_def by (metis prod.collapse)
  have "cpos (cur_new body) \<le> length (cbytes (cur_new body))" by (simp add: cur_new_def)
  note took = yieldsD [OF yields_body run this]
  show ?thesis unfolding fits_body_def using took(3,4) by (auto simp: cur_new_def)
qed

lemma frames_small: "body \<in> set (frames crc bs) \<Longrightarrow> length body \<le> MAX_RECORD_LEN"
proof (induction crc bs rule: frames.induct)
  case (1 crc bs)
  show ?case
  proof (cases "next_frame crc bs")
    case None
    with "1.prems" show ?thesis by (simp add: frames_stop)
  next
    case (Some fr)
    obtain b rest where fr: "fr = (b, rest)" by (cases fr)
    have "length b \<le> MAX_RECORD_LEN"
      using Some by (auto simp: fr next_frame_def Let_def split: if_splits)
    moreover have "body = b \<or> body \<in> set (frames crc rest)"
      using "1.prems" by (simp add: frames.simps [of crc bs] Some fr)
    ultimately show ?thesis using "1.IH" [OF Some] fr by blast
  qed
qed

lemma decode_all_fits:
  "decode_all umax M bodies = (Inr rs :: ('ie, 'm wal_record list) result) \<Longrightarrow> r \<in> set rs \<Longrightarrow>
    \<exists>body\<in>set bodies. fits_body M (length body) r"
  by (induction bodies arbitrary: rs) (auto simp: rbind_Inr_iff dest: decode_record_fits)

lemma parse_records_frames:
  assumes "parse_records umax crc M bytes = (Inr rs :: ('ie, 'm wal_record list) result)" and "length bytes \<le> umax"
  shows "rs = [] \<or> (\<exists>bodies. decode_all umax M bodies = (Inr rs :: ('ie, 'm wal_record list) result) \<and>
    (\<forall>body\<in>set bodies. length body \<le> MAX_RECORD_LEN))"
proof (cases "length bytes < 12")
  case True
  then show ?thesis using assms(1) by (simp add: parse_records_def)
next
  case False
  then have "parse_frames umax crc M bytes 12 [] = (Inr rs :: ('ie, 'm wal_record list) result)"
    using assms(1) by (auto simp: parse_records_def Let_def split: if_splits)
  then have "decode_all umax M (frames crc (drop 12 bytes)) = (Inr rs :: ('ie, 'm wal_record list) result)"
    using assms(2) by (auto simp: parse_frames_spec rbind_Inr_iff)
  then show ?thesis using frames_small by blast
qed

subsection \<open>Properties\<close>

text \<open>
  C38. Recovered mutations are well typed.  However the bytes of a log came about, every
  mutation the scan yields takes, with its identifier, the four bytes of each component of
  its vector and the keys and values of its metadata, at most the 256 MiB of a frame, and its
  metadata was collected from entries whose keys and string values are UTF-8.
\<close>

theorem recovered_mutations_typed:
  assumes "parse_records umax crc M bytes = (Inr rs :: ('ie, 'm wal_record list) result)" and "length bytes \<le> umax"
    and "r \<in> set rs"
  shows "fits_body M MAX_RECORD_LEN r"
  using parse_records_frames [OF assms(1,2)] decode_all_fits [OF _ assms(3)] assms(3) fits_body_mono
  by fastforce

theorem recovered_mutations_typed_witness:
  "fits_body flag_ops MAX_RECORD_LEN example_record"
  by (rule recovered_mutations_typed [OF parse_log [OF example_log_loggable MAX_RECORD_LEN_U32 example_log_length]
        example_log_length]) (simp add: example_log_def)

end
