(* ===== verification/Error_Display.thy ===== *)
theory Error_Display
  imports Storage
begin

section \<open>The text of an error (\<open>Display\<close> in \<open>src/error.rs\<close>)\<close>

text \<open>
  \<open>PersistError\<close> as \<open>Display\<close> prints it.  The printers of foreign values are the record
  \<open>printers\<close>: \<open>IqdbError\<close>, a metric the crate does not know, and \<open>Debug\<close> of a string,
  which escapes by the Unicode tables.  An \<open>io::Error\<close> prints its message.  Paths print with
  the separator of unix.
\<close>

record 'ie printers =
  print_index_error :: "'ie \<Rightarrow> string"
  print_other_metric :: "nat \<Rightarrow> string"
  debug_str :: "bytes \<Rightarrow> string"

fun separated :: "string \<Rightarrow> string list \<Rightarrow> string" where
  "separated sep [] = []"
| "separated sep [x] = x"
| "separated sep (x # y # xs) = x @ sep @ separated sep (y # xs)"

fun path_display :: "path \<Rightarrow> string" where
  "path_display (Path a cs) = (if a then ''/'' else []) @ separated ''/'' cs"

definition debug_bytes :: "bytes \<Rightarrow> string" where
  "debug_bytes bs = ''['' @ separated '', '' (map (\<lambda>b. decimal (unat b)) bs) @ '']''"

definition hex_digit :: "nat \<Rightarrow> char" where
  "hex_digit d = ''0123456789abcdef'' ! d"

text \<open>The last \<open>k\<close> hexadecimal digits, most significant first; \<open>{:#010x}\<close> of a \<open>u32\<close>.\<close>

fun hex :: "nat \<Rightarrow> nat \<Rightarrow> string" where
  "hex 0 n = []"
| "hex (Suc k) n = hex k (n div 16) @ [hex_digit (n mod 16)]"

definition hex_u32 :: "u32 \<Rightarrow> string" where
  "hex_u32 w = ''0x'' @ hex 8 (unat w)"

primrec metric_debug :: "'ie printers \<Rightarrow> distance_metric \<Rightarrow> string" where
  "metric_debug P Cosine = ''Cosine''"
| "metric_debug P DotProduct = ''DotProduct''"
| "metric_debug P Euclidean = ''Euclidean''"
| "metric_debug P Manhattan = ''Manhattan''"
| "metric_debug P Hamming = ''Hamming''"
| "metric_debug P (OtherMetric n) = print_other_metric P n"

primrec error_display :: "'ie printers \<Rightarrow> 'ie persist_error \<Rightarrow> string" where
  "error_display P (Io p source) = ''I/O error on '' @ path_display p @ '': '' @ io_error_msg source"
| "error_display P (BadMagic found) =
     ''bad magic: not an iqdb snapshot (found '' @ debug_bytes found @ '')''"
| "error_display P (UnsupportedVersion found supported) =
     ''unsupported format version: found '' @ decimal (unat found) @ '', supported '' @ decimal (unat supported)"
| "error_display P (ChecksumMismatch expected computed) =
     ''checksum mismatch: header expected '' @ hex_u32 expected @ '', computed '' @ hex_u32 computed"
| "error_display P (TruncatedHeader needed found) =
     ''truncated header: needed '' @ decimal needed @ '' bytes, found '' @ decimal found"
| "error_display P (TruncatedPayload needed found) =
     ''truncated payload: needed '' @ decimal (unat needed) @ '' bytes, found '' @ decimal (unat found)"
| "error_display P (InvalidMetric tag) = ''invalid metric tag: '' @ decimal (unat tag)"
| "error_display P (UnsupportedMetric metric) =
     ''unsupported metric for this build: '' @ metric_debug P metric"
| "error_display P (InvalidIndexType found expected) =
     ''index type mismatch: file declared '' @ debug_str P found @ '', caller expected '' @ debug_str P expected"
| "error_display P (InvalidPayload reason) = ''invalid payload: '' @ reason"
| "error_display P (CompressionError reason) = ''compression error: '' @ reason"
| "error_display P (IndexBuild e) = ''index construction failed: '' @ print_index_error P e"
| "error_display P (Unsupported feature available_in) =
     ''feature not supported in this build: '' @ feature @ '' (available in '' @ available_in @ '')''"

subsection \<open>What the text tells\<close>

lemma length_hex [simp]: "length (hex k n) = k"
  by (induction k arbitrary: n) simp_all

lemma hex_digit_inject: "c < 16 \<Longrightarrow> d < 16 \<Longrightarrow> hex_digit c = hex_digit d \<longleftrightarrow> c = d"
  unfolding hex_digit_def by (intro nth_eq_iff_index_eq) simp_all

lemma hex_inject: "m < 16 ^ k \<Longrightarrow> n < 16 ^ k \<Longrightarrow> hex k m = hex k n \<longleftrightarrow> m = n"
proof (induction k arbitrary: m n)
  case (Suc k)
  have "m div 16 < 16 ^ k" "n div 16 < 16 ^ k" using Suc.prems by (simp_all add: less_mult_imp_div_less)
  from Suc.IH [OF this] show ?case
    by (auto simp: hex_digit_inject) (metis div_mult_mod_eq)
qed simp

lemma hex_u32_inject: "hex_u32 v = hex_u32 w \<longleftrightarrow> v = w"
proof -
  have "unat (x :: u32) < 16 ^ 8" for x by (rule order_less_le_trans [OF unsigned_less]) simp
  then show ?thesis by (simp add: hex_u32_def hex_inject word_unat_eq_iff)
qed

lemma length_hex_u32 [simp]: "length (hex_u32 w) = 10"
  by (simp add: hex_u32_def)

text \<open>
  Errors can be told apart by their text.  Two errors with the same text are of the same
  kind, whatever the foreign printers print; the text of a checksum mismatch determines both
  checksums.
\<close>

theorem error_text_distinguishes:
  assumes "error_display P e = error_display P e'"
  shows "error_kind e = error_kind e' \<and>
    (\<forall>expected computed. e = ChecksumMismatch expected computed \<longrightarrow> e' = e)"
  using assms
  by (cases e; cases e') (simp_all add: hex_u32_inject append_eq_append_conv)

text \<open>Two errors that print alike.\<close>

theorem error_text_distinguishes_witness:
  "(\<forall>P. error_display P (Unsupported ''a'' ''b (available in c'') = error_display P (Unsupported ''a (available in b'' ''c'')) \<and>
    error_kind (Unsupported ''a'' ''b (available in c'' :: unit persist_error) =
      error_kind (Unsupported ''a (available in b'' ''c'' :: unit persist_error)"
proof -
  have same: "error_display P (Unsupported ''a'' ''b (available in c'') = error_display P (Unsupported ''a (available in b'' ''c'')"
    for P :: "unit printers"
    by simp
  show ?thesis using error_text_distinguishes [OF same] by simp
qed

end
