(* ===== verification/Save_And_Load.thy ===== *)
theory Save_And_Load
  imports Sessions
begin

section \<open>The example \<open>examples/save_and_load.rs\<close>\<close>

text \<open>
  \<open>VecIndex\<close>, the rows of an index in a \<open>Vec\<close>, with its self-describing payload, and the
  life of \<open>main\<close>: wrap, save, load.  Casts \<open>as usize\<close> truncate, as in Rust.  Memory is not
  modelled: \<open>Vec::with_capacity\<close> only reserves, and its abort on a size no allocator can
  give is left out.
\<close>

record vec_index =
  vec_dim :: nat
  vec_metric :: distance_metric
  vec_rows :: "(u64 \<times> f32 list) list"

definition vec_insert :: "vector_id \<Rightarrow> f32 list \<Rightarrow> 'm option \<Rightarrow> vec_index \<Rightarrow> ('ie + unit) \<times> vec_index" where
  "vec_insert vid v m this =
     (Inr (), case vid of U64 n \<Rightarrow> this\<lparr>vec_rows := vec_rows this @ [(n, v)]\<rparr> | Bytes _ \<Rightarrow> this)"

definition vec_delete :: "vector_id \<Rightarrow> vec_index \<Rightarrow> ('ie + unit) \<times> vec_index" where
  "vec_delete vid this = (Inr (), this)"

definition vec_len :: "vec_index \<Rightarrow> nat" where
  "vec_len this = length (vec_rows this)"

definition vec_new :: "nat \<Rightarrow> distance_metric \<Rightarrow> 'ie + vec_index" where
  "vec_new dim metric = Inr \<lparr>vec_dim = dim, vec_metric = metric, vec_rows = []\<rparr>"

subsection \<open>The payload\<close>

text \<open>\<open>as usize\<close> on a host whose largest \<open>usize\<close> is \<open>umax\<close>.\<close>

definition as_usize :: "nat \<Rightarrow> u64 \<Rightarrow> nat" where
  "as_usize umax w = unat w mod (umax + 1)"

fun vec_tag :: "distance_metric \<Rightarrow> ('ie, byte) result" where
  "vec_tag Cosine = Inr 0"
| "vec_tag DotProduct = Inr 1"
| "vec_tag Euclidean = Inr 2"
| "vec_tag Manhattan = Inr 3"
| "vec_tag Hamming = Inr 4"
| "vec_tag (OtherMetric n) = Inl (InvalidPayload ''example does not encode this metric'')"

definition vec_untag :: "byte \<Rightarrow> ('ie, distance_metric) result" where
  "vec_untag tag =
     (if tag = 0 then Inr Cosine
      else if tag = 1 then Inr DotProduct
      else if tag = 2 then Inr Euclidean
      else if tag = 3 then Inr Manhattan
      else if tag = 4 then Inr Hamming
      else Inl (InvalidPayload ''unknown metric tag in payload''))"

fun write_components :: "f32 list \<Rightarrow> (writer, 'ie, unit) prog" where
  "write_components [] = sret ()"
| "write_components (c # cs) = sbind (write_all (to_le 4 c)) (\<lambda>_. write_components cs)"

fun write_rows :: "(u64 \<times> f32 list) list \<Rightarrow> (writer, 'ie, unit) prog" where
  "write_rows [] = sret ()"
| "write_rows ((n, v) # rows) =
     sbind (write_all (to_le 8 n)) (\<lambda>_. sbind (write_components v) (\<lambda>_. write_rows rows))"

definition vec_save_to :: "vec_index \<Rightarrow> (writer, 'ie, unit) prog" where
  "vec_save_to this =
     sbind (write_all (to_le 8 (of_nat (vec_dim this) :: u64))) (\<lambda>_.
     sbind (slift (vec_tag (vec_metric this))) (\<lambda>tag.
     sbind (write_all [tag]) (\<lambda>_.
     sbind (write_all (to_le 8 (of_nat (length (vec_rows this)) :: u64))) (\<lambda>_.
     write_rows (vec_rows this)))))"

text \<open>The inner and the outer loop of \<open>load_from\<close>, with the vectors they push to.\<close>

fun read_components :: "nat \<Rightarrow> f32 list \<Rightarrow> (reader, 'ie, f32 list) prog" where
  "read_components 0 v = sret v"
| "read_components (Suc k) v = sbind (read_io 4) (\<lambda>f_buf. read_components k (v @ [of_le f_buf]))"

fun read_rows :: "nat \<Rightarrow> nat \<Rightarrow> (u64 \<times> f32 list) list \<Rightarrow> (reader, 'ie, (u64 \<times> f32 list) list) prog" where
  "read_rows dim 0 rows = sret rows"
| "read_rows dim (Suc k) rows =
     sbind (read_io 8) (\<lambda>u64_buf.
     sbind (read_components dim []) (\<lambda>v. read_rows dim k (rows @ [(of_le u64_buf, v)])))"

definition vec_load_from :: "nat \<Rightarrow> (reader, 'ie, vec_index) prog" where
  "vec_load_from umax =
     sbind (read_io 8) (\<lambda>u64_buf. let dim = as_usize umax (of_le u64_buf) in
     sbind (read_io 1) (\<lambda>tag.
     sbind (slift (vec_untag (tag ! 0))) (\<lambda>metric.
     sbind (read_io 8) (\<lambda>u64_buf. let n = as_usize umax (of_le u64_buf) in
     sbind (read_rows dim n []) (\<lambda>rows.
     sret \<lparr>vec_dim = dim, vec_metric = metric, vec_rows = rows\<rparr>)))))"

definition vec_ops :: "nat \<Rightarrow> (vec_index, 'm, 'ie) index_ops" where
  "vec_ops umax = \<lparr>ix_insert = vec_insert, ix_delete = vec_delete, ix_len = vec_len, ix_dim = vec_dim,
     ix_metric = vec_metric, INDEX_TYPE = ascii ''vec'', save_to = vec_save_to, load_from = vec_load_from umax\<rparr>"

subsection \<open>The contract\<close>

definition row_image :: "u64 \<times> f32 list \<Rightarrow> bytes" where
  "row_image row = to_le 8 (fst row) @ concat (map (to_le 4) (snd row))"

definition rows_image :: "(u64 \<times> f32 list) list \<Rightarrow> bytes" where
  "rows_image rows = concat (map row_image rows)"

definition vec_payload :: "vec_index \<Rightarrow> bytes" where
  "vec_payload i = to_le 8 (of_nat (vec_dim i) :: u64) @ the (metric_tag (vec_metric i)) #
     to_le 8 (of_nat (length (vec_rows i)) :: u64) @ rows_image (vec_rows i)"

text \<open>Rows of the index's dimension, in a payload the host can hold.\<close>

definition vec_wf :: "nat \<Rightarrow> vec_index \<Rightarrow> bool" where
  "vec_wf umax i \<longleftrightarrow> vec_dim i \<le> umax \<and> metric_tag (vec_metric i) \<noteq> None \<and>
     (\<forall>row\<in>set (vec_rows i). length (snd row) = vec_dim i) \<and> length (vec_payload i) \<le> umax"

lemma write_components_image:
  "write_components v (vec_writer buf) = (Inr (), vec_writer (buf @ concat (map (to_le 4) v)))"
  by (induction v arbitrary: buf) (simp_all add: sret_def sbind_def del: to_le.simps)

lemma write_rows_image: "write_rows rows (vec_writer buf) = (Inr (), vec_writer (buf @ rows_image rows))"
  by (induction rows arbitrary: buf)
    (auto simp: rows_image_def row_image_def sret_def sbind_def write_components_image simp del: to_le.simps)

lemma read_components_image:
  "read_components (length v) acc \<lparr>rrest = concat (map (to_le 4) v) @ ys, rpos = p, rend = e\<rparr> =
    (Inr (acc @ v), \<lparr>rrest = ys, rpos = p + 4 * length v, rend = e\<rparr>)"
  by (induction v arbitrary: acc p) (simp_all add: sret_def sbind_def read_io_ok del: to_le.simps)

lemma length_components: "length (concat (map (to_le 4) v)) = 4 * length v"
  by (induction v) (simp_all del: to_le.simps)

lemma read_rows_image:
  assumes "\<forall>row\<in>set rows. length (snd row) = dim"
  shows "read_rows dim (length rows) acc \<lparr>rrest = rows_image rows @ ys, rpos = p, rend = e\<rparr> =
    (Inr (acc @ rows), \<lparr>rrest = ys, rpos = p + length (rows_image rows), rend = e\<rparr>)"
  using assms
proof (induction rows arbitrary: acc p)
  case Nil
  then show ?case by (simp add: rows_image_def sret_def)
next
  case (Cons row rows)
  obtain n v where row: "row = (n, v)" by (cases row)
  have dim: "dim = length v" using Cons.prems by (simp add: row)
  show ?case
    using Cons
    by (simp add: row rows_image_def row_image_def sbind_def read_io_ok read_components_image length_components dim del: to_le.simps)
qed

lemma rows_image_length: "length rows \<le> length (rows_image rows)"
  by (induction rows) (auto simp: rows_image_def row_image_def)

lemma vec_tag_metric: "metric_tag m = Some t \<Longrightarrow> vec_tag m = Inr t \<and> vec_untag t = Inr m"
  by (cases m) (auto simp: metric_tag_def vec_untag_def)

lemma vec_saves:
  assumes "vec_wf umax i"
  shows "vec_save_to i (vec_writer buf) = (Inr (), vec_writer (buf @ vec_payload i))"
proof -
  obtain t where "metric_tag (vec_metric i) = Some t" using assms by (auto simp: vec_wf_def)
  then show ?thesis
    by (simp add: vec_save_to_def sbind_def vec_tag_metric write_rows_image vec_payload_def del: to_le.simps)
qed

lemma as_usize_of_nat: "n \<le> umax \<Longrightarrow> umax \<le> U64_MAX \<Longrightarrow> as_usize umax (of_nat n) = n"
  by (simp add: as_usize_def unat_of_nat_u64)

lemma vec_rows_bound: "vec_wf umax i \<Longrightarrow> length (vec_rows i) \<le> umax"
  using rows_image_length [of "vec_rows i"] by (simp add: vec_wf_def vec_payload_def)

lemma vec_loads:
  assumes "vec_wf umax i" and "umax \<le> U64_MAX"
  shows "fst (vec_load_from umax (cursor_new (vec_payload i))) = Inr i"
proof -
  obtain t where "metric_tag (vec_metric i) = Some t" using assms by (auto simp: vec_wf_def)
  moreover have "\<forall>row\<in>set (vec_rows i). length (snd row) = vec_dim i" and "vec_dim i \<le> umax"
    using assms(1) by (simp_all add: vec_wf_def)
  ultimately show ?thesis
    using vec_rows_bound [OF assms(1)] assms(2)
    by (simp add: vec_load_from_def sbind_def sret_def vec_payload_def cursor_new_def read_io_ok read_io_one
        read_rows_image [where ys = "[]", simplified]
        vec_tag_metric as_usize_of_nat Let_def del: to_le.simps)
qed

lemma vec_persistable:
  assumes "4096 \<le> umax" and "umax \<le> U64_MAX"
  shows "persistable (vec_ops umax) (vec_wf umax) vec_payload umax"
proof
  fix i
  assume "vec_wf umax i"
  then show "header_fits umax (vec_ops umax) i \<and> length (vec_payload i) \<le> umax"
    using assms vec_rows_bound [of umax i]
    by (simp add: header_fits_def vec_ops_def vec_wf_def vec_len_def MAX_INDEX_TYPE_LEN_def ascii_def)
qed (use assms in \<open>simp_all add: vec_ops_def vec_saves vec_loads vec_insert_def vec_delete_def\<close>)

interpretation vec: persistable "vec_ops U64_MAX" "vec_wf U64_MAX" vec_payload U64_MAX
  by (rule vec_persistable) (simp_all add: U64_MAX_def)

subsection \<open>\<open>main\<close>\<close>

text \<open>
  The host, the codecs, the checksum and the metadata are the parameters they are everywhere.
  The directory of \<open>path\<close> has been created; what is printed is left out.  The two rows are
  written as the bits of their decimal fractions.
\<close>

definition vec_env ::
  "nat \<Rightarrow> codec \<Rightarrow> (bytes \<Rightarrow> u32) \<Rightarrow> 'm metadata_ops \<Rightarrow> (vec_index, 'm, 'ie) env" where
  "vec_env umax C crc M =
     \<lparr>host_umax = umax, codecs = C, crc_hash = crc, metadata = M, index = vec_ops umax\<rparr>"

definition row_1 :: "f32 list" where
  "row_1 = [0x3DCCCCCD, 0x3E4CCCCD, 0x3E99999A]"

definition row_2 :: "f32 list" where
  "row_2 = [0x3ECCCCCD, 0x3F000000, 0x3F19999A]"

definition save_and_load_main :: "(vec_index, 'm, 'ie) env \<Rightarrow> path \<Rightarrow> (world, 'ie, (vec_index, 'ie) persisted) prog" where
  "save_and_load_main E path =
     sbind (slift (map_iqdb (vec_new 3 Cosine))) (\<lambda>i.
     let (r, i) = vec_insert (U64 1) row_1 (None :: 'm option) i in
     sbind (slift (map_iqdb r)) (\<lambda>_.
     let (r, i) = vec_insert (U64 2) row_2 (None :: 'm option) i in
     sbind (slift (map_iqdb r)) (\<lambda>_.
     let cfg = config_new path in
     sbind (open_with E i cfg) (\<lambda>wrapped.
     sbind (save E wrapped) (\<lambda>_.
     load E cfg)))))"

lemma vec_snapshots:
  assumes "4096 \<le> umax" and "umax \<le> U64_MAX" and "codec_ok C"
  shows "snapshots (vec_env umax C crc M :: (vec_index, 'm, 'ie) env) (vec_wf umax) vec_payload"
  using vec_persistable [OF assms(1,2)] assms(3)
  by (simp add: snapshots_def snapshots_axioms_def vec_env_def)

text \<open>
  The example \<open>save_and_load\<close> does what it says.  In a directory with room for the files, and
  when no call fails, it runs to its end, whatever the host, the codecs and the checksum are; the
  index it loads has the two rows it saved, so its assertion holds.
\<close>

theorem save_and_load_runs:
  fixes M :: "'m metadata_ops"
  assumes host: "4096 \<le> umax" "umax \<le> U64_MAX" and C: "codec_ok C"
    and world: "fs_ok w" "calm w" "room path w" "placed path"
  shows "\<exists>restored v. save_and_load_main (vec_env umax C crc M :: (vec_index, 'm, 'ie) env) path w = (Inr restored, v) \<and>
    vec_len (inner restored) = 2 \<and> vec_rows (inner restored) = [(1, row_1), (2, row_2)]"
proof -
  let ?E = "vec_env umax C crc M :: (vec_index, 'm, 'ie) env"
  let ?i = "\<lparr>vec_dim = 3, vec_metric = Cosine, vec_rows = [(1, row_1), (2, row_2)]\<rparr>"
  note snap = vec_snapshots [OF host C, where crc = crc and M = M and 'ie = 'ie]
  have "vec_wf umax ?i"
    using host(1)
    by (simp add: vec_wf_def vec_payload_def rows_image_def row_image_def row_1_def row_2_def metric_tag_def)
  from opened_saved [OF snap this world] obtain bytes v where
    run: "open_with ?E ?i (config_new path) w = (Inr (wrapper_of path ?i), w)" "save ?E (wrapper_of path ?i) w = (Inr (), v)"
    and v: "decode_snapshot ?E bytes = Inr ?i" "calm v" "fs_ok v" "content v path = Some bytes" by blast
  have "save_and_load_main ?E path w = (Inr (wrapper_of path ?i), v)"
    using run load_calm_snapshot [OF v(2-4,1)]
    by (simp add: save_and_load_main_def vec_new_def vec_insert_def Let_def sbind_def slift_def)
  then show ?thesis by (simp add: vec_len_def)
qed

theorem save_and_load_runs_witness:
  "\<exists>restored v. save_and_load_main (vec_env U64_MAX stored_codec crc32_ieee flag_ops :: (vec_index, bool list, unit) env)
      db_path (example_world []) = (Inr restored, v) \<and>
    vec_len (inner restored) = 2 \<and> vec_rows (inner restored) = [(1, row_1), (2, row_2)]"
  by (rule save_and_load_runs [OF _ _ stored_codec_ok example_world_ok _ example_room db_path_placed])
    (simp_all add: U64_MAX_def calm_def example_world_def)

end
