(* ===== verification/Wal_Recovery.thy ===== *)
theory Wal_Recovery
  imports Save_And_Load
begin

section \<open>The example \<open>examples/wal_recovery.rs\<close>\<close>

text \<open>
  The second \<open>VecIndex\<close>: the struct and \<open>insert\<close> are those of the first, \<open>delete\<close> removes
  rows, and the payload has no metric, every loaded index being \<open>Cosine\<close>.  \<open>main\<close> is a session
  in WAL mode that ends without a checkpoint, and a second one that recovers.
\<close>

definition vec_retain :: "vector_id \<Rightarrow> vec_index \<Rightarrow> ('ie + unit) \<times> vec_index" where
  "vec_retain vid this =
     (Inr (), case vid of
        U64 n \<Rightarrow> this\<lparr>vec_rows := filter (\<lambda>(r, _). r \<noteq> n) (vec_rows this)\<rparr>
      | Bytes _ \<Rightarrow> this)"

definition cosine_save_to :: "vec_index \<Rightarrow> (writer, 'ie, unit) prog" where
  "cosine_save_to this =
     sbind (write_all (to_le 8 (of_nat (vec_dim this) :: u64))) (\<lambda>_.
     sbind (write_all (to_le 8 (of_nat (length (vec_rows this)) :: u64))) (\<lambda>_.
     write_rows (vec_rows this)))"

definition cosine_load_from :: "nat \<Rightarrow> (reader, 'ie, vec_index) prog" where
  "cosine_load_from umax =
     sbind (read_io 8) (\<lambda>b8. let dim = as_usize umax (of_le b8) in
     sbind (read_io 8) (\<lambda>b8. let n = as_usize umax (of_le b8) in
     sbind (read_rows dim n []) (\<lambda>rows.
     sret \<lparr>vec_dim = dim, vec_metric = Cosine, vec_rows = rows\<rparr>)))"

definition cosine_ops :: "nat \<Rightarrow> (vec_index, 'm, 'ie) index_ops" where
  "cosine_ops umax = \<lparr>ix_insert = vec_insert, ix_delete = vec_retain, ix_len = vec_len, ix_dim = vec_dim,
     ix_metric = vec_metric, INDEX_TYPE = ascii ''vec'', save_to = cosine_save_to,
     load_from = cosine_load_from umax\<rparr>"

subsection \<open>The contract\<close>

definition cosine_payload :: "vec_index \<Rightarrow> bytes" where
  "cosine_payload i = to_le 8 (of_nat (vec_dim i) :: u64) @
     to_le 8 (of_nat (length (vec_rows i)) :: u64) @ rows_image (vec_rows i)"

definition cosine_wf :: "nat \<Rightarrow> vec_index \<Rightarrow> bool" where
  "cosine_wf umax i \<longleftrightarrow> vec_dim i \<le> umax \<and> vec_metric i = Cosine \<and>
     (\<forall>row\<in>set (vec_rows i). length (snd row) = vec_dim i) \<and> length (cosine_payload i) \<le> umax"

lemma cosine_rows_bound: "cosine_wf umax i \<Longrightarrow> length (vec_rows i) \<le> umax"
  using rows_image_length [of "vec_rows i"] by (simp add: cosine_wf_def cosine_payload_def)

lemma cosine_saves: "cosine_save_to i (vec_writer buf) = (Inr (), vec_writer (buf @ cosine_payload i))"
  by (simp add: cosine_save_to_def sbind_def write_rows_image cosine_payload_def del: to_le.simps)

lemma cosine_loads:
  assumes "cosine_wf umax i" and "umax \<le> U64_MAX"
  shows "fst (cosine_load_from umax (cursor_new (cosine_payload i))) = Inr i"
  using assms cosine_rows_bound [OF assms(1)]
  by (simp add: cosine_wf_def cosine_load_from_def sbind_def sret_def cosine_payload_def cursor_new_def read_io_ok
      read_rows_image [where ys = "[]", simplified] as_usize_of_nat Let_def del: to_le.simps)

lemma cosine_persistable:
  assumes "4096 \<le> umax" and "umax \<le> U64_MAX"
  shows "persistable (cosine_ops umax) (cosine_wf umax) cosine_payload umax"
proof
  fix i
  assume "cosine_wf umax i"
  then show "header_fits umax (cosine_ops umax) i \<and> length (cosine_payload i) \<le> umax"
    using assms cosine_rows_bound [of umax i]
    by (simp add: header_fits_def cosine_ops_def cosine_wf_def vec_len_def MAX_INDEX_TYPE_LEN_def ascii_def
        metric_tag_def)
qed (use assms in \<open>simp_all add: cosine_ops_def cosine_saves cosine_loads vec_insert_def vec_retain_def\<close>)

interpretation cosine: persistable "cosine_ops U64_MAX" "cosine_wf U64_MAX" cosine_payload U64_MAX
  by (rule cosine_persistable) (simp_all add: U64_MAX_def)

subsection \<open>\<open>main\<close>\<close>

definition cosine_env ::
  "nat \<Rightarrow> codec \<Rightarrow> (bytes \<Rightarrow> u32) \<Rightarrow> 'm metadata_ops \<Rightarrow> (vec_index, 'm, 'ie) env" where
  "cosine_env umax C crc M =
     \<lparr>host_umax = umax, codecs = C, crc_hash = crc, metadata = M, index = cosine_ops umax\<rparr>"

definition row_3 :: "f32 list" where
  "row_3 = [0x3F333333, 0x3F4CCCCD, 0x3F666666]"

definition first_session :: "(vec_index, 'm, 'ie) env \<Rightarrow> (vec_index, 'ie, unit) wrapper_prog" where
  "first_session E =
     sbind (insert_vector E (U64 1) row_1 None) (\<lambda>_.
     sbind (insert_vector E (U64 2) row_2 None) (\<lambda>_.
     sbind (checkpoint E) (\<lambda>_.
     sbind (insert_vector E (U64 3) row_3 None) (\<lambda>_.
     delete_vector E (U64 1)))))"

definition sorted_ids :: "(vec_index, 'ie) persisted \<Rightarrow> u64 list" where
  "sorted_ids db = sort (map fst (vec_rows (index_ref db)))"

definition wal_recovery_main :: "(vec_index, 'm, 'ie) env \<Rightarrow> path \<Rightarrow> (world, 'ie, u64 list) prog" where
  "wal_recovery_main E path =
     (let cfg = (config_new path)\<lparr>wal_enabled := True\<rparr> in
      sbind (slift (map_iqdb (vec_new 3 Cosine))) (\<lambda>i.
      sbind (open_with E i cfg) (\<lambda>db w.
        case first_session E (db, w) of
          (Inl e, (db, w)) \<Rightarrow> (Inl e, w)
        | (Inr _, (db, w)) \<Rightarrow> sbind (load E cfg) (\<lambda>db. sret (sorted_ids db)) w)))"

lemma cosine_snapshots:
  assumes "4096 \<le> umax" and "umax \<le> U64_MAX" and "codec_ok C"
  shows "snapshots (cosine_env umax C crc M :: (vec_index, 'm, 'ie) env) (cosine_wf umax) cosine_payload"
  using cosine_persistable [OF assms(1,2)] assms(3)
  by (simp add: snapshots_def snapshots_axioms_def cosine_env_def)

text \<open>The script of the first session, and the indices it goes through.\<close>

definition demo_script :: "'m action list" where
  "demo_script = [Mutation (Insert (U64 1) row_1 None), Mutation (Insert (U64 2) row_2 None), Checkpoint,
     Mutation (Insert (U64 3) row_3 None), Mutation (Delete (U64 1))]"

definition vec_at :: "(u64 \<times> f32 list) list \<Rightarrow> vec_index" where
  "vec_at rows = \<lparr>vec_dim = 3, vec_metric = Cosine, vec_rows = rows\<rparr>"

lemma sbind_sret: "sbind m sret = m"
  by (rule ext) (simp add: sbind_def sret_def split: prod.split sum.split)

lemma first_session_script: "first_session E = perform_all E demo_script"
proof -
  have "perform E (Mutation r) = mutate E r" for r by (rule ext) simp
  moreover have "perform E Checkpoint = checkpoint E" by (rule ext) simp
  ultimately show ?thesis by (simp add: first_session_def demo_script_def mutate_def sbind_sret)
qed

lemma cosine_apply [simp]:
  "ix_insert (index (cosine_env umax C crc M)) (U64 n) v m (vec_at rows) = (Inr (), vec_at (rows @ [(n, v)]))"
  "ix_delete (index (cosine_env umax C crc M)) (U64 n) (vec_at rows) =
     (Inr (), vec_at (filter (\<lambda>(r, _). r \<noteq> n) rows))"
  "ix_dim (index (cosine_env umax C crc M)) (vec_at rows) = 3"
  by (simp_all add: cosine_env_def cosine_ops_def vec_insert_def vec_retain_def vec_at_def)

lemma demo_mutations: "mutations demo_script =
    [Insert (U64 1) row_1 None, Insert (U64 2) row_2 None, Insert (U64 3) row_3 None, Delete (U64 1)]"
  by (simp add: demo_script_def)

lemma demo_readable:
  assumes "metadata_ok M" and "MAX_RECORD_LEN \<le> umax"
  shows "readable (cosine_env umax C crc M) (mutations demo_script)"
  using assms
  by (simp add: readable_def demo_mutations cosine_env_def loggable_def record_ok_def component_image_def
      row_1_def row_2_def row_3_def MAX_RECORD_LEN_def wal_log_def length_frame_image)

text \<open>The rows along the way.\<close>

definition demo_rows :: "(u64 \<times> f32 list) list list" where
  "demo_rows = [[], [(1, row_1)], [(1, row_1), (2, row_2)], [(1, row_1), (2, row_2), (3, row_3)],
     [(2, row_2), (3, row_3)]]"

lemma row_lengths [simp]: "length row_1 = 3" "length row_2 = 3" "length row_3 = 3"
  by (simp_all add: row_1_def row_2_def row_3_def)

lemma demo_accepts:
  assumes "accepts (index (cosine_env umax C crc M)) (vec_at []) (take n (mutations demo_script)) j"
  shows "j \<in> vec_at ` set demo_rows"
proof -
  have "n = 0 \<or> n = 1 \<or> n = 2 \<or> n = 3 \<or> 4 \<le> n" by arith
  then show ?thesis
    using assms by (elim disjE) (auto simp: demo_mutations demo_rows_def take_Cons')
qed

lemma demo_wf:
  assumes "rows \<in> set demo_rows" and "4096 \<le> umax"
  shows "cosine_wf umax (vec_at rows)"
  using assms
  by (auto simp: cosine_wf_def vec_at_def demo_rows_def cosine_payload_def rows_image_def row_image_def
      length_components)

lemma demo_valid:
  assumes "4096 \<le> umax" and "cfg_compression cfg = NoCompression"
  shows "stays_valid (cosine_env umax C crc M :: (vec_index, 'm, 'ie) env) cfg (cosine_wf umax) cosine_payload
    (vec_at []) (mutations demo_script)"
  using demo_accepts demo_wf [OF _ assms(1)] assms(2) by (fastforce simp: stays_valid_def)

text \<open>
  The example \<open>wal_recovery\<close> recovers.  In a directory with room for the files, and when no
  call fails, it runs to its end, whatever the host, the codecs, the checksum and the metadata
  are, and the ids it recovers are 2 and 3, as its assertion demands.
\<close>

theorem wal_recovery_runs:
  fixes M :: "'m metadata_ops"
  assumes host: "MAX_RECORD_LEN \<le> umax" "umax \<le> U64_MAX" and C: "codec_ok C" and M: "metadata_ok M"
    and world: "fs_ok w" "calm w" "room path w" "placed path"
  shows "\<exists>v. wal_recovery_main (cosine_env umax C crc M :: (vec_index, 'm, 'ie) env) path w = (Inr [2, 3], v)"
proof -
  let ?E = "cosine_env umax C crc M :: (vec_index, 'm, 'ie) env"
  let ?cfg = "(config_new path)\<lparr>wal_enabled := True\<rparr>"
  have big: "4096 \<le> umax" using host(1) by (simp add: MAX_RECORD_LEN_def)
  have cfg: "wal_enabled ?cfg" "cfg_fsync_policy ?cfg = Always" "cfg_compression ?cfg = NoCompression"
      "cfg_path ?cfg = path" "validate_config (codecs ?E) ?cfg = (Inr () :: ('ie, unit) result)"
    by (simp_all add: config_new_def validate_config_def)
  have use: "wal_use ?E (cosine_wf umax) cosine_payload ?cfg"
    using cosine_snapshots [OF big host(2) C] cfg by (simp add: wal_use_def wal_use_axioms_def)
  have enc: "encodes_all ?E ?cfg" by (simp add: encodes_all_def cfg(3))
  have acc: "accepts (index ?E) (vec_at []) (mutations demo_script) (vec_at [(2, row_2), (3, row_3)])"
    by (simp add: demo_mutations)
  have rest: "at_rest ?cfg w" and path: "placed (cfg_path ?cfg)"
    using world by (simp_all add: at_rest_def cfg(4))
  obtain this that v where run: "session ?E (vec_at []) ?cfg demo_script w = (Inr this, v)"
    and ld: "load ?E ?cfg v = (Inr that, v)" "inner that = vec_at [(2, row_2), (3, row_3)]"
    using wal_use.session_runs [OF use enc path world(1) rest acc demo_readable [OF M host(1)] demo_valid [OF big cfg(3)]]
    by blast
  obtain db w1 where op: "open_with ?E (vec_at []) ?cfg w = (Inr db, w1)"
    and script: "first_session ?E (db, w1) = (Inr (), (this, v))"
    using run by (auto simp: session_def sbind_def first_session_script Let_def rbind_def split: prod.splits sum.splits)
  have "sorted_ids that = [2, 3]" by (simp add: sorted_ids_def index_ref_def ld(2) vec_at_def)
  with op script ld(1) show ?thesis
    by (simp add: wal_recovery_main_def Let_def vec_new_def sbind_def slift_def vec_at_def sret_def)
qed

theorem wal_recovery_runs_witness:
  "\<exists>v. wal_recovery_main (cosine_env U64_MAX stored_codec crc32_ieee flag_ops :: (vec_index, bool list, unit) env)
    db_path (example_world []) = (Inr [2, 3], v)"
  by (rule wal_recovery_runs [OF _ _ stored_codec_ok flag_ops_ok example_world_ok _ example_room db_path_placed])
    (simp_all add: U64_MAX_def MAX_RECORD_LEN_def calm_def example_world_def)

end
