(* ===== verification/Wal_Tests.thy ===== *)
theory Wal_Tests
  imports Sessions
begin

section \<open>The unit tests of the log (\<open>tests\<close> in \<open>src/wal.rs\<close>)\<close>

text \<open>
  The helpers of the module's tests and the tests themselves, as programs that return whether
  their assertions hold.  The property test \<open>records_round_trip\<close>, which samples its
  operations, is proved for all of them.
\<close>

fun value_eq :: "metadata_value \<Rightarrow> metadata_value \<Rightarrow> bool" where
  "value_eq (VFloat x) (VFloat y) \<longleftrightarrow> x = y"
| "value_eq a b \<longleftrightarrow> a = b"

fun meta_eq :: "'m metadata_ops \<Rightarrow> 'm option \<Rightarrow> 'm option \<Rightarrow> bool" where
  "meta_eq M None None \<longleftrightarrow> True"
| "meta_eq M (Some x) (Some y) \<longleftrightarrow>
     (if meta_len M x \<noteq> meta_len M y then False
      else \<forall>((ka, va), (kb, vb)) \<in> set (zip (meta_iter M x) (meta_iter M y)). ka = kb \<and> value_eq va vb)"
| "meta_eq M _ _ \<longleftrightarrow> False"

text \<open>Components are compared by their bits, which is what they are here.\<close>

fun records_eq :: "'m metadata_ops \<Rightarrow> 'm wal_record \<Rightarrow> 'm wal_record \<Rightarrow> bool" where
  "records_eq M (Insert ia va ma) (Insert ib vb mb) \<longleftrightarrow>
     ia = ib \<and> length va = length vb \<and> (\<forall>(x, y) \<in> set (zip va vb). x = y) \<and> meta_eq M ma mb"
| "records_eq M (Delete ia) (Delete ib) \<longleftrightarrow> ia = ib"
| "records_eq M _ _ \<longleftrightarrow> False"

definition write_and_read ::
  "(bytes \<Rightarrow> u32) \<Rightarrow> 'm metadata_ops \<Rightarrow> path \<Rightarrow> 'm wal_record list \<Rightarrow> (world, 'ie, bytes) prog" where
  "write_and_read crc M snap ops =
     sbind (wal_create snap Never) (\<lambda>l w.
       case for_each (append_record crc M) ops (l, w) of
         (Inl e, (_, w)) \<Rightarrow> (Inl e, w)
       | (Inr _, (_, w)) \<Rightarrow> smap_err (Io (wal_path snap)) (fs_read (wal_path snap)) w)"

subsection \<open>What the helper writes\<close>

lemma value_eq_refl: "value_eq v v"
  by (cases v) simp_all

lemma zip_same: "(x, y) \<in> set (zip xs xs) \<Longrightarrow> x = y"
  by (auto simp: set_zip)

lemma meta_eq_refl: "meta_eq M m m"
proof (cases m)
  case (Some x)
  then show ?thesis by (auto simp: value_eq_refl dest!: zip_same)
qed simp

lemma records_eq_refl: "records_eq M r r"
  by (cases r) (auto simp: meta_eq_refl dest!: zip_same)

lemma write_and_read_log:
  assumes world: "calm w" "fs_ok w" "\<not> dirs w (wal_path snap)" "parent_exists w (wal_path snap)"
    and ops: "\<forall>r\<in>set ops. record_ok M r"
  shows "\<exists>v. write_and_read crc M snap ops w = (Inr (wal_log crc M ops) :: ('ie, bytes) result, v)"
proof -
  obtain l w1 where create: "wal_create snap Never w = (Inr l :: ('ie, wal) result, w1)" and w1: "calm w1"
    using wal_create_sure [OF world(1,3,4)] by blast
  then have op: "opened snap Never wal_header l w1" using wal_create_effect [OF world(2) create] by simp
  then have ready: "wal_ready (l, w1)" by (simp add: opened_def)
  obtain l2 w2 where run: "for_each (append_record crc M) ops (l, w1) = (Inr () :: ('ie, unit) result, (l2, w2))" "calm w2"
    and adv: "advances (l, w1) (record_frames crc M ops) (l2, w2)"
    using append_all [OF _ ready ops, where crc = crc and 'ie = 'ie] w1 by auto
  have content: "content w2 (wal_path snap) = Some (wal_log crc M ops)"
    using advances_content [OF adv ready] op
    by (auto simp: opened_def content_def wal_ready_def wal_node_def wal_ino_def wal_log_def)
  have ok2: "fs_ok w2" using adv by (simp add: advances_def wal_ready_def)
  from fs_read_content [OF draw_calm [OF run(2)] ok2 content] show ?thesis
    using create run(1) by (simp add: write_and_read_def sbind_def smap_err_def)
qed

subsection \<open>The tests\<close>

definition empty_wal_parses_to_no_records :: "nat \<Rightarrow> (bytes \<Rightarrow> u32) \<Rightarrow> 'm metadata_ops \<Rightarrow> path \<Rightarrow> (world, 'ie, bool) prog" where
  "empty_wal_parses_to_no_records umax crc M snap =
     sbind (write_and_read crc M snap []) (\<lambda>bytes.
     sbind (slift (parse_records umax crc M bytes)) (\<lambda>parsed. sret (parsed = [])))"

definition bad_magic_is_rejected :: "nat \<Rightarrow> (bytes \<Rightarrow> u32) \<Rightarrow> 'm metadata_ops \<Rightarrow> 'ie itself \<Rightarrow> bool" where
  "bad_magic_is_rejected umax crc M T =
     (case parse_records umax crc M (ascii ''NOTAWAL!'' @ replicate 4 0) :: ('ie, 'm wal_record list) result of
        Inl (BadMagic found) \<Rightarrow> True | _ \<Rightarrow> False)"

definition wrong_version_is_rejected :: "nat \<Rightarrow> (bytes \<Rightarrow> u32) \<Rightarrow> 'm metadata_ops \<Rightarrow> 'ie itself \<Rightarrow> bool" where
  "wrong_version_is_rejected umax crc M T =
     (case parse_records umax crc M (WAL_MAGIC @ to_le 4 (999 :: u32)) :: ('ie, 'm wal_record list) result of
        Inl (UnsupportedVersion found supported) \<Rightarrow> found = 999 | _ \<Rightarrow> False)"

definition torn_ops :: "'m wal_record list" where
  "torn_ops = [Insert (U64 1) [0x3F800000, 0x40000000] None, Insert (U64 2) [0x40400000, 0x40800000] None]"

definition torn_final_frame_is_dropped :: "nat \<Rightarrow> (bytes \<Rightarrow> u32) \<Rightarrow> 'm metadata_ops \<Rightarrow> path \<Rightarrow> (world, 'ie, bool) prog" where
  "torn_final_frame_is_dropped umax crc M snap =
     sbind (write_and_read crc M snap torn_ops) (\<lambda>bytes.
     let truncated = take (length bytes - 3) bytes in
     sbind (slift (parse_records umax crc M truncated)) (\<lambda>parsed.
     sret (length parsed = 1 \<and> records_eq M (parsed ! 0) (torn_ops ! 0))))"

definition records_round_trip ::
  "nat \<Rightarrow> (bytes \<Rightarrow> u32) \<Rightarrow> 'm metadata_ops \<Rightarrow> path \<Rightarrow> 'm wal_record list \<Rightarrow> (world, 'ie, bool) prog" where
  "records_round_trip umax crc M snap ops =
     sbind (write_and_read crc M snap ops) (\<lambda>bytes.
     sbind (slift (parse_records umax crc M bytes)) (\<lambda>parsed.
     sret (length parsed = length ops \<and> (\<forall>(got, want) \<in> set (zip parsed ops). records_eq M got want))))"

lemma empty_wal_holds:
  assumes "calm w" "fs_ok w" "\<not> dirs w (wal_path snap)" "parent_exists w (wal_path snap)"
  shows "fst (empty_wal_parses_to_no_records umax crc M snap w) = (Inr True :: ('ie, bool) result)"
proof -
  obtain v where "write_and_read crc M snap [] w = (Inr (wal_log crc M []) :: ('ie, bytes) result, v)"
    using write_and_read_log [OF assms, of "[]" M] by auto
  moreover have "parse_records umax crc M (wal_log crc M []) = (Inr [] :: ('ie, 'a wal_record list) result)"
    by (simp add: wal_log_Nil parse_records_def Let_def)
      (simp add: wal_header_def u32_at_def parse_frames.simps del: to_le.simps)
  ultimately show ?thesis by (simp add: empty_wal_parses_to_no_records_def sbind_def slift_def sret_def)
qed

lemma bad_magic_holds: "bad_magic_is_rejected umax crc M TYPE('ie)"
  by (simp add: bad_magic_is_rejected_def parse_records_def WAL_MAGIC_def ascii_def)

lemma wrong_version_holds: "wrong_version_is_rejected umax crc M TYPE('ie)"
  by (simp add: wrong_version_is_rejected_def parse_records_def u32_at_def WAL_MAGIC_def WAL_VERSION_def
      Let_def del: to_le.simps)

lemma torn_ops_loggable: "metadata_ok M \<Longrightarrow> r \<in> set torn_ops \<Longrightarrow> loggable M r"
  by (auto simp: torn_ops_def loggable_def MAX_RECORD_LEN_def)

lemma torn_final_frame_holds:
  assumes "calm w" "fs_ok w" "\<not> dirs w (wal_path snap)" "parent_exists w (wal_path snap)"
    and M: "metadata_ok M" and host: "MAX_RECORD_LEN \<le> umax"
  shows "fst (torn_final_frame_is_dropped umax crc M snap w) = (Inr True :: ('ie, bool) result)"
proof -
  have all: "\<forall>r\<in>set torn_ops. loggable M r" using torn_ops_loggable [OF M] by blast
  then obtain v where run: "write_and_read crc M snap torn_ops w = (Inr (wal_log crc M torn_ops) :: ('ie, bytes) result, v)"
    using write_and_read_log [OF assms(1-4), of torn_ops M] loggable_record_ok by blast
  have len: "length (wal_log crc M torn_ops) = 74" by (simp add: wal_log_def torn_ops_def)
  have "parse_records umax crc M (take 71 (wal_log crc M torn_ops)) =
      (Inr (whole_frames M 59 torn_ops) :: ('ie, 'a wal_record list) result)"
    using parse_truncated [OF all host, of crc 71] len host by (simp add: MAX_RECORD_LEN_def)
  moreover have "whole_frames M 59 torn_ops = [torn_ops ! 0]" by (simp add: torn_ops_def Let_def)
  ultimately show ?thesis
    using run by (simp add: torn_final_frame_is_dropped_def sbind_def slift_def sret_def len Let_def records_eq_refl)
qed

subsection \<open>The property test\<close>

text \<open>
  The property test of the log holds.  Whatever mutations are appended to a new log, as long
  as each fits a frame, the file that results is scanned as those mutations: the same number, in
  order, equal in identifier, in the bits of every component and in metadata.
\<close>

theorem records_round_trip_holds:
  assumes "calm w" "fs_ok w" "\<not> dirs w (wal_path snap)" "parent_exists w (wal_path snap)"
    and ops: "\<forall>r\<in>set ops. loggable M r" and host: "MAX_RECORD_LEN \<le> umax" "length (wal_log crc M ops) \<le> umax"
  shows "fst (records_round_trip umax crc M snap ops w) = (Inr True :: ('ie, bool) result)"
proof -
  have "\<forall>r\<in>set ops. record_ok M r" using ops loggable_record_ok by blast
  then obtain v where "write_and_read crc M snap ops w = (Inr (wal_log crc M ops) :: ('ie, bytes) result, v)"
    using write_and_read_log [OF assms(1-4)] by blast
  moreover have "records_eq M got want" if "(got, want) \<in> set (zip ops ops)" for got want
    using zip_same [OF that] by (simp add: records_eq_refl)
  ultimately show ?thesis
    by (auto simp: records_round_trip_def sbind_def slift_def sret_def parse_log [OF ops host])
qed

theorem records_round_trip_holds_witness:
  "fst (records_round_trip U64_MAX crc32_ieee flag_ops db_path [example_record, Delete (U64 7)] (example_world [])) =
    (Inr True :: (unit, bool) result)"
proof -
  have ops: "\<forall>r\<in>set [example_record, Delete (U64 7)]. loggable flag_ops r"
    using example_log_loggable by (simp add: example_log_def)
  have host: "MAX_RECORD_LEN \<le> U64_MAX" by (simp add: MAX_RECORD_LEN_def U64_MAX_def)
  have len: "length (wal_log crc32_ieee flag_ops [example_record, Delete (U64 7)]) \<le> U64_MAX"
    using example_log_length [of crc32_ieee] by (simp add: example_log_def wal_log_def U32_MAX_def U64_MAX_def)
  show ?thesis
    by (rule records_round_trip_holds [OF _ example_world_ok _ _ ops host len])
      (simp_all add: calm_def example_world_def wal_path_db parent_exists_def)
qed


subsection \<open>What the property test draws\<close>

text \<open>
  The strategies, as the values drawn (\<open>drawn_op\<close>), the predicate they satisfy and the mutation
  made of them.  The pattern \<open>.*\<close> of a string is repeated at most 32 times, by characters of at
  most four bytes.
\<close>

datatype drawn_op =
    DrawnInsert vector_id "f32 list" "(bytes \<times> metadata_value) list option"
  | DrawnDelete vector_id

definition any_string :: "bytes \<Rightarrow> bool" where
  "any_string s \<longleftrightarrow> utf8_valid s \<and> length s \<le> 4 * 32"

fun drawn_value :: "metadata_value \<Rightarrow> bool" where
  "drawn_value (VString s) \<longleftrightarrow> any_string s"
| "drawn_value _ \<longleftrightarrow> True"

definition drawn_entries :: "(bytes \<times> metadata_value) list \<Rightarrow> bool" where
  "drawn_entries es \<longleftrightarrow> length es < 4 \<and> (\<forall>(k, v)\<in>set es. any_string k \<and> drawn_value v)"

fun drawn_id :: "vector_id \<Rightarrow> bool" where
  "drawn_id (U64 n) \<longleftrightarrow> True"
| "drawn_id (Bytes b) \<longleftrightarrow> 1 \<le> length b \<and> length b < 16"

fun op_strategy :: "drawn_op \<Rightarrow> bool" where
  "op_strategy (DrawnInsert vid v meta) \<longleftrightarrow>
     drawn_id vid \<and> length v < 8 \<and> (case meta of None \<Rightarrow> True | Some es \<Rightarrow> drawn_entries es)"
| "op_strategy (DrawnDelete vid) \<longleftrightarrow> drawn_id vid"

fun drawn_record :: "'m metadata_ops \<Rightarrow> drawn_op \<Rightarrow> 'm wal_record" where
  "drawn_record M (DrawnInsert vid v meta) = Insert vid v (map_option (meta_collect M) meta)"
| "drawn_record M (DrawnDelete vid) = Delete vid"

text \<open>Collected metadata has no entries but those collected.\<close>

definition collects_entries :: "'m metadata_ops \<Rightarrow> bool" where
  "collects_entries M \<longleftrightarrow> (\<forall>es. length (meta_iter M (meta_collect M es)) \<le> length es \<and>
     set (meta_iter M (meta_collect M es)) \<subseteq> set es)"

lemma drawn_metadata_size:
  assumes "collects_entries M" and "drawn_entries es"
  shows "length (metadata_image M (meta_collect M es)) \<le> 799"
proof -
  let ?it = "meta_iter M (meta_collect M es)"
  have "length (value_image v) \<le> 133" if "drawn_value v" for v
    using that by (cases v) (auto simp: any_string_def)
  then have entry: "length (entry_image (k, v)) \<le> 265" if "any_string k" "drawn_value v" for k v
    using that by (fastforce simp: entry_image_def any_string_def)
  have it: "length ?it \<le> length es" "set ?it \<subseteq> set es" using assms(1) by (simp_all add: collects_entries_def)
  have "length ?it \<le> 3" using it(1) assms(2) by (simp add: drawn_entries_def)
  moreover have "\<forall>e\<in>set ?it. length (entry_image e) \<le> 265"
    using it(2) assms(2) entry by (fastforce simp: drawn_entries_def)
  moreover have "length (concat (map entry_image xs)) \<le> 265 * length xs" if "\<forall>e\<in>set xs. length (entry_image e) \<le> 265" for xs
    using that by (induction xs) auto
  ultimately have "length (concat (map entry_image ?it)) \<le> 795" by fastforce
  then show ?thesis by (simp add: metadata_image_def)
qed

lemma drawn_record_fits:
  assumes "collects_entries M" and "op_strategy d"
  shows "length (record_image M (drawn_record M d)) \<le> 1000"
proof -
  have vid: "length (vector_id_image vid) \<le> 24" if "drawn_id vid" for vid
    using that by (cases vid) auto
  have comps: "length (concat (map component_image v)) = 4 * length v" for v
    by (induction v) (simp_all add: component_image_def)
  show ?thesis
  proof (cases d)
    case (DrawnInsert v' v meta)
    then show ?thesis
      using assms vid [of v'] drawn_metadata_size [OF assms(1)] by (cases meta) (fastforce simp: comps)+
  next
    case (DrawnDelete v')
    then show ?thesis using assms vid [of v'] by simp
  qed
qed

text \<open>The property test passes on everything it draws.\<close>

theorem records_round_trip_drawn:
  assumes world: "calm w" "fs_ok w" "\<not> dirs w (wal_path snap)" "parent_exists w (wal_path snap)"
    and M: "metadata_ok M" "collects_entries M" and drawn: "\<forall>d\<in>set ops. op_strategy d" "length ops < 12"
    and host: "MAX_RECORD_LEN \<le> umax"
  shows "fst (records_round_trip umax crc M snap (map (drawn_record M) ops) w) = (Inr True :: ('ie, bool) result)"
proof -
  let ?rs = "map (drawn_record M) ops"
  have fits: "\<forall>r\<in>set ?rs. length (record_image M r) \<le> 1000" using drawn_record_fits [OF M(2)] drawn(1) by auto
  then have log: "\<forall>r\<in>set ?rs. loggable M r" using M(1) by (auto simp: loggable_def MAX_RECORD_LEN_def)
  have "length (record_frames crc M rs) \<le> 1008 * length rs" if "\<forall>r\<in>set rs. length (record_image M r) \<le> 1000" for rs
    using that by (induction rs) auto
  from this [OF fits] have "length (wal_log crc M ?rs) \<le> umax"
    using drawn(2) host by (simp add: wal_log_def MAX_RECORD_LEN_def)
  with records_round_trip_holds [OF world log host] show ?thesis .
qed

text \<open>Metadata that knows one entry.\<close>

definition mark_entry :: "bytes \<times> metadata_value" where
  "mark_entry = (ascii ''k'', VFloat 0x7FF8000000000000)"

definition mark_ops :: "bool metadata_ops" where
  "mark_ops = \<lparr>meta_len = (\<lambda>b. if b then 1 else 0), meta_iter = (\<lambda>b. if b then [mark_entry] else []),
     meta_collect = (\<lambda>es. mark_entry \<in> set es)\<rparr>"

lemma mark_ops_ok: "metadata_ok mark_ops" "collects_entries mark_ops"
proof -
  show "metadata_ok mark_ops"
    by (simp add: metadata_ok_def mark_ops_def mark_entry_def ascii_def)
  have "1 \<le> length es" if "mark_entry \<in> set es" for es using that by (cases es) auto
  then show "collects_entries mark_ops"
    by (auto simp: collects_entries_def mark_ops_def)
qed

theorem records_round_trip_drawn_witness:
  "fst (records_round_trip U64_MAX crc32_ieee mark_ops db_path
    (map (drawn_record mark_ops) [DrawnInsert (Bytes [1]) [0x7FC00000] (Some [mark_entry]), DrawnDelete (U64 7)]) (example_world [])) =
    (Inr True :: (unit, bool) result)"
  by (rule records_round_trip_drawn [OF _ example_world_ok _ _ mark_ops_ok])
    (simp_all add: calm_def example_world_def wal_path_db parent_exists_def drawn_entries_def any_string_def mark_entry_def
      ascii_def MAX_RECORD_LEN_def U64_MAX_def)

end
