(* ===== verification/Persisted_Tests.thy ===== *)
theory Persisted_Tests
  imports Sessions
begin

section \<open>The unit tests of the persisted index (\<open>tests\<close> in \<open>src/persisted.rs\<close>)\<close>

text \<open>
  The tests of the module as programs on the file system, with \<open>unwrap\<close>, \<open>unwrap_err\<close> and
  the assertions as the ways they can fail; a test passes when it returns.  They are proved
  to pass in every directory with room for the files, whatever the host, the codecs, the
  checksum and the metadata are.
\<close>

text \<open>The error of a test: an unwrapped error, or a failed assertion.\<close>

type_synonym ('ie, 'a) test = "world \<Rightarrow> ('ie persist_error option + 'a) \<times> world"

definition unwrap :: "(world, 'ie, 'a) prog \<Rightarrow> ('ie, 'a) test" where
  "unwrap m = smap_err Some m"

definition unwrap_err :: "(world, 'ie, 'a) prog \<Rightarrow> ('ie, 'ie persist_error) test" where
  "unwrap_err m w = (case m w of (Inl e, w') \<Rightarrow> (Inr e, w') | (Inr x, w') \<Rightarrow> (Inl None, w'))"

definition assert_that :: "bool \<Rightarrow> ('ie, unit) test" where
  "assert_that b = (if b then sret () else sfail None)"

definition passes :: "('ie, unit) test \<Rightarrow> world \<Rightarrow> bool" where
  "passes t w \<longleftrightarrow> fst (t w) = Inr ()"

text \<open>\<open>std::fs::read\<close> and \<open>std::fs::write\<close> in a test.\<close>

definition test_read :: "path \<Rightarrow> ('ie, bytes) test" where
  "test_read p = unwrap (smap_err (Io p) (fs_read p))"

definition test_write :: "path \<Rightarrow> bytes \<Rightarrow> ('ie, unit) test" where
  "test_write p bs = unwrap (smap_err (Io p) (\<lambda>w.
     case fs_open_rw True p w of
       (Inl e, w) \<Rightarrow> (Inl e, w)
     | (Inr h, w) \<Rightarrow> (case fs_write_all bs (h, w) of (r, (h, w)) \<Rightarrow> (r, w))))"

definition mock_of :: "nat \<Rightarrow> distance_metric \<Rightarrow> nat \<Rightarrow> mock_index" where
  "mock_of dim metric n = \<lparr>mock_dim = dim, mock_metric = metric, mock_n = n\<rparr>"

definition mock_host ::
  "nat \<Rightarrow> codec \<Rightarrow> (bytes \<Rightarrow> u32) \<Rightarrow> 'm metadata_ops \<Rightarrow> (mock_index, 'm, 'ie) env" where
  "mock_host umax C crc M =
     \<lparr>host_umax = umax, codecs = C, crc_hash = crc, metadata = M, index = mock_ops umax\<rparr>"

definition save_failure_leaves_original_file_intact :: "(mock_index, 'm, 'ie) env \<Rightarrow> path \<Rightarrow> ('ie, unit) test" where
  "save_failure_leaves_original_file_intact E snapshot =
     (let cfg = config_new snapshot in
      sbind (unwrap (open_with E (mock_of 16 Cosine 7) cfg)) (\<lambda>wrap.
      sbind (unwrap (save E wrap)) (\<lambda>_.
      sbind (test_read snapshot) (\<lambda>good_bytes.
      sbind (assert_that (good_bytes \<noteq> [])) (\<lambda>_.
      sbind (unwrap (open_with_storage E (mock_of 16 Cosine 99) cfg failing_rename_storage)) (\<lambda>wrap2.
      sbind (unwrap_err (save E wrap2)) (\<lambda>err.
      sbind (assert_that (case err of Io p source \<Rightarrow> True | _ \<Rightarrow> False)) (\<lambda>_.
      sbind (test_read snapshot) (\<lambda>after_bytes.
      sbind (assert_that (after_bytes = good_bytes)) (\<lambda>_.
      sbind (unwrap (load E cfg)) (\<lambda>restored.
      assert_that (mock_n (index_ref restored) = 7))))))))))))"

definition wal_config_is_accepted :: "(mock_index, 'm, 'ie) env \<Rightarrow> path \<Rightarrow> ('ie, unit) test" where
  "wal_config_is_accepted E snapshot =
     (let cfg = (config_new snapshot)\<lparr>wal_enabled := True\<rparr> in
      sbind (unwrap (open_with E (mock_of 4 Euclidean 0) cfg)) (\<lambda>wrap. sret ()))"

text \<open>The two tests of a codec that is not compiled in, with the configured scheme.\<close>

definition validate_config_rejects :: "compression \<Rightarrow> (mock_index, 'm, 'ie) env \<Rightarrow> path \<Rightarrow> ('ie, unit) test" where
  "validate_config_rejects scheme E snapshot =
     (let cfg = (config_new snapshot)\<lparr>cfg_compression := scheme\<rparr> in
      sbind (unwrap_err (open_with E (mock_of 4 Euclidean 0) cfg)) (\<lambda>err.
      assert_that (case err of Unsupported feature available_in \<Rightarrow> True | _ \<Rightarrow> False)))"

definition crc_mismatch_after_byte_flip :: "(mock_index, 'm, 'ie) env \<Rightarrow> path \<Rightarrow> ('ie, unit) test" where
  "crc_mismatch_after_byte_flip E snapshot =
     (let cfg = config_new snapshot in
      sbind (unwrap (open_with E (mock_of 8 Cosine 11) cfg)) (\<lambda>wrap.
      sbind (unwrap (save E wrap)) (\<lambda>_.
      sbind (test_read snapshot) (\<lambda>bytes.
      let last = length bytes - 1 in
      sbind (test_write snapshot (bytes[last := bytes ! last XOR 1])) (\<lambda>_.
      sbind (unwrap_err (load E cfg)) (\<lambda>err.
      assert_that (case err of ChecksumMismatch expected computed \<Rightarrow> True | _ \<Rightarrow> False)))))))"

text \<open>\<open>OtherMock\<close>, an index with another type tag.\<close>

definition other_mock :: "(unit, 'm, 'ie) index_ops" where
  "other_mock = \<lparr>ix_insert = (\<lambda>vid v m this. (Inr (), this)), ix_delete = (\<lambda>vid this. (Inr (), this)),
     ix_len = (\<lambda>this. 0), ix_dim = (\<lambda>this. 4), ix_metric = (\<lambda>this. Euclidean), INDEX_TYPE = ascii ''other'',
     save_to = (\<lambda>this. sret ()), load_from = sret ()\<rparr>"

definition other_env :: "('i, 'm, 'ie) env \<Rightarrow> (unit, 'm, 'ie) env" where
  "other_env E = \<lparr>host_umax = host_umax E, codecs = codecs E, crc_hash = crc_hash E, metadata = metadata E,
     index = other_mock\<rparr>"

definition invalid_index_type_surfaces :: "(mock_index, 'm, 'ie) env \<Rightarrow> path \<Rightarrow> ('ie, unit) test" where
  "invalid_index_type_surfaces E snapshot =
     (let cfg = config_new snapshot in
      sbind (unwrap (open_with E (mock_of 4 Euclidean 3) cfg)) (\<lambda>wrap.
      sbind (unwrap (save E wrap)) (\<lambda>_.
      sbind (unwrap_err (load (other_env E) cfg)) (\<lambda>err.
      assert_that (case err of InvalidIndexType found expected \<Rightarrow> expected = ascii ''other'' | _ \<Rightarrow> False)))))"

definition roundtrip_through_storage :: "(mock_index, 'm, 'ie) env \<Rightarrow> path \<Rightarrow> ('ie, unit) test" where
  "roundtrip_through_storage E snapshot =
     (let cfg = config_new snapshot in
      sbind (unwrap (open_with E (mock_of 32 Manhattan 42) cfg)) (\<lambda>wrap.
      sbind (unwrap (save E wrap)) (\<lambda>_.
      sbind (unwrap (load E cfg)) (\<lambda>restored.
      sbind (assert_that (mock_dim (index_ref restored) = 32)) (\<lambda>_.
      sbind (assert_that (mock_metric (index_ref restored) = Manhattan)) (\<lambda>_.
      assert_that (mock_n (index_ref restored) = 42)))))))"

subsection \<open>Steps on a calm world\<close>

lemma unwrap_steps [simp]:
  "m w = (Inr x, v) \<Longrightarrow> unwrap m w = (Inr x, v)"
  "m w = (Inl e, v) \<Longrightarrow> unwrap_err m w = (Inr e, v)"
  "b \<Longrightarrow> assert_that b = sret ()"
  by (simp_all add: unwrap_def unwrap_err_def smap_err_def assert_that_def)

lemma test_read_calm:
  "calm w \<Longrightarrow> fs_ok w \<Longrightarrow> content w p = Some bs \<Longrightarrow> test_read p w = (Inr bs, w)"
  using fs_read_content [OF draw_calm] by (simp add: test_read_def unwrap_def smap_err_def)

text \<open>A file that can be written: it is there, or it can be created.\<close>

definition writable_file :: "path \<Rightarrow> world \<Rightarrow> bool" where
  "writable_file p w \<longleftrightarrow> calm w \<and> fs_ok w \<and> \<not> dirs w p \<and> parent_exists w p"

lemma test_write_run:
  assumes "writable_file p w"
  shows "\<exists>v. test_write p bs w = (Inr () :: 'ie persist_error option + unit, v) \<and> writable_file p v \<and>
    content v p = Some bs \<and> dirs v = dirs w \<and> (\<forall>q. q \<noteq> p \<longrightarrow> content v q = content w q)"
proof -
  have w: "calm w" "fs_ok w" "\<not> dirs w p" "parent_exists w p" using assms by (simp_all add: writable_file_def)
  obtain i w1 where op: "fs_open_rw True p w = (Inr \<lparr>h_ino = i, h_pos = 0\<rparr>, w1)" and w1: "fs_ok w1" "calm w1" "dirs w1 = dirs w"
      "names w1 p = Some i" "data (nodes w1 i) = []" "\<forall>q. q \<noteq> p \<longrightarrow> content w1 q = content w q"
  proof (cases "names w p")
    case None
    let ?w1 = "new_file p w"
    have "fs_ok ?w1" using fs_ok_new_file [OF w(2,3)] .
    moreover have "content ?w1 q = content w q" if "q \<noteq> p" for q
      using that fs_okD(1) [OF w(2), of q]
      by (cases "names w q") (auto simp: content_def new_file_def set_name_def set_node_def)
    moreover have "calm ?w1" and "dirs ?w1 = dirs w" and "names ?w1 p = Some (next_ino w)" and "data (nodes ?w1 (next_ino w)) = []"
      using w(1) by (simp_all add: calm_def new_file_def set_name_def set_node_def empty_inode_def)
    moreover have "fs_open_rw True p w = (Inr \<lparr>h_ino = next_ino w, h_pos = 0\<rparr>, ?w1)"
      using None w by (simp add: fs_open_rw_def call_def draw_calm)
    ultimately show thesis by (intro that) auto
  next
    case (Some i)
    let ?w1 = "set_node i (resize_inode 0 (nodes w i)) w"
    have "fs_ok ?w1" by (rule fs_ok_set_node [OF w(2) inode_ok_resize [OF fs_okD(5) [OF w(2)]]])
    moreover have "content ?w1 q = content w q" if "q \<noteq> p" for q
      using that fs_okD(3) [OF w(2) Some, of q]
      by (cases "names w q") (auto simp: content_def set_node_def)
    moreover have "calm ?w1" and "dirs ?w1 = dirs w" and "names ?w1 p = Some i" and "data (nodes ?w1 i) = []"
      using w(1) Some by (simp_all add: calm_def set_node_def resize_inode_def)
    moreover have "fs_open_rw True p w = (Inr \<lparr>h_ino = i, h_pos = 0\<rparr>, ?w1)"
      using Some w by (simp add: fs_open_rw_def call_def draw_calm)
    ultimately show thesis by (intro that) auto
  qed
  let ?w2 = "set_node i (write_inode 0 bs (nodes w1 i)) w1"
  have "fs_ok ?w2" by (rule fs_ok_set_node [OF w1(1) inode_ok_write [OF fs_okD(5) [OF w1(1)]]])
  moreover have "content ?w2 p = Some bs" using w1(4,5) by (simp add: content_def set_node_def write_inode_def)
  moreover have "content ?w2 q = content w q" if "q \<noteq> p" for q
  proof -
    have "names w1 q \<noteq> Some i" using that fs_okD(3) [OF w1(1,4), of q] by auto
    then have "content ?w2 q = content w1 q" by (cases "names w1 q") (auto simp: content_def set_node_def)
    then show ?thesis using that w1(6) by simp
  qed
  moreover have "calm ?w2" and "dirs ?w2 = dirs w" and "parent_exists ?w2 p"
    using w(4) w1(2,3) by (simp_all add: calm_def set_node_def parent_exists_def split: option.splits)
  moreover have "test_write p bs w = (Inr () :: 'ie persist_error option + unit, ?w2)"
    using op w1(2) by (simp add: test_write_def unwrap_def smap_err_def fs_write_all_def draw_calm)
  ultimately show ?thesis using w(3) by (intro exI [of _ ?w2]) (simp add: writable_file_def)
qed

lemma failing_save_calm:
  assumes calm: "calm w" and ok: "fs_ok w" and old: "content w p = Some bs"
  shows "\<exists>q e v. write_atomic failing_rename_storage p payload policy w = (Inl (Io q e) :: ('ie, unit) result, v) \<and>
    calm v \<and> fs_ok v \<and> content v p = Some bs"
proof -
  let ?g = "the (path_file_name p) @ ''.tmp.failtest.'' @ decimal (process_id w)"
  let ?t = "path_join (target_dir p) ?g"
  have t: "?t \<noteq> p" by (rule join_neq_target) simp_all
  obtain i where i: "names w p = Some i" "data (nodes w i) = bs" using old by (auto simp: content_def)
  then have less: "i < next_ino w" using fs_okD(1) [OF ok] by blast
  obtain r v where run: "failing_write_atomic p payload policy w = (r :: ('ie, unit) result, v)" by (metis prod.exhaust)
  obtain rc w0 where create: "fs_create_new ?t w = (rc, w0)" by (cases "fs_create_new ?t w")
  have "(\<exists>q e. r = Inl (Io q e)) \<and> calm v \<and> content v p = Some bs"
  proof (cases rc)
    case (Inl e)
    then have "w0 = w" using create calm by (auto simp: fs_create_new_def call_def draw_calm split: if_splits)
    then show ?thesis
      using run create Inl calm old by (auto simp: failing_write_atomic_def Let_def sbind_def smap_err_def)
  next
    case (Inr h)
    then have h: "h = \<lparr>h_ino = next_ino w, h_pos = 0\<rparr>" and w0: "w0 = new_file ?t w"
      using create calm by (auto simp: fs_create_new_def call_def draw_calm split: if_splits)
    have c0: "calm w0" using calm by (simp add: w0)
    let ?w1 = "set_node (next_ino w) (write_inode 0 payload (nodes w0 (next_ino w))) w0"
    have wr: "fs_write_all payload (h, w0) = (Inr (), (h\<lparr>h_pos := length payload\<rparr>, ?w1))"
      using c0 by (simp add: fs_write_all_def draw_calm h Let_def)
    have sy: "fs_sync_all (h\<lparr>h_pos := length payload\<rparr>, ?w1) =
        (Inr (), (h\<lparr>h_pos := length payload\<rparr>, set_node (next_ino w) (sync_inode (nodes ?w1 (next_ino w))) ?w1))"
      using c0 by (simp add: fs_sync_all_def call_def draw_calm h Let_def)
    have rm: "fs_remove_file ?t w' = (if names w' ?t = None then (Inl not_found, w') else (Inr (), set_name ?t None w'))"
      if "calm w'" for w'
      using that by (simp add: fs_remove_file_def call_def draw_calm)
    show ?thesis
      using run create Inr wr sy c0 rm i less t
      by (auto simp: failing_write_atomic_def Let_def sbind_def smap_err_def w0 content_def new_file_def set_name_def
          set_node_def calm_def)
  qed
  moreover have "fs_ok v" using failing_write_atomic_outcome(1) [OF ok run] by (simp add: atomic_outcome_def)
  ultimately show ?thesis using run by (auto simp: failing_rename_storage_def)
qed

subsection \<open>Every test starts with a save\<close>

lemma mock_host_snapshots:
  assumes "4096 \<le> umax" and "umax \<le> U64_MAX" and "codec_ok C"
  shows "snapshots (mock_host umax C crc M :: (mock_index, 'm, 'ie) env) (mock_wf umax) mock_payload"
  using mock_persistable [OF assms(1,2)] assms(3)
  by (simp add: snapshots_def snapshots_axioms_def mock_host_def)

subsection \<open>The tests pass\<close>

locale test_setup =
  fixes E :: "(mock_index, 'm, 'ie) env" and p :: path and w :: world
  assumes host: "4096 \<le> host_umax E" "host_umax E \<le> U64_MAX" and C: "codec_ok (codecs E)"
    and mock: "index E = mock_ops (host_umax E)"
    and world: "fs_ok w" "calm w" "room p w" "placed p"
begin

lemma env_eq: "E = mock_host (host_umax E) (codecs E) (crc_hash E) (metadata E)"
  using mock by (simp add: mock_host_def)

lemma lawful: "snapshots E (mock_wf (host_umax E)) mock_payload"
  by (subst env_eq) (rule mock_host_snapshots [OF host C])

lemma mock_valid: "dim \<le> 4096 \<Longrightarrow> n \<le> 4096 \<Longrightarrow> metric_tag metric \<noteq> None \<Longrightarrow> mock_wf (host_umax E) (mock_of dim metric n)"
  using host(1) by (simp add: mock_wf_def mock_of_def)

lemma saved:
  assumes "dim \<le> 4096" and "n \<le> 4096" and "metric_tag metric \<noteq> None"
  obtains bytes v where "open_with E (mock_of dim metric n) (config_new p) w = (Inr (wrapper_of p (mock_of dim metric n)), w)"
    and "save E (wrapper_of p (mock_of dim metric n)) w = (Inr (), v)"
    and "decode_snapshot E bytes = Inr (mock_of dim metric n)"
    and "45 < length bytes" and "calm v" "fs_ok v" "room p v" "content v p = Some bytes"
  by (rule opened_saved [OF lawful mock_valid [OF assms] world], rule that) (simp_all add: mock mock_ops_def)

lemma roundtrip_passes: "passes (roundtrip_through_storage E p) w"
proof -
  let ?i = "mock_of 32 Manhattan 42"
  obtain bytes v where run: "open_with E ?i (config_new p) w = (Inr (wrapper_of p ?i), w)"
      "save E (wrapper_of p ?i) w = (Inr (), v)"
    and v: "decode_snapshot E bytes = Inr ?i" "calm v" "fs_ok v" "content v p = Some bytes"
    by (rule saved [of 32 42 Manhattan]) (auto simp: metric_tag_def)
  show ?thesis
    using run load_calm_snapshot [OF v(2-4,1)]
    by (simp add: passes_def roundtrip_through_storage_def Let_def sbind_def sret_def index_ref_def mock_of_def)
qed

lemma save_failure_passes: "passes (save_failure_leaves_original_file_intact E p) w"
proof -
  let ?i = "mock_of 16 Cosine 7" and ?j = "mock_of 16 Cosine 99"
  obtain bytes v where run: "open_with E ?i (config_new p) w = (Inr (wrapper_of p ?i), w)"
      "save E (wrapper_of p ?i) w = (Inr (), v)"
    and v: "decode_snapshot E bytes = Inr ?i" "calm v" "fs_ok v" "content v p = Some bytes" and "45 < length bytes"
    by (rule saved [of 16 7 Cosine]) (auto simp: metric_tag_def)
  then have "bytes \<noteq> []" by auto
  let ?t = "\<lparr>inner = ?j, config = config_new p, storage_of = failing_rename_storage, wal_of = None\<rparr> :: (mock_index, 'ie) persisted"
  have "mock_wf (host_umax E) (inner ?t)" using mock_valid [of 16 99 Cosine] by (simp add: metric_tag_def)
  then obtain full where img: "snapshot_image E ?t = Inr full"
    by (rule snapshots.snapshot_image_Inr [OF lawful _, where packed = "mock_payload (inner ?t)"]) auto
  obtain q e u where fail: "write_atomic failing_rename_storage p full Always v = (Inl (Io q e) :: ('ie, unit) result, u)"
    and u: "calm u" "fs_ok u" "content u p = Some bytes"
    using failing_save_calm [OF v(2-4)] by blast
  have op2: "open_with_storage E ?j (config_new p) failing_rename_storage v = (Inr ?t, v)"
    by (simp add: open_with_storage_def sbind_def slift_def sret_def Let_def)
  have save2: "save E ?t v = (Inl (Io q e), u)"
    using fail by (simp add: save_def write_snapshot_def img sbind_def slift_def)
  show ?thesis
    using run \<open>bytes \<noteq> []\<close> op2 save2 load_calm_snapshot [OF u v(1)]
    by (simp add: test_read_calm [OF v(2-4)] test_read_calm [OF u] passes_def save_failure_leaves_original_file_intact_def Let_def sbind_def sret_def index_ref_def mock_of_def)
qed

lemma crc_mismatch_passes:
  assumes "crc_detects (crc_hash E)"
  shows "passes (crc_mismatch_after_byte_flip E p) w"
proof -
  let ?i = "mock_of 8 Cosine 11"
  obtain bytes v where run: "open_with E ?i (config_new p) w = (Inr (wrapper_of p ?i), w)"
      "save E (wrapper_of p ?i) w = (Inr (), v)"
    and v: "decode_snapshot E bytes = Inr ?i" "calm v" "fs_ok v" "content v p = Some bytes" "room p v" and long: "45 < length bytes"
    by (rule saved [of 8 11 Cosine]) (auto simp: metric_tag_def)
  let ?k = "length bytes - 1"
  have k: "41 + length (INDEX_TYPE (index E)) \<le> ?k" "?k < length bytes" using long by (simp_all add: mock mock_ops_def)
  have flip: "bytes ! ?k \<noteq> bytes ! ?k XOR 1" by (rule xor_changes) simp
  obtain expected computed where bad: "decode_snapshot E (bytes[?k := bytes ! ?k XOR 1]) = Inl (ChecksumMismatch expected computed)"
    using decode_damaged [OF assms v(1) k flip] by blast
  obtain u where wr: "test_write p (bytes[?k := bytes ! ?k XOR 1]) v = (Inr () :: 'ie persist_error option + unit, u)"
    and u: "calm u" "fs_ok u" "content u p = Some (bytes[?k := bytes ! ?k XOR 1])"
    using test_write_run [of p v "bytes[?k := bytes ! ?k XOR 1]"] v(2,3,5) by (auto simp: writable_file_def room_def)
  show ?thesis
    using run wr load_calm_refused [OF u bad]
    by (simp add: test_read_calm [OF v(2-4)] passes_def crc_mismatch_after_byte_flip_def Let_def sbind_def sret_def)
qed

lemma invalid_index_type_passes: "passes (invalid_index_type_surfaces E p) w"
proof -
  let ?i = "mock_of 4 Euclidean 3"
  obtain bytes v where run: "open_with E ?i (config_new p) w = (Inr (wrapper_of p ?i), w)"
      "save E (wrapper_of p ?i) w = (Inr (), v)"
    and v: "decode_snapshot E bytes = Inr ?i" "calm v" "fs_ok v" "content v p = Some bytes"
    by (rule saved [of 4 3 Euclidean]) (auto simp: metric_tag_def)
  obtain tag h region where h: "header_ok (host_umax E) h" "writable h tag" "bytes = header_image tag h @ region"
      "fh_index_type h = INDEX_TYPE (index E)"
    by (rule decode_snapshot_parts [OF v(1)])
  have "fh_index_type h \<noteq> INDEX_TYPE (index (other_env E))"
    by (simp add: h(4) mock mock_ops_def other_env_def other_mock_def ascii_def)
  moreover have "header_ok (host_umax (other_env E)) h" using h(1) by (simp add: other_env_def)
  ultimately have "decode_snapshot (other_env E) bytes =
      Inl (InvalidIndexType (fh_index_type h) (ascii ''other''))"
    using decode_other_type [of "other_env E" h tag region] h(2,3) by (simp add: other_env_def other_mock_def)
  from load_calm_refused [OF v(2-4) this] show ?thesis
    using run by (simp add: passes_def invalid_index_type_surfaces_def Let_def sbind_def sret_def)
qed

lemma wal_config_passes: "passes (wal_config_is_accepted E p) w"
proof -
  let ?cfg = "(config_new p)\<lparr>wal_enabled := True\<rparr>" and ?i = "mock_of 4 Euclidean 0"
  let ?t = "\<lparr>inner = ?i, config = ?cfg, storage_of = std_fs_storage, wal_of = None\<rparr> :: (mock_index, 'ie) persisted"
  have "mock_wf (host_umax E) (inner ?t)" using mock_valid [of 4 0 Euclidean] by (simp add: metric_tag_def)
  then obtain bytes where "snapshot_image E ?t = Inr bytes"
    by (rule snapshots.snapshot_image_Inr [OF lawful _, where packed = "mock_payload (inner ?t)"]) auto
  then obtain this v where "open_with E ?i ?cfg w = (Inr this, v)"
    using open_with_sure [of w ?cfg E ?i bytes] world by (auto simp: validate_config_def config_new_def)
  then show ?thesis by (simp add: passes_def wal_config_is_accepted_def Let_def sbind_def sret_def)
qed

lemma validate_config_passes:
  assumes "scheme = Lz4 \<and> \<not> lz4_feature (codecs E) \<or> (\<exists>level. scheme = Zstd level) \<and> \<not> zstd_feature (codecs E)"
  shows "passes (validate_config_rejects scheme E p) w"
proof -
  let ?cfg = "(config_new p)\<lparr>cfg_compression := scheme\<rparr>"
  obtain f a where "validate_config (codecs E) ?cfg = (Inl (Unsupported f a) :: ('ie, unit) result)"
    using assms by (auto simp: validate_config_def)
  then have "open_with E i ?cfg w = (Inl (Unsupported f a), w)" for i
    by (simp add: open_with_def open_with_storage_def sbind_def slift_def)
  then show ?thesis by (simp add: passes_def validate_config_rejects_def Let_def sbind_def sret_def)
qed

end

interpretation mock_tests: test_setup "mock_env :: (mock_index, bool list, unit) env" db_path "example_world []"
proof
  show "placed db_path" by (rule db_path_placed)
  show "room db_path (example_world [])" by (rule example_room)
  show "calm (example_world [])" by (simp add: calm_def example_world_def)
qed (simp_all add: mock_env_def stored_codec_ok example_world_ok U64_MAX_def)

text \<open>
  The module's own tests pass.  In every directory with room for the files, and when no call
  fails, the tests of the persisted index pass, whatever the host, the codecs, the metadata and
  the checksum (one that detects a changed byte) are: a save whose rename fails leaves the old
  snapshot, a flipped byte and a foreign type tag are refused, a saved index loads unchanged.
\<close>

theorem unit_tests_pass:
  fixes E :: "(mock_index, 'm, 'ie) env"
  assumes host: "4096 \<le> host_umax E" "host_umax E \<le> U64_MAX" and C: "codec_ok (codecs E)"
    and crc: "crc_detects (crc_hash E)" and mock: "index E = mock_ops (host_umax E)"
    and world: "fs_ok w" "calm w" "room p w" "placed p"
  shows "passes (save_failure_leaves_original_file_intact E p) w \<and> passes (wal_config_is_accepted E p) w \<and>
    passes (crc_mismatch_after_byte_flip E p) w \<and> passes (invalid_index_type_surfaces E p) w \<and>
    passes (roundtrip_through_storage E p) w"
proof -
  have "test_setup E p w" using assms by (simp add: test_setup_def)
  note test_setup.save_failure_passes [OF this] test_setup.wal_config_passes [OF this]
    test_setup.crc_mismatch_passes [OF this crc] test_setup.invalid_index_type_passes [OF this]
    test_setup.roundtrip_passes [OF this]
  then show ?thesis by simp
qed

theorem unit_tests_pass_witness:
  "passes (save_failure_leaves_original_file_intact (mock_env :: (mock_index, bool list, unit) env) db_path) (example_world []) \<and>
    passes (crc_mismatch_after_byte_flip (mock_env :: (mock_index, bool list, unit) env) db_path) (example_world [])"
  using unit_tests_pass [of "mock_env :: (mock_index, bool list, unit) env" "example_world []" db_path]
    mock_tests.test_setup_axioms [unfolded test_setup_def] ieee.crc_detects_axioms
  by (simp add: mock_env_def)

end
