(* ===== verification/Compression_Tests.thy ===== *)
theory Compression_Tests
  imports Compression
begin

section \<open>The unit tests of the codecs (\<open>tests\<close> in \<open>src/compression.rs\<close>)\<close>

text \<open>
  Tests that only compute: an unwrapped error is the error of the test, the assertion its
  value.  Two of them hold for every inverse codec up to what it achieves: the ratio guard
  must let the test data through.
\<close>

definition round_trip_raw :: bytes where
  "round_trip_raw = concat (map (\<lambda>n. to_le 4 (of_nat n :: u32)) [0..<4096])"

definition round_trip :: "nat \<Rightarrow> codec \<Rightarrow> compression \<Rightarrow> ('ie, bool) result" where
  "round_trip umax C scheme =
     (let raw = round_trip_raw in
      rbind (encode C scheme raw) (\<lambda>encoded.
      rbind (decode umax C (scheme_tag scheme) encoded (length raw)) (\<lambda>decoded.
      Inr (decoded = raw))))"

definition zstd_round_trips :: "nat \<Rightarrow> codec \<Rightarrow> ('ie, bool) result" where
  "zstd_round_trips umax C = round_trip umax C (Zstd 3)"

definition lz4_round_trips :: "nat \<Rightarrow> codec \<Rightarrow> ('ie, bool) result" where
  "lz4_round_trips umax C = round_trip umax C Lz4"

definition zstd_rejects_bad_level :: "codec \<Rightarrow> 'ie itself \<Rightarrow> bool" where
  "zstd_rejects_bad_level C T =
     (case encode C (Zstd 99) (ascii ''data'') :: ('ie, bytes) result of
        Inl (CompressionError reason) \<Rightarrow> True | _ \<Rightarrow> False)"

definition none_is_identity :: "nat \<Rightarrow> codec \<Rightarrow> ('ie, bool) result" where
  "none_is_identity umax C =
     (let raw = ascii ''verbatim'' in
      rbind (encode C NoCompression raw) (\<lambda>encoded.
      rbind (decode umax C SCHEME_NONE raw (length raw)) (\<lambda>decoded.
      Inr (encoded = raw \<and> decoded = raw))))"

text \<open>The product in the test is checked arithmetic; a compressed length that overflows it is left out.\<close>

definition decompression_bomb_claim_is_rejected :: "nat \<Rightarrow> codec \<Rightarrow> ('ie, bool) result" where
  "decompression_bomb_claim_is_rejected umax C =
     rbind (encode C Lz4 (ascii ''small'')) (\<lambda>encoded.
     let huge = length encoded * MAX_DECOMPRESS_RATIO + 1 in
     (case decode umax C SCHEME_LZ4 encoded huge :: ('ie, bytes) result of
        Inl (InvalidPayload reason) \<Rightarrow> Inr True | _ \<Rightarrow> Inr False))"

lemma round_trip_holds:
  assumes "codec_ok C" and "encode C scheme round_trip_raw = (Inr encoded :: ('ie, bytes) result)"
    and "\<not> too_dense umax scheme round_trip_raw encoded"
  shows "round_trip umax C scheme = (Inr True :: ('ie, bool) result)"
  using assms decode_encoded [OF assms(1,2), of umax] by (simp add: round_trip_def Let_def)

lemma codec_round_trips_hold:
  assumes "codec_ok C" and "zstd_feature C" "lz4_feature C"
    and "zstd_encode_all C round_trip_raw 3 = Some packed" and "length round_trip_raw \<le> min umax (4096 * length packed)"
    and "length round_trip_raw \<le> min umax (4096 * length (lz4_compress C round_trip_raw))"
  shows "zstd_round_trips umax C = (Inr True :: ('ie, bool) result)" and "lz4_round_trips umax C = (Inr True :: ('ie, bool) result)"
  unfolding zstd_round_trips_def lz4_round_trips_def
  by (rule round_trip_holds [of _ _ packed]; use assms in \<open>simp add: encode_zstd_def too_dense_def not_less\<close>)
    (rule round_trip_holds [of _ _ "lz4_compress C round_trip_raw"];
      use assms in \<open>simp add: encode_lz4_def too_dense_def not_less\<close>)

lemma zstd_rejects_bad_level_holds: "zstd_feature C \<Longrightarrow> zstd_rejects_bad_level C TYPE('ie)"
  by (simp add: zstd_rejects_bad_level_def encode_zstd_def)

lemma none_is_identity_holds: "none_is_identity umax C = Inr True"
  by (simp add: none_is_identity_def decode_def Let_def)

lemma decompression_bomb_holds:
  assumes "lz4_feature C"
  shows "decompression_bomb_claim_is_rejected umax C = (Inr True :: ('ie, bool) result)"
  using assms
  by (simp add: decompression_bomb_claim_is_rejected_def encode_lz4_def decode_def scheme_defs Let_def
      usize_saturating_mul_def less_Suc_eq_le)

end
