(* ===== verification/Store_Index.thy ===== *)
theory Store_Index
  imports Save_And_Load "HOL-Library.List_Lexorder"
begin

section \<open>The full-fidelity index of \<open>tests/invariants.rs\<close>\<close>

text \<open>
  \<open>StoreIndex\<close> keeps ids, vectors and metadata, and its payload has all three.  Its readers
  and writers work on \<open>Read\<close> and \<open>Write\<close> as those of the examples do; \<open>io_field\<close> is the
  contract of one field.
\<close>

record 'm store_index =
  store_dim :: nat
  store_metric :: distance_metric
  store_rows :: "(u64 \<times> f32 list \<times> 'm option) list"

definition store_insert :: "vector_id \<Rightarrow> f32 list \<Rightarrow> 'm option \<Rightarrow> 'm store_index \<Rightarrow> ('ie + unit) \<times> 'm store_index" where
  "store_insert vid v m this =
     (Inr (), case vid of U64 n \<Rightarrow> this\<lparr>store_rows := store_rows this @ [(n, v, m)]\<rparr> | Bytes _ \<Rightarrow> this)"

definition store_delete :: "vector_id \<Rightarrow> 'm store_index \<Rightarrow> ('ie + unit) \<times> 'm store_index" where
  "store_delete vid this =
     (Inr (), case vid of
        U64 n \<Rightarrow> this\<lparr>store_rows := filter (\<lambda>(r, _, _). r \<noteq> n) (store_rows this)\<rparr>
      | Bytes _ \<Rightarrow> this)"

definition store_new :: "nat \<Rightarrow> distance_metric \<Rightarrow> 'ie + 'm store_index" where
  "store_new dim metric = Inr \<lparr>store_dim = dim, store_metric = metric, store_rows = []\<rparr>"

definition snapshot_state :: "'m store_index \<Rightarrow> (u64 \<times> f32 list \<times> 'm option) list" where
  "snapshot_state this = sort_key fst (store_rows this)"

subsection \<open>The payload\<close>

definition put_str :: "bytes \<Rightarrow> (writer, 'ie, unit) prog" where
  "put_str s = sbind (write_all (to_le 4 (of_nat (length s) :: u32))) (\<lambda>_. write_all s)"

fun put_value :: "metadata_value \<Rightarrow> (writer, 'ie, unit) prog" where
  "put_value (VString s) = sbind (write_all [0]) (\<lambda>_. put_str s)"
| "put_value (VInt i) = sbind (write_all [1]) (\<lambda>_. write_all (to_le 8 i))"
| "put_value (VFloat f) = sbind (write_all [2]) (\<lambda>_. write_all (to_le 8 f))"
| "put_value (VBool b) = sbind (write_all [3]) (\<lambda>_. write_all [if b then 1 else 0])"
| "put_value VNull = write_all [4]"

definition put_meta :: "'m metadata_ops \<Rightarrow> 'm option \<Rightarrow> (writer, 'ie, unit) prog" where
  "put_meta M m =
     (case m of
        Some meta \<Rightarrow>
          sbind (write_all [1]) (\<lambda>_.
          sbind (write_all (to_le 4 (of_nat (meta_len M meta) :: u32))) (\<lambda>_.
          for_each (\<lambda>(k, val). sbind (put_str k) (\<lambda>_. put_value val)) (meta_iter M meta)))
      | None \<Rightarrow> write_all [0])"

definition put_row :: "'m metadata_ops \<Rightarrow> u64 \<times> f32 list \<times> 'm option \<Rightarrow> (writer, 'ie, unit) prog" where
  "put_row M row =
     (case row of (n, v, m) \<Rightarrow>
        sbind (write_all (to_le 8 n)) (\<lambda>_.
        sbind (for_each (\<lambda>c. write_all (to_le 4 c)) v) (\<lambda>_.
        put_meta M m)))"

definition store_save_to :: "'m metadata_ops \<Rightarrow> 'm store_index \<Rightarrow> (writer, 'ie, unit) prog" where
  "store_save_to M this =
     sbind (write_all (to_le 8 (of_nat (store_dim this) :: u64))) (\<lambda>_.
     sbind (write_all (to_le 8 (of_nat (length (store_rows this)) :: u64))) (\<lambda>_.
     for_each (put_row M) (store_rows this)))"

definition get_u32 :: "(reader, 'ie, u32) prog" where
  "get_u32 = sbind (read_io 4) (\<lambda>b. sret (of_le b))"

definition get_str :: "nat \<Rightarrow> (reader, 'ie, bytes) prog" where
  "get_str umax =
     sbind get_u32 (\<lambda>n. let len = as_usize umax (ucast n) in
     sbind (read_io len) (\<lambda>buf.
     slift (ok_or (InvalidPayload ''bad utf8 in mock'') (from_utf8 buf))))"

definition get_value :: "nat \<Rightarrow> (reader, 'ie, metadata_value) prog" where
  "get_value umax =
     sbind (read_io 1) (\<lambda>t.
     if t ! 0 = 0 then sbind (get_str umax) (\<lambda>s. sret (VString s))
     else if t ! 0 = 1 then sbind (read_io 8) (\<lambda>b. sret (VInt (of_le b)))
     else if t ! 0 = 2 then sbind (read_io 8) (\<lambda>b. sret (VFloat (of_le b)))
     else if t ! 0 = 3 then sbind (read_io 1) (\<lambda>b. sret (VBool (b ! 0 \<noteq> 0)))
     else if t ! 0 = 4 then sret VNull
     else sfail (InvalidPayload ''bad value tag in mock''))"

text \<open>\<open>BTreeMap::insert\<close>, on the entries in the order of their keys.\<close>

fun btree_insert :: "bytes \<Rightarrow> metadata_value \<Rightarrow> (bytes \<times> metadata_value) list \<Rightarrow> (bytes \<times> metadata_value) list" where
  "btree_insert k v [] = [(k, v)]"
| "btree_insert k v ((k', v') # kvs) =
     (if k < k' then (k, v) # (k', v') # kvs
      else if k = k' then (k, v) # kvs
      else (k', v') # btree_insert k v kvs)"

fun read_map :: "nat \<Rightarrow> nat \<Rightarrow> (bytes \<times> metadata_value) list \<Rightarrow> (reader, 'ie, (bytes \<times> metadata_value) list) prog" where
  "read_map umax 0 kvs = sret kvs"
| "read_map umax (Suc count) kvs =
     sbind (get_str umax) (\<lambda>k.
     sbind (get_value umax) (\<lambda>val. read_map umax count (btree_insert k val kvs)))"

definition get_meta :: "nat \<Rightarrow> 'm metadata_ops \<Rightarrow> (reader, 'ie, 'm option) prog" where
  "get_meta umax M =
     sbind (read_io 1) (\<lambda>has.
     if has ! 0 = 1 then
       sbind get_u32 (\<lambda>n. let count = as_usize umax (ucast n) in
       sbind (read_map umax count []) (\<lambda>kvs. sret (Some (meta_collect M kvs))))
     else sret None)"

definition get_row :: "nat \<Rightarrow> 'm metadata_ops \<Rightarrow> nat \<Rightarrow> (reader, 'ie, u64 \<times> f32 list \<times> 'm option) prog" where
  "get_row umax M dim =
     sbind (read_io 8) (\<lambda>b8.
     sbind (collect_n dim (sbind (read_io 4) (\<lambda>b4. sret (of_le b4)))) (\<lambda>v.
     sbind (get_meta umax M) (\<lambda>meta.
     sret (of_le b8, v, meta))))"

definition store_load_from :: "nat \<Rightarrow> 'm metadata_ops \<Rightarrow> (reader, 'ie, 'm store_index) prog" where
  "store_load_from umax M =
     sbind (read_io 8) (\<lambda>b8. let dim = as_usize umax (of_le b8) in
     sbind (read_io 8) (\<lambda>b8. let n = as_usize umax (of_le b8) in
     sbind (collect_n n (get_row umax M dim)) (\<lambda>rows.
     sret \<lparr>store_dim = dim, store_metric = Cosine, store_rows = rows\<rparr>)))"

definition store_ops :: "nat \<Rightarrow> 'm metadata_ops \<Rightarrow> ('m store_index, 'm, 'ie) index_ops" where
  "store_ops umax M = \<lparr>ix_insert = store_insert, ix_delete = store_delete, ix_len = (\<lambda>i. length (store_rows i)),
     ix_dim = store_dim, ix_metric = store_metric, INDEX_TYPE = ascii ''store'',
     save_to = store_save_to M, load_from = store_load_from umax M\<rparr>"

subsection \<open>The contract\<close>

locale io_field =
  fixes put :: "'a \<Rightarrow> writer \<Rightarrow> ('ie persist_error + unit) \<times> writer"
    and get :: "reader \<Rightarrow> ('ie persist_error + 'a) \<times> reader"
    and img :: "'a \<Rightarrow> bytes"
    and ok :: "'a \<Rightarrow> bool"
  assumes puts: "ok x \<Longrightarrow> put x (vec_writer buf) = (Inr (), vec_writer (buf @ img x))"
    and gets: "ok x \<Longrightarrow> get \<lparr>rrest = img x @ ys, rpos = p, rend = e\<rparr> =
      (Inr x, \<lparr>rrest = ys, rpos = p + length (img x), rend = e\<rparr>)"
begin

lemma put_each:
  "\<forall>x\<in>set xs. ok x \<Longrightarrow> for_each put xs (vec_writer buf) = (Inr (), vec_writer (buf @ concat (map img xs)))"
  by (induction xs arbitrary: buf) (simp_all add: sret_def sbind_def puts)

lemma get_each:
  "\<forall>x\<in>set xs. ok x \<Longrightarrow> collect_n (length xs) get \<lparr>rrest = concat (map img xs) @ ys, rpos = p, rend = e\<rparr> =
    (Inr xs, \<lparr>rrest = ys, rpos = p + length (concat (map img xs)), rend = e\<rparr>)"
  by (induction xs arbitrary: p) (simp_all add: sret_def sbind_def gets add.assoc)

end

interpretation component_io: io_field "\<lambda>c. write_all (to_le 4 c)"
    "sbind (read_io 4) (\<lambda>b4. sret (of_le b4 :: f32))" component_image "\<lambda>c. True"
  by unfold_locales (simp_all add: component_image_def sbind_def sret_def read_io_ok del: to_le.simps)

lemma as_usize_u32: "unat n \<le> umax \<Longrightarrow> as_usize umax (ucast (n :: u32)) = unat n"
proof -
  have "unat n < 2 ^ 32" using unsigned_less [of n] by simp
  then have "unat (ucast n :: u64) = unat n" by (simp add: unsigned_ucast_eq take_bit_nat_eq_self_iff)
  then show "unat n \<le> umax \<Longrightarrow> as_usize umax (ucast n) = unat n" by (simp add: as_usize_def)
qed

definition str_image :: "bytes \<Rightarrow> bytes" where
  "str_image s = to_le 4 (of_nat (length s) :: u32) @ s"

lemma put_str_image: "put_str s (vec_writer buf) = (Inr (), vec_writer (buf @ str_image s))"
  by (simp add: put_str_def str_image_def sbind_def del: to_le.simps)

lemma put_value_image: "put_value v (vec_writer buf) = (Inr (), vec_writer (buf @ value_image v))"
  by (cases v) (simp_all add: sbind_def put_str_image str_image_def wal_tags del: to_le.simps)

lemma get_u32_ok: "get_u32 \<lparr>rrest = to_le 4 n @ ys, rpos = p, rend = e\<rparr> = (Inr n, \<lparr>rrest = ys, rpos = p + 4, rend = e\<rparr>)"
  by (simp add: get_u32_def sbind_def sret_def read_io_ok del: to_le.simps)

interpretation str_io: io_field put_str "get_str umax" str_image
    "\<lambda>s. utf8_valid s \<and> length s \<le> U32_MAX \<and> length s \<le> umax" for umax
  by unfold_locales
    (simp_all add: put_str_image get_str_def str_image_def sbind_def get_u32_ok as_usize_u32 unat_of_nat_u32 Let_def
      read_io_ok slift_def utf8_valid_from_utf8 del: to_le.simps)

interpretation value_io: io_field put_value "get_value umax" value_image
    "\<lambda>v. value_ok v \<and> length (value_image v) \<le> umax" for umax
proof
  fix x and buf :: bytes
  show "put_value x (vec_writer buf) = (Inr (), vec_writer (buf @ value_image x))"
    by (rule put_value_image)
next
  fix x and ys :: bytes and p e
  assume ok: "value_ok x \<and> length (value_image x) \<le> umax"
  note read = read_io_one get_value_def sbind_def sret_def wal_tags read_io_ok
  show "get_value umax \<lparr>rrest = value_image x @ ys, rpos = p, rend = e\<rparr> =
      (Inr x, \<lparr>rrest = ys, rpos = p + length (value_image x), rend = e\<rparr>)"
  proof (cases x)
    case (VString t)
    then have "utf8_valid t \<and> length t \<le> U32_MAX \<and> length t \<le> umax" using ok by (simp add: value_ok_def)
    then show ?thesis
      by (simp add: VString read str_io.gets [unfolded str_image_def append_assoc] del: to_le.simps)
  qed (simp_all add: read del: to_le.simps)
qed

lemma value_in_entry: "length (value_image (snd x)) \<le> length (entry_image x)" "length (fst x) \<le> length (entry_image x)"
  by (simp_all add: entry_image_def)

interpretation entry_io: io_field "\<lambda>(k, val). sbind (put_str k) (\<lambda>_. put_value val)"
    "sbind (get_str umax) (\<lambda>k. sbind (get_value umax) (\<lambda>val. sret (k, val)))" entry_image
    "\<lambda>x. entry_ok x \<and> length (entry_image x) \<le> umax" for umax
proof
  fix x and buf ys :: bytes and p e
  assume ok: "entry_ok x \<and> length (entry_image x) \<le> umax"
  then have k: "utf8_valid (fst x) \<and> length (fst x) \<le> U32_MAX \<and> length (fst x) \<le> umax"
    and v: "value_ok (snd x) \<and> length (value_image (snd x)) \<le> umax"
    using value_in_entry [of x] by (auto simp: entry_ok_def value_ok_def)
  have image: "entry_image x = str_image (fst x) @ value_image (snd x)" by (simp add: entry_image_def str_image_def)
  show "(case x of (k, val) \<Rightarrow> sbind (put_str k) (\<lambda>_. put_value val)) (vec_writer buf) =
      (Inr (), vec_writer (buf @ entry_image x))"
    unfolding image by (cases x) (simp add: sbind_def put_str_image put_value_image)
  show "sbind (get_str umax) (\<lambda>k. sbind (get_value umax) (\<lambda>val. sret (k, val))) \<lparr>rrest = entry_image x @ ys, rpos = p, rend = e\<rparr> =
      (Inr x, \<lparr>rrest = ys, rpos = p + length (entry_image x), rend = e\<rparr>)"
    unfolding image using k v by (simp add: sbind_def sret_def str_io.gets value_io.gets add.assoc)
qed

definition btree_of :: "(bytes \<times> metadata_value) list \<Rightarrow> (bytes \<times> metadata_value) list" where
  "btree_of es = fold (\<lambda>(k, v). btree_insert k v) es []"

lemma read_map_image:
  assumes "\<forall>x\<in>set es. entry_ok x \<and> length (entry_image x) \<le> umax"
  shows "read_map umax (length es) acc \<lparr>rrest = concat (map entry_image es) @ ys, rpos = p, rend = e\<rparr> =
    (Inr (fold (\<lambda>(k, v). btree_insert k v) es acc),
     \<lparr>rrest = ys, rpos = p + length (concat (map entry_image es)), rend = e\<rparr>)"
  using assms
proof (induction es arbitrary: acc p)
  case Nil
  then show ?case by (simp add: sret_def)
next
  case (Cons x es)
  have step: "read_map umax (Suc n) acc r =
      sbind (sbind (get_str umax) (\<lambda>k. sbind (get_value umax) (\<lambda>val. sret (k, val))))
        (\<lambda>x. read_map umax n (btree_insert (fst x) (snd x) acc)) r" for n r
    by (simp add: sbind_def sret_def split: prod.split sum.split)
  show ?case
    using Cons
    by (simp add: step sbind_def [of "sbind _ _"] entry_io.gets case_prod_unfold add.assoc del: read_map.simps)
qed

text \<open>
  The test collects the entries through a \<open>BTreeMap\<close>: what it relies on is that collecting
  them in the order of their keys gives the same metadata.
\<close>

definition collects_ordered :: "'m metadata_ops \<Rightarrow> bool" where
  "collects_ordered M \<longleftrightarrow> (\<forall>m. meta_collect M (btree_of (meta_iter M m)) = m)"

definition opt_image :: "'m metadata_ops \<Rightarrow> 'm option \<Rightarrow> bytes" where
  "opt_image M m = (case m of None \<Rightarrow> [0] | Some m \<Rightarrow> 1 # metadata_image M m)"

definition opt_ok :: "'m metadata_ops \<Rightarrow> 'm option \<Rightarrow> bool" where
  "opt_ok M m \<longleftrightarrow> (case m of None \<Rightarrow> True | Some m \<Rightarrow> metadata_fits M m)"

lemma metadata_fits_len: "metadata_fits M m \<Longrightarrow> meta_len M m = length (meta_iter M m) \<and>
    length (meta_iter M m) \<le> U32_MAX \<and> length (meta_iter M m) \<le> length (metadata_image M m)"
  using entries_count [of "meta_iter M m"] metadata_okD(1) [of M m]
  by (auto simp: metadata_fits_def metadata_image_def)

lemma metadata_entries_ok:
  assumes "metadata_fits M m" and "length (metadata_image M m) \<le> umax"
  shows "\<forall>x\<in>set (meta_iter M m). entry_ok x \<and> length (entry_image x) \<le> umax"
  using assms metadata_fits_entries [OF assms(1)] entry_in_concat [of _ "meta_iter M m"]
  by (fastforce simp: metadata_image_def)

interpretation meta_io: io_field "put_meta M" "get_meta umax M" "opt_image M"
    "\<lambda>m. collects_ordered M \<and> opt_ok M m \<and> length (opt_image M m) \<le> umax" for M umax
proof
  fix x and buf ys :: bytes and p e
  assume ok: "collects_ordered M \<and> opt_ok M x \<and> length (opt_image M x) \<le> umax"
  show "put_meta M x (vec_writer buf) = (Inr (), vec_writer (buf @ opt_image M x))"
  proof (cases x)
    case (Some m)
    then have entries: "\<forall>x\<in>set (meta_iter M m). entry_ok x \<and> length (entry_image x) \<le> umax"
      using ok by (intro metadata_entries_ok) (simp_all add: opt_ok_def opt_image_def)
    then show ?thesis
      by (simp add: Some put_meta_def opt_image_def sbind_def metadata_image_def entry_io.put_each [OF entries]
          del: to_le.simps)
  qed (simp add: put_meta_def opt_image_def)
  show "get_meta umax M \<lparr>rrest = opt_image M x @ ys, rpos = p, rend = e\<rparr> =
      (Inr x, \<lparr>rrest = ys, rpos = p + length (opt_image M x), rend = e\<rparr>)"
  proof (cases x)
    case (Some m)
    then have fits: "metadata_fits M m" and room: "length (metadata_image M m) \<le> umax"
      using ok by (simp_all add: opt_ok_def opt_image_def)
    note len = metadata_fits_len [OF fits]
    have count: "as_usize umax (ucast (of_nat (length (meta_iter M m)) :: u32)) = length (meta_iter M m)"
      using as_usize_u32 [of "of_nat (length (meta_iter M m)) :: u32" umax] len room by (simp add: unat_of_nat_u32)
    have "meta_collect M (fold (\<lambda>(k, v). btree_insert k v) (meta_iter M m) []) = m"
      using ok by (simp add: collects_ordered_def btree_of_def)
    then show ?thesis
      using len count
      by (simp add: Some read_map_image [OF metadata_entries_ok [OF fits room]] get_meta_def opt_image_def metadata_image_def sbind_def sret_def read_io_one get_u32_ok
          Let_def del: to_le.simps)
  qed (simp add: get_meta_def opt_image_def sbind_def sret_def read_io_one)
qed


definition store_row_image :: "'m metadata_ops \<Rightarrow> u64 \<times> f32 list \<times> 'm option \<Rightarrow> bytes" where
  "store_row_image M row =
     to_le 8 (fst row) @ concat (map component_image (fst (snd row))) @ opt_image M (snd (snd row))"

text \<open>A row of the index's dimension, with metadata the payload can carry.\<close>

definition store_row_ok :: "nat \<Rightarrow> 'm metadata_ops \<Rightarrow> nat \<Rightarrow> u64 \<times> f32 list \<times> 'm option \<Rightarrow> bool" where
  "store_row_ok umax M dim row \<longleftrightarrow> length (fst (snd row)) = dim \<and> collects_ordered M \<and>
     opt_ok M (snd (snd row)) \<and> length (opt_image M (snd (snd row))) \<le> umax"

interpretation row_io: io_field "put_row M" "get_row umax M dim" "store_row_image M" "store_row_ok umax M dim"
  for M umax dim
proof
  fix x and buf ys :: bytes and p e
  assume ok: "store_row_ok umax M dim x"
  obtain n v m where x: "x = (n, v, m)" by (cases x)
  note fields = ok [unfolded store_row_ok_def x fst_conv snd_conv]
  have m: "collects_ordered M \<and> opt_ok M m \<and> length (opt_image M m) \<le> umax" using fields by simp
  have comps: "for_each (\<lambda>c. write_all (to_le 4 c)) v (vec_writer b) =
      (Inr (), vec_writer (b @ concat (map component_image v)))" for b
    by (rule component_io.put_each) simp
  show "put_row M x (vec_writer buf) = (Inr (), vec_writer (buf @ store_row_image M x))"
    by (simp add: x put_row_def store_row_image_def sbind_def comps meta_io.puts [OF m] del: to_le.simps)
  have "dim = length v" using fields by simp
  then show "get_row umax M dim \<lparr>rrest = store_row_image M x @ ys, rpos = p, rend = e\<rparr> =
      (Inr x, \<lparr>rrest = ys, rpos = p + length (store_row_image M x), rend = e\<rparr>)"
    by (simp add: x get_row_def store_row_image_def sbind_def sret_def read_io_ok meta_io.gets [OF m]
        component_io.get_each add.assoc del: to_le.simps)
qed

definition store_payload :: "'m metadata_ops \<Rightarrow> 'm store_index \<Rightarrow> bytes" where
  "store_payload M i = to_le 8 (of_nat (store_dim i) :: u64) @ to_le 8 (of_nat (length (store_rows i)) :: u64) @
     concat (map (store_row_image M) (store_rows i))"

definition store_wf :: "nat \<Rightarrow> 'm metadata_ops \<Rightarrow> 'm store_index \<Rightarrow> bool" where
  "store_wf umax M i \<longleftrightarrow> store_dim i \<le> umax \<and> store_metric i = Cosine \<and>
     (\<forall>row\<in>set (store_rows i). store_row_ok umax M (store_dim i) row) \<and> length (store_payload M i) \<le> umax"

lemma store_rows_bound: "store_wf umax M i \<Longrightarrow> length (store_rows i) \<le> umax"
proof -
  have "length rows \<le> length (concat (map (store_row_image M) rows))" for rows
    by (induction rows) (auto simp: store_row_image_def)
  from this [of "store_rows i"] show "store_wf umax M i \<Longrightarrow> length (store_rows i) \<le> umax"
    by (simp add: store_wf_def store_payload_def)
qed

lemma store_saves:
  assumes "store_wf umax M i"
  shows "store_save_to M i (vec_writer buf) = (Inr (), vec_writer (buf @ store_payload M i))"
proof -
  have rows: "\<forall>row\<in>set (store_rows i). store_row_ok umax M (store_dim i) row" using assms by (simp add: store_wf_def)
  show ?thesis
    by (simp add: store_save_to_def sbind_def row_io.put_each [OF rows] store_payload_def del: to_le.simps)
qed

lemma store_loads:
  assumes "store_wf umax M i" and "umax \<le> U64_MAX"
  shows "fst (store_load_from umax M (cursor_new (store_payload M i))) = Inr i"
proof -
  have rows: "\<forall>row\<in>set (store_rows i). store_row_ok umax M (store_dim i) row" using assms(1) by (simp add: store_wf_def)
  note dim = assms(1) [unfolded store_wf_def]
  show ?thesis
    using dim store_rows_bound [OF assms(1)] assms(2)
    by (simp add: store_load_from_def sbind_def sret_def store_payload_def cursor_new_def read_io_ok
        row_io.get_each [OF rows, where ys = "[]", simplified] as_usize_of_nat Let_def del: to_le.simps)
qed

lemma store_persistable:
  assumes "4096 \<le> umax" and "umax \<le> U64_MAX"
  shows "persistable (store_ops umax M) (store_wf umax M) (store_payload M) umax"
proof
  fix i
  assume "store_wf umax M i"
  then show "header_fits umax (store_ops umax M) i \<and> length (store_payload M i) \<le> umax"
    using assms store_rows_bound [of umax M i]
    by (simp add: header_fits_def store_ops_def store_wf_def MAX_INDEX_TYPE_LEN_def ascii_def metric_tag_def)
qed (use assms in \<open>simp_all add: store_ops_def store_saves store_loads store_insert_def store_delete_def\<close>)

interpretation store: persistable "store_ops U64_MAX M" "store_wf U64_MAX M" "store_payload M" U64_MAX for M
  by (rule store_persistable) (simp_all add: U64_MAX_def)

definition store_env ::
  "nat \<Rightarrow> codec \<Rightarrow> (bytes \<Rightarrow> u32) \<Rightarrow> 'm metadata_ops \<Rightarrow> ('m store_index, 'm, 'ie) env" where
  "store_env umax C crc M =
     \<lparr>host_umax = umax, codecs = C, crc_hash = crc, metadata = M, index = store_ops umax M\<rparr>"

lemma store_snapshots:
  assumes "4096 \<le> umax" and "umax \<le> U64_MAX" and "codec_ok C"
  shows "snapshots (store_env umax C crc M :: ('m store_index, 'm, 'ie) env) (store_wf umax M) (store_payload M)"
  using store_persistable [OF assms(1,2)] assms(3)
  by (simp add: snapshots_def snapshots_axioms_def store_env_def)

end
