(* ===== verification/Invariant_Tests.thy ===== *)
theory Invariant_Tests
  imports Store_Index Persisted_Tests
begin

section \<open>The property tests of \<open>tests/invariants.rs\<close>\<close>

text \<open>
  The two properties as programs on the file system, in the style of the unit tests.  What
  the strategies generate is a predicate on the input; the components are any finite values.
  \<open>tempdir\<close> is another crate's function and a parameter: it gives a directory in which
  nothing is in the way.  Its removal at the end of a scope is left to the next call.
\<close>

subsection \<open>The strategies\<close>

definition DIM :: nat where
  "DIM = 4"

text \<open>An exponent that is not all ones: on finite components the test's \<open>==\<close> follows from equal bits.\<close>

definition finite_f32 :: "f32 \<Rightarrow> bool" where
  "finite_f32 c \<longleftrightarrow> c AND 0x7F800000 \<noteq> 0x7F800000"

definition vector_strategy :: "f32 list \<Rightarrow> bool" where
  "vector_strategy v \<longleftrightarrow> length v = DIM \<and> (\<forall>c\<in>set v. finite_f32 c)"

definition lower_case :: "bytes \<Rightarrow> bool" where
  "lower_case s \<longleftrightarrow> (\<forall>c\<in>set s. 97 \<le> c \<and> c \<le> 122)"

fun value_strategy :: "metadata_value \<Rightarrow> bool" where
  "value_strategy (VString s) \<longleftrightarrow> lower_case s \<and> length s \<le> 8"
| "value_strategy (VFloat f) \<longleftrightarrow> False"
| "value_strategy _ \<longleftrightarrow> True"

definition meta_strategy :: "'m metadata_ops \<Rightarrow> 'm option \<Rightarrow> bool" where
  "meta_strategy M meta \<longleftrightarrow>
     (case meta of
        None \<Rightarrow> True
      | Some m \<Rightarrow> length (meta_iter M m) < 3 \<and>
          (\<forall>(k, val)\<in>set (meta_iter M m). lower_case k \<and> 1 \<le> length k \<and> length k \<le> 6 \<and> value_strategy val))"

datatype 'm test_action = TInsert "f32 list" "'m option" | TDelete nat | TCheckpoint

fun action_strategy :: "'m metadata_ops \<Rightarrow> 'm test_action \<Rightarrow> bool" where
  "action_strategy M (TInsert v m) \<longleftrightarrow> vector_strategy v \<and> meta_strategy M m"
| "action_strategy M (TDelete k) \<longleftrightarrow> True"
| "action_strategy M TCheckpoint \<longleftrightarrow> True"

definition rows_strategy :: "'m metadata_ops \<Rightarrow> (u64 \<times> f32 list \<times> 'm option) list \<Rightarrow> bool" where
  "rows_strategy M rows \<longleftrightarrow> length rows < 40 \<and> (\<forall>(n, v, m)\<in>set rows. vector_strategy v \<and> meta_strategy M m)"

definition actions_strategy :: "'m metadata_ops \<Rightarrow> 'm test_action list \<Rightarrow> bool" where
  "actions_strategy M actions \<longleftrightarrow> length actions < 60 \<and> (\<forall>a\<in>set actions. action_strategy M a)"

subsection \<open>The first invariant\<close>

type_synonym tempdir = "(world, path) io_prog"

fun unique_rows :: "u64 list \<Rightarrow> (u64 \<times> 'a) list \<Rightarrow> (u64 \<times> 'a) list" where
  "unique_rows seen [] = []"
| "unique_rows seen ((n, x) # rows) =
     (if n \<in> set seen then unique_rows seen rows else (n, x) # unique_rows (n # seen) rows)"

definition test_schemes :: "codec \<Rightarrow> compression list" where
  "test_schemes C = NoCompression # (if zstd_feature C then [Zstd 3] else []) @ (if lz4_feature C then [Lz4] else [])"

fun insert_rows ::
  "(u64 \<times> f32 list \<times> 'm option) list \<Rightarrow> 'm store_index \<Rightarrow> ('ie, 'm store_index) test" where
  "insert_rows [] idx = sret idx"
| "insert_rows ((n, v, m) # rows) idx =
     (let (r, idx) = store_insert (U64 n) v m idx in
      sbind (unwrap (slift (map_iqdb r))) (\<lambda>_. insert_rows rows idx))"

definition new_tempdir :: "tempdir \<Rightarrow> ('ie, path) test" where
  "new_tempdir tempdir = smap_err (\<lambda>_. None) tempdir"

definition scheme_round_trip ::
  "('m store_index, 'm, 'ie) env \<Rightarrow> tempdir \<Rightarrow> (u64 \<times> f32 list \<times> 'm option) list \<Rightarrow> compression \<Rightarrow> ('ie, unit) test" where
  "scheme_round_trip E tempdir unique scheme =
     sbind (new_tempdir tempdir) (\<lambda>dir.
     let path = path_join dir ''s.iqdb'';
         cfg = (config_new path)\<lparr>cfg_compression := scheme\<rparr> in
     sbind (unwrap (slift (map_iqdb (store_new DIM Cosine)))) (\<lambda>idx.
     sbind (insert_rows unique idx) (\<lambda>idx.
     let want = snapshot_state idx in
     sbind (unwrap (open_with E idx cfg)) (\<lambda>db.
     sbind (unwrap (save E db)) (\<lambda>_.
     sbind (unwrap (load E cfg)) (\<lambda>restored.
     assert_that (snapshot_state (index_ref restored) = want)))))))"

fun for_test :: "('a \<Rightarrow> ('ie, unit) test) \<Rightarrow> 'a list \<Rightarrow> ('ie, unit) test" where
  "for_test body [] = sret ()"
| "for_test body (x # xs) = sbind (body x) (\<lambda>_. for_test body xs)"

definition snapshot_round_trip_preserves_state ::
  "('m store_index, 'm, 'ie) env \<Rightarrow> tempdir \<Rightarrow> (u64 \<times> f32 list \<times> 'm option) list \<Rightarrow> ('ie, unit) test" where
  "snapshot_round_trip_preserves_state E tempdir rows =
     for_test (scheme_round_trip E tempdir (unique_rows [] rows)) (test_schemes (codecs E))"

subsection \<open>The second invariant\<close>

text \<open>The loop over the actions, on the model, the live ids, the next id and the database.\<close>

fun follow ::
  "('m store_index, 'm, 'ie) env \<Rightarrow> 'm test_action list \<Rightarrow> 'm store_index \<Rightarrow> u64 list \<Rightarrow> u64 \<Rightarrow>
     ('m store_index, 'ie) persisted \<times> world \<Rightarrow>
     ('ie persist_error option + 'm store_index) \<times> ('m store_index, 'ie) persisted \<times> world" where
  "follow E [] model live next_id = sret model"
| "follow E (TInsert v m # actions) model live next_id =
     (let (r, model) = store_insert (U64 next_id) v m model in
      sbind (smap_err Some (slift (map_iqdb r))) (\<lambda>_.
      sbind (smap_err Some (insert_vector E (U64 next_id) v m)) (\<lambda>_.
      follow E actions model (live @ [next_id]) (next_id + 1))))"
| "follow E (TDelete k # actions) model live next_id =
     (if live \<noteq> [] then
        let j = k mod length live; vid = live ! j; (r, model) = store_delete (U64 vid) model in
        sbind (smap_err Some (slift (map_iqdb r))) (\<lambda>_.
        sbind (smap_err Some (delete_vector E (U64 vid))) (\<lambda>_.
        follow E actions model (take j live @ drop (Suc j) live) next_id))
      else follow E actions model live next_id)"
| "follow E (TCheckpoint # actions) model live next_id =
     sbind (smap_err Some (checkpoint E)) (\<lambda>_. follow E actions model live next_id)"

definition wal_replay_matches_in_memory_model ::
  "('m store_index, 'm, 'ie) env \<Rightarrow> tempdir \<Rightarrow> 'm test_action list \<Rightarrow> ('ie, unit) test" where
  "wal_replay_matches_in_memory_model E tempdir actions =
     sbind (new_tempdir tempdir) (\<lambda>dir.
     let path = path_join dir ''idx.iqdb'';
         cfg = (config_new path)\<lparr>wal_enabled := True\<rparr> in
     sbind (unwrap (slift (map_iqdb (store_new DIM Cosine)))) (\<lambda>model.
     sbind (unwrap (slift (map_iqdb (store_new DIM Cosine)))) (\<lambda>idx.
     sbind (unwrap (open_with E idx cfg)) (\<lambda>db w.
       case follow E actions model [] 0 (db, w) of
         (Inl e, (_, w)) \<Rightarrow> (Inl e, w)
       | (Inr model, (_, w)) \<Rightarrow>
           sbind (unwrap (load E cfg)) (\<lambda>recovered.
           assert_that (snapshot_state (index_ref recovered) = snapshot_state model)) w))))"


subsection \<open>Sizes\<close>

lemma value_strategy_size: "value_strategy v \<Longrightarrow> length (value_image v) \<le> 13"
  by (cases v) auto

lemma opt_image_size:
  assumes "metadata_ok M" and "meta_strategy M m"
  shows "opt_ok M m" and "length (opt_image M m) \<le> 51"
proof -
  have entry: "length (entry_image (k, v)) \<le> 23" if "length k \<le> 6" "value_strategy v" for k v
    using that value_strategy_size [of v] by (simp add: entry_image_def)
  have two: "length (concat (map entry_image es)) \<le> 46" if "length es < 3" "\<forall>e\<in>set es. length (entry_image e) \<le> 23" for es
  proof -
    have "length (concat (map entry_image es)) \<le> 23 * length es"
      using that(2) by (induction es) auto
    with that(1) show ?thesis by simp
  qed
  have "length (metadata_image M x) \<le> 50" if "m = Some x" for x
  proof -
    have "length (meta_iter M x) < 3" and "\<forall>e\<in>set (meta_iter M x). length (entry_image e) \<le> 23"
      using assms(2) entry by (auto simp: that meta_strategy_def)
    from two [OF this] show ?thesis by (simp add: metadata_image_def)
  qed
  then show "opt_ok M m" and "length (opt_image M m) \<le> 51"
    using assms(1) by (auto simp: opt_ok_def opt_image_def metadata_fits_def U32_MAX_def split: option.split)
qed

definition store_at :: "(u64 \<times> f32 list \<times> 'm option) list \<Rightarrow> 'm store_index" where
  "store_at rows = \<lparr>store_dim = DIM, store_metric = Cosine, store_rows = rows\<rparr>"

definition drawn_rows :: "'m metadata_ops \<Rightarrow> (u64 \<times> f32 list \<times> 'm option) list \<Rightarrow> bool" where
  "drawn_rows M rows \<longleftrightarrow> (\<forall>(n, v, m)\<in>set rows. vector_strategy v \<and> meta_strategy M m)"

lemma length_components4: "length (concat (map component_image v)) = 4 * length v"
  by (induction v) (simp_all add: component_image_def)

lemma store_at_size:
  assumes "metadata_ok M" and "drawn_rows M rows"
  shows "length (store_payload M (store_at rows)) \<le> 16 + 75 * length rows"
proof -
  have "length (concat (map (store_row_image M) rows)) \<le> 75 * length rows"
    using assms(2)
  proof (induction rows)
    case (Cons row rows)
    then show ?case
      using opt_image_size(2) [OF assms(1), of "snd (snd row)"]
      by (auto simp: drawn_rows_def store_row_image_def length_components4 vector_strategy_def DIM_def)
  qed simp
  then show ?thesis by (simp add: store_payload_def store_at_def)
qed

lemma store_at_wf:
  assumes M: "metadata_ok M" "collects_ordered M" and rows: "drawn_rows M rows" "length rows < 60"
    and "8192 \<le> umax"
  shows "store_wf umax M (store_at rows)"
proof -
  have "store_row_ok umax M DIM row" if "row \<in> set rows" for row
    using that rows(1) assms(2,5) opt_image_size [OF M(1), of "snd (snd row)"]
    by (fastforce simp: store_row_ok_def drawn_rows_def vector_strategy_def)
  then show ?thesis
    using store_at_size [OF M(1) rows(1)] rows(2) assms(5) by (simp add: store_wf_def store_at_def DIM_def)
qed

subsection \<open>The first invariant holds\<close>

lemma set_unique_rows: "set (unique_rows seen rows) \<subseteq> set rows"
  by (induction seen rows rule: unique_rows.induct) auto

lemma length_unique_rows: "length (unique_rows seen rows) \<le> length rows"
  by (induction seen rows rule: unique_rows.induct) auto

lemma insert_rows_run: "insert_rows rows (store_at old) w = (Inr (store_at (old @ rows)), w)"
proof (induction rows arbitrary: old)
  case (Cons row rows)
  obtain n v m where "row = (n, v, m)" by (cases row)
  then show ?case
    using Cons [of "old @ [row]"]
    by (simp add: store_insert_def Let_def sbind_def slift_def unwrap_def smap_err_def store_at_def)
qed (simp add: sret_def)


text \<open>What the test relies on: the codecs that are compiled in compress a payload, to at least a byte.\<close>

definition codecs_compress :: "codec \<Rightarrow> bool" where
  "codecs_compress C \<longleftrightarrow> (\<forall>raw. raw \<noteq> [] \<longrightarrow>
     (\<exists>data. zstd_encode_all C raw 3 = Some data \<and> data \<noteq> []) \<and> lz4_compress C raw \<noteq> [])"

lemma test_scheme_encodes:
  assumes "codecs_compress C" and "scheme \<in> set (test_schemes C)" and "raw \<noteq> []" and "length raw \<le> 4096" and "4096 \<le> umax"
  obtains packed where "encode C scheme raw = (Inr packed :: ('ie, bytes) result)" and "\<not> too_dense umax scheme raw packed"
    and "validate_config C ((config_new p)\<lparr>cfg_compression := scheme\<rparr>) = (Inr () :: ('ie, unit) result)"
proof -
  have dense: "\<not> too_dense umax scheme raw packed" if "packed \<noteq> []" for packed
  proof -
    have "1 \<le> length packed" using that by (cases packed) simp_all
    then have "4096 \<le> min umax (4096 * length packed)" using assms(5) by simp
    with assms(4) show ?thesis unfolding too_dense_def by linarith
  qed
  obtain data where data: "zstd_encode_all C raw 3 = Some data" "data \<noteq> []" and lz4: "lz4_compress C raw \<noteq> []"
    using assms(1,3) by (auto simp: codecs_compress_def)
  consider "scheme = NoCompression" | "zstd_feature C" "scheme = Zstd 3" | "lz4_feature C" "scheme = Lz4"
    using assms(2) by (auto simp: test_schemes_def split: if_splits)
  then show thesis
  proof cases
    case 1
    then show thesis using that [of raw] assms(3) dense by (simp add: validate_config_def)
  next
    case 2
    then show thesis using that [of data] data dense by (simp add: validate_config_def encode_zstd_def)
  next
    case 3
    then show thesis using that [of "lz4_compress C raw"] lz4 dense by (simp add: validate_config_def encode_lz4_def)
  qed
qed

text \<open>\<open>tempdir\<close>: the new directory has room for the files under the given name.\<close>

definition tempdir_ok :: "tempdir \<Rightarrow> string \<Rightarrow> bool" where
  "tempdir_ok tempdir name \<longleftrightarrow> (\<forall>w. fs_ok w \<and> calm w \<longrightarrow>
     (\<exists>dir v. tempdir w = (Inr dir, v) \<and> fs_ok v \<and> calm v \<and> room (path_join dir name) v \<and> placed (path_join dir name)))"

lemma for_test_passes:
  assumes "\<And>scheme w. scheme \<in> set schemes \<Longrightarrow> good w \<Longrightarrow> \<exists>v. body scheme w = (Inr (), v) \<and> good v" and "good w"
  shows "\<exists>v. for_test body schemes w = (Inr (), v) \<and> good v"
  using assms
proof (induction schemes arbitrary: w)
  case Nil
  then show ?case by (simp add: sret_def)
next
  case (Cons scheme schemes)
  obtain v where "body scheme w = (Inr (), v)" "good v" using Cons.prems by force
  then show ?case using Cons.IH [of v] Cons.prems(1) by (simp add: sbind_def)
qed


lemma scheme_round_trip_passes:
  fixes M :: "'m metadata_ops"
  assumes host: "8192 \<le> umax" "umax \<le> U64_MAX" and C: "codec_ok C" "codecs_compress C"
    and M: "metadata_ok M" "collects_ordered M" and rows: "drawn_rows M rows" "length rows < 40"
    and tempdir: "tempdir_ok tempdir ''s.iqdb''" and scheme: "scheme \<in> set (test_schemes C)"
    and world: "fs_ok w \<and> calm w"
  shows "\<exists>v. scheme_round_trip (store_env umax C crc M :: ('m store_index, 'm, 'ie) env) tempdir rows scheme w =
    (Inr (), v) \<and> fs_ok v \<and> calm v"
proof -
  let ?E = "store_env umax C crc M :: ('m store_index, 'm, 'ie) env"
  let ?i = "store_at rows :: 'm store_index"
  have big: "4096 \<le> umax" using host(1) by simp
  note snap = store_snapshots [OF big host(2) C(1), where crc = crc and M = M and 'ie = 'ie]
  have wf_i: "store_wf umax M ?i" using store_at_wf [OF M rows(1) _ host(1)] rows(2) by simp
  have small: "length (store_payload M ?i) \<le> 4096" using store_at_size [OF M(1) rows(1)] rows(2) by simp
  have "16 \<le> length (store_payload M ?i)" by (simp add: store_payload_def)
  then have some: "store_payload M ?i \<noteq> []" by auto
  obtain dir w1 where dir: "tempdir w = (Inr dir, w1)" and w1: "fs_ok w1" "calm w1"
      "room (path_join dir ''s.iqdb'') w1" "placed (path_join dir ''s.iqdb'')"
    using tempdir world unfolding tempdir_ok_def by blast
  let ?cfg = "(config_new (path_join dir ''s.iqdb''))\<lparr>cfg_compression := scheme\<rparr>"
  obtain packed where packed: "encode C scheme (store_payload M ?i) = (Inr packed :: ('ie, bytes) result)"
      "\<not> too_dense umax scheme (store_payload M ?i) packed" "validate_config C ?cfg = (Inr () :: ('ie, unit) result)"
    by (rule test_scheme_encodes [OF C(2) scheme some small big])
  have env: "codecs ?E = C" "host_umax ?E = umax" by (simp_all add: store_env_def)
  have cfg: "cfg_compression ?cfg = scheme" "cfg_path ?cfg = path_join dir ''s.iqdb''" "\<not> wal_enabled ?cfg"
    by (simp_all add: config_new_def)
  let ?t = "\<lparr>inner = ?i, config = ?cfg, storage_of = std_fs_storage, wal_of = None\<rparr> :: ('m store_index, 'ie) persisted"
  obtain bytes v where run: "open_with ?E ?i ?cfg w1 = (Inr ?t, w1)" "save ?E ?t w1 = (Inr (), v)"
    and dec: "decode_snapshot ?E bytes = Inr ?i" and v: "calm v" "fs_ok v" "content v (path_join dir ''s.iqdb'') = Some bytes"
    by (rule saved_under [OF snap wf_i, where cfg = ?cfg and packed = packed and w = w1, unfolded env cfg(1,2),
          OF packed(3) cfg(3) packed(1,2) w1])
  have load: "load ?E ?cfg v = (Inr ?t, v)"
    by (rule load_snapshot_only [OF v(1,2) _ dec _ cfg(3)]) (simp_all add: cfg(2) env v(3) packed(3))
  have start: "store_new DIM Cosine = (Inr (store_at []) :: 'ie + 'm store_index)"
    by (simp add: store_new_def store_at_def)
  have "new_tempdir tempdir w = (Inr dir :: 'ie persist_error option + path, w1)" by (simp add: new_tempdir_def smap_err_def dir)
  then show ?thesis
    using run v load
    by (simp add: scheme_round_trip_def insert_rows_run sbind_def Let_def start slift_def unwrap_steps(1) index_ref_def sret_def)
qed


subsection \<open>The second invariant holds\<close>

text \<open>The loop as a script of the database.\<close>

fun test_script :: "'m test_action list \<Rightarrow> u64 list \<Rightarrow> u64 \<Rightarrow> 'm action list" where
  "test_script [] live next_id = []"
| "test_script (TInsert v m # actions) live next_id =
     Mutation (Insert (U64 next_id) v m) # test_script actions (live @ [next_id]) (next_id + 1)"
| "test_script (TDelete k # actions) live next_id =
     (if live \<noteq> [] then
        let j = k mod length live in
        Mutation (Delete (U64 (live ! j))) # test_script actions (take j live @ drop (Suc j) live) next_id
      else test_script actions live next_id)"
| "test_script (TCheckpoint # actions) live next_id = Checkpoint # test_script actions live next_id"

text \<open>What a mutation does to the rows, and the mutations the test draws.\<close>

fun row_step :: "'m wal_record \<Rightarrow> (u64 \<times> f32 list \<times> 'm option) list \<Rightarrow> (u64 \<times> f32 list \<times> 'm option) list" where
  "row_step (Insert (U64 n) v m) rows = rows @ [(n, v, m)]"
| "row_step (Delete (U64 n)) rows = filter (\<lambda>(r, _, _). r \<noteq> n) rows"
| "row_step _ rows = rows"

fun drawn :: "'m metadata_ops \<Rightarrow> 'm wal_record \<Rightarrow> bool" where
  "drawn M (Insert (U64 n) v m) \<longleftrightarrow> vector_strategy v \<and> meta_strategy M m"
| "drawn M (Delete (U64 n)) \<longleftrightarrow> True"
| "drawn M _ \<longleftrightarrow> False"

lemma drawn_cases:
  assumes "drawn M r"
  obtains (insert) n v m where "r = Insert (U64 n) v m" and "vector_strategy v" and "meta_strategy M m"
    | (delete) n where "r = Delete (U64 n)"
  using assms by (cases "(M, r)" rule: drawn.cases) auto

lemma store_at_apply [simp]:
  "store_dim (store_at rows) = DIM"
  "store_insert (U64 n) v m (store_at rows) = (Inr (), store_at (rows @ [(n, v, m)]))"
  "store_delete (U64 n) (store_at rows) = (Inr (), store_at (filter (\<lambda>(r, _, _). r \<noteq> n) rows))"
  by (simp_all add: store_insert_def store_delete_def store_at_def)

lemma script_drawn:
  assumes "\<forall>a\<in>set actions. action_strategy M a"
  shows "\<forall>r\<in>set (mutations (test_script actions live n)). drawn M r"
    and "length (mutations (test_script actions live n)) \<le> length actions"
  using assms by (induction actions live n rule: test_script.induct) (auto simp: Let_def)

lemma follow_script:
  assumes "perform_all E (test_script actions live n) s = (Inr (), s')"
  shows "follow E actions (store_at rows) live n s =
    (Inr (store_at (fold row_step (mutations (test_script actions live n)) rows)), s')"
  using assms
proof (induction actions live n arbitrary: rows s rule: test_script.induct)
  case (1 live n)
  then show ?case by (simp add: sret_def)
next
  case (2 v m actions live n)
  from 2(2) obtain s1 where "insert_vector E (U64 n) v m s = (Inr (), s1)"
      and "perform_all E (test_script actions (live @ [n]) (n + 1)) s1 = (Inr (), s')"
    by (auto simp: sbind_Inr_iff mutate_def)
  with 2(1) show ?case by (simp add: Let_def sbind_def slift_def smap_err_def)
next
  case (3 k actions live n)
  show ?case
  proof (cases "live = []")
    case True
    then show ?thesis using 3 by simp
  next
    case False
    let ?vid = "live ! (k mod length live)"
    from 3(3) False obtain s1 where "delete_vector E (U64 ?vid) s = (Inr (), s1)"
        and "perform_all E (test_script actions (take (k mod length live) live @ drop (Suc (k mod length live)) live) n) s1 =
          (Inr (), s')"
      by (auto simp: sbind_Inr_iff mutate_def Let_def)
    with 3(1) False show ?thesis by (simp add: Let_def sbind_def slift_def smap_err_def)
  qed
next
  case (4 actions live n)
  from 4(2) obtain s1 where "checkpoint E s = (Inr (), s1)" and "perform_all E (test_script actions live n) s1 = (Inr (), s')"
    by (auto simp: sbind_Inr_iff)
  with 4(1) show ?case by (simp add: sbind_def smap_err_def)
qed

lemma store_env_simps [simp]:
  "index (store_env umax C crc M) = store_ops umax M" "codecs (store_env umax C crc M) = C"
  "host_umax (store_env umax C crc M) = umax" "metadata (store_env umax C crc M) = M"
  "crc_hash (store_env umax C crc M) = crc"
  by (simp_all add: store_env_def)

lemma drawn_accepts:
  fixes M :: "'m metadata_ops"
  assumes "\<forall>r\<in>set rs. drawn M r"
  shows "accepts (store_ops umax M :: ('m store_index, 'm, 'ie) index_ops) (store_at rows) rs j \<longleftrightarrow> j = store_at (fold row_step rs rows)"
  using assms
proof (induction rs arbitrary: rows)
  case (Cons r rs)
  have "drawn M r" using Cons.prems by simp
  then have "right_dim (store_ops umax M :: ('m store_index, 'm, 'ie) index_ops) r (store_at rows) \<and>
      apply_record (store_ops umax M :: ('m store_index, 'm, 'ie) index_ops) r (store_at rows) = (Inr (), store_at (row_step r rows))"
    by (cases rule: drawn_cases) (auto simp: vector_strategy_def store_ops_def)
  with Cons show ?case by simp
qed auto

lemma drawn_rows_step:
  assumes "\<forall>r\<in>set rs. drawn M r" and "drawn_rows M rows"
  shows "drawn_rows M (fold row_step rs rows)" and "length (fold row_step rs rows) \<le> length rs + length rows"
proof -
  have "drawn_rows M (fold row_step rs rows) \<and> length (fold row_step rs rows) \<le> length rs + length rows"
    using assms
  proof (induction rs arbitrary: rows)
    case (Cons r rs)
    have "drawn M r" using Cons.prems by simp
    then have "drawn_rows M (row_step r rows) \<and> length (row_step r rows) \<le> Suc (length rows)"
      using Cons.prems(2) by (cases rule: drawn_cases) (auto simp: drawn_rows_def le_SucI)
    with Cons.IH [of "row_step r rows"] Cons.prems(1) show ?case by auto
  qed simp
  then show "drawn_rows M (fold row_step rs rows)" and "length (fold row_step rs rows) \<le> length rs + length rows" by auto
qed

lemma drawn_record_size:
  assumes "metadata_ok M" and "drawn M r"
  shows "length (record_image M r) \<le> 81"
  using assms(2)
proof (cases rule: drawn_cases)
  case (insert n v m)
  have "(case m of None \<Rightarrow> [0] | Some m \<Rightarrow> 1 # metadata_image M m) = opt_image M m" by (simp add: opt_image_def)
  then show ?thesis
    using opt_image_size(2) [OF assms(1) insert(3)] insert(2)
    by (simp add: insert(1) length_components4 vector_strategy_def DIM_def)
qed simp

lemma drawn_readable:
  assumes M: "metadata_ok M" and rs: "\<forall>r\<in>set rs. drawn M r" "length rs < 60" and host: "MAX_RECORD_LEN \<le> umax"
  shows "readable (store_env umax C crc M) rs"
proof -
  have size: "\<forall>r\<in>set rs. length (record_image M r) \<le> 81" using drawn_record_size [OF M] rs(1) by blast
  then have "length (record_frames crc M rs) \<le> 89 * length rs" by (induction rs) auto
  then have "length (wal_log crc M rs) \<le> umax" using rs(2) host by (simp add: wal_log_def MAX_RECORD_LEN_def)
  with size M host show ?thesis by (auto simp: readable_def loggable_def MAX_RECORD_LEN_def)
qed

lemma drawn_valid:
  assumes M: "metadata_ok M" "collects_ordered M" and rs: "\<forall>r\<in>set rs. drawn M r" "length rs < 60" and "8192 \<le> umax"
  shows "stays_valid (store_env umax C crc M :: ('m store_index, 'm, 'ie) env) ((config_new p)\<lparr>wal_enabled := True\<rparr>)
    (store_wf umax M) (store_payload M) (store_at []) rs"
  unfolding stays_valid_def
proof (intro allI impI)
  fix n j
  assume acc: "accepts (index (store_env umax C crc M :: ('m store_index, 'm, 'ie) env)) (store_at []) (take n rs) j"
  have drawn: "\<forall>r\<in>set (take n rs). drawn M r" using rs(1) by (auto dest: in_set_takeD)
  note step = drawn_rows_step [OF drawn, of "[]"]
  have "drawn_rows M []" by (simp add: drawn_rows_def)
  with step rs(2) have "drawn_rows M (fold row_step (take n rs) [])" and "length (fold row_step (take n rs) []) < 60" by auto
  from store_at_wf [OF M this assms(5)] acc
  show "store_wf umax M j \<and> reloadable (store_env umax C crc M :: ('m store_index, 'm, 'ie) env)
      (cfg_compression ((config_new p)\<lparr>wal_enabled := True\<rparr>)) (store_payload M j)"
    by (simp add: config_new_def drawn_accepts [OF drawn])
qed


lemma wal_replay_passes:
  fixes M :: "'m metadata_ops"
  assumes host: "MAX_RECORD_LEN \<le> umax" "umax \<le> U64_MAX" and C: "codec_ok C"
    and M: "metadata_ok M" "collects_ordered M" and actions: "actions_strategy M actions"
    and tempdir: "tempdir_ok tempdir ''idx.iqdb''" and world: "fs_ok w" "calm w"
  shows "passes (wal_replay_matches_in_memory_model (store_env umax C crc M :: ('m store_index, 'm, 'ie) env)
    tempdir actions) w"
proof -
  let ?E = "store_env umax C crc M :: ('m store_index, 'm, 'ie) env"
  let ?as = "test_script actions [] 0"
  let ?model = "store_at (fold row_step (mutations ?as) []) :: 'm store_index"
  have big: "4096 \<le> umax" "8192 \<le> umax" using host(1) by (simp_all add: MAX_RECORD_LEN_def)
  obtain dir w1 where dir: "tempdir w = (Inr dir, w1)" and w1: "fs_ok w1" "calm w1"
      "room (path_join dir ''idx.iqdb'') w1" "placed (path_join dir ''idx.iqdb'')"
    using tempdir world unfolding tempdir_ok_def by blast
  let ?cfg = "(config_new (path_join dir ''idx.iqdb''))\<lparr>wal_enabled := True\<rparr>"
  have cfg: "wal_enabled ?cfg" "cfg_fsync_policy ?cfg = Always" "cfg_compression ?cfg = NoCompression"
      "cfg_path ?cfg = path_join dir ''idx.iqdb''" "validate_config (codecs ?E) ?cfg = (Inr () :: ('ie, unit) result)"
    by (simp_all add: config_new_def validate_config_def)
  have use: "wal_use ?E (store_wf umax M) (store_payload M) ?cfg"
    using store_snapshots [OF big(1) host(2) C] cfg by (simp add: wal_use_def wal_use_axioms_def)
  have enc: "encodes_all ?E ?cfg" by (simp add: encodes_all_def cfg(3))
  have rest: "at_rest ?cfg w1" and path: "placed (cfg_path ?cfg)"
    using w1 by (simp_all add: at_rest_def cfg(4))
  have "\<forall>a\<in>set actions. action_strategy M a" and few: "length actions < 60"
    using actions by (simp_all add: actions_strategy_def)
  note drawn = script_drawn(1) [OF this(1), of "[]" 0]
  have few: "length (mutations ?as) < 60"
    using script_drawn(2) [of actions M "[]" 0] actions by (simp add: actions_strategy_def)
  have acc: "accepts (index ?E) (store_at []) (mutations ?as) ?model" by (simp add: drawn_accepts [OF drawn])
  obtain this that v where run: "session ?E (store_at []) ?cfg ?as w1 = (Inr this, v)"
    and ld: "load ?E ?cfg v = (Inr that, v)" "inner that = ?model"
    using wal_use.session_runs [OF use enc path w1(1) rest acc drawn_readable [OF M(1) drawn few host(1)]
        drawn_valid [OF M drawn few big(2)]]
    by blast
  obtain db w2 where op: "open_with ?E (store_at []) ?cfg w1 = (Inr db, w2)"
    and script: "perform_all ?E ?as (db, w2) = (Inr (), (this, v))"
    using run by (auto simp: session_def sbind_def Let_def rbind_def split: prod.splits sum.splits)
  note follow = follow_script [OF script, of "[]"]
  have start: "store_new DIM Cosine = (Inr (store_at []) :: 'ie + 'm store_index)"
    by (simp add: store_new_def store_at_def)
  have "new_tempdir tempdir w = (Inr dir :: 'ie persist_error option + path, w1)" by (simp add: new_tempdir_def smap_err_def dir)
  then show ?thesis
    using op ld
    by (simp add: passes_def wal_replay_matches_in_memory_model_def sbind_def Let_def start slift_def follow
        unwrap_steps(1) index_ref_def sret_def)
qed

text \<open>
  C15. The property tests of \<open>tests/invariants.rs\<close> hold for every input their strategies draw.  When
  no call fails, every set of rows is saved and loaded unchanged under every codec that is
  compiled in, and after every sequence of inserts, deletes and checkpoints a load gives the rows
  of the model.  The host, the checksum, the metadata and the temporary directory are any.
\<close>

theorem property_tests_pass:
  fixes M :: "'m metadata_ops"
  assumes host: "MAX_RECORD_LEN \<le> umax" "umax \<le> U64_MAX" and C: "codec_ok C" "codecs_compress C"
    and M: "metadata_ok M" "collects_ordered M"
    and drawn: "rows_strategy M rows" "actions_strategy M actions"
    and tempdir: "tempdir_ok tempdir ''s.iqdb''" "tempdir_ok tempdir ''idx.iqdb''" and world: "fs_ok w" "calm w"
  shows "passes (snapshot_round_trip_preserves_state (store_env umax C crc M :: ('m store_index, 'm, 'ie) env) tempdir rows) w \<and>
    passes (wal_replay_matches_in_memory_model (store_env umax C crc M :: ('m store_index, 'm, 'ie) env) tempdir actions) w"
proof -
  let ?E = "store_env umax C crc M :: ('m store_index, 'm, 'ie) env"
  have "8192 \<le> umax" using host(1) by (simp add: MAX_RECORD_LEN_def)
  moreover have "drawn_rows M (unique_rows [] rows)" and "length (unique_rows [] rows) < 40"
    using drawn(1) set_unique_rows [of "[]" rows] length_unique_rows [of "[]" rows]
    by (auto simp: rows_strategy_def drawn_rows_def)
  ultimately have "\<exists>v. scheme_round_trip ?E tempdir (unique_rows [] rows) scheme u = (Inr (), v) \<and> fs_ok v \<and> calm v"
    if "scheme \<in> set (test_schemes C)" "fs_ok u \<and> calm u" for scheme u
    using scheme_round_trip_passes [OF _ host(2) C M _ _ tempdir(1) that] by blast
  then have "\<exists>v. for_test (scheme_round_trip ?E tempdir (unique_rows [] rows)) (test_schemes C) w = (Inr (), v) \<and>
      fs_ok v \<and> calm v"
    using for_test_passes [where good = "\<lambda>v. fs_ok v \<and> calm v" and schemes = "test_schemes C"] world by blast
  then have "passes (snapshot_round_trip_preserves_state ?E tempdir rows) w"
    by (auto simp: passes_def snapshot_round_trip_preserves_state_def)
  with wal_replay_passes [OF host C(1) M drawn(2) tempdir(2) world, where crc = crc and 'ie = 'ie] show ?thesis by blast
qed


text \<open>Metadata of one flag, and a directory of its own on an empty disk.\<close>

definition one_flag :: "bool metadata_ops" where
  "one_flag = \<lparr>meta_len = (\<lambda>b. 1), meta_iter = (\<lambda>b. [(ascii ''flag'', VBool b)]),
     meta_collect = (\<lambda>es. es \<noteq> [] \<and> flag_of (hd es))\<rparr>"

lemma one_flag_ok: "metadata_ok one_flag" "collects_ordered one_flag"
  by (simp_all add: metadata_ok_def collects_ordered_def btree_of_def one_flag_def ascii_def)

definition empty_disk :: tempdir where
  "empty_disk w = (Inr (Path True [''db'']), example_world [])"

lemma empty_disk_ok: "name \<noteq> ''..'' \<Longrightarrow> tempdir_ok empty_disk name"
  using example_world_ok [of "[]"]
  by (auto simp: tempdir_ok_def empty_disk_def room_def placed_def example_world_def parent_exists_def wal_path_def
      target_dir_def Let_def temp_name_def calm_def)

theorem property_tests_pass_witness:
  "passes (snapshot_round_trip_preserves_state (store_env U64_MAX stored_codec crc32_ieee one_flag :: (bool store_index, bool, unit) env)
      empty_disk [(7, [0x41100000, 0, 0xC2C80000, 0x3F800000], Some True), (7, [0x41100000, 0, 0xC2C80000, 0x3F800000], None), (9, [0, 0, 0, 0x40000000], None)]) (example_world []) \<and>
    passes (wal_replay_matches_in_memory_model (store_env U64_MAX stored_codec crc32_ieee one_flag :: (bool store_index, bool, unit) env)
      empty_disk [TInsert [0x41100000, 0, 0xC2C80000, 0x3F800000] (Some False), TCheckpoint, TInsert [0, 0, 0, 0x40000000] None, TDelete 4]) (example_world [])"
  by (rule property_tests_pass [OF _ _ stored_codec_ok _ one_flag_ok _ _ empty_disk_ok empty_disk_ok example_world_ok])
    (simp_all add: U64_MAX_def MAX_RECORD_LEN_def codecs_compress_def stored_codec_def rows_strategy_def actions_strategy_def
      vector_strategy_def finite_f32_def DIM_def meta_strategy_def one_flag_def ascii_def lower_case_def calm_def example_world_def
      word_le_nat_alt)

end
