(* ===== verification/Damage.thy ===== *)
theory Damage
  imports Snapshots
begin

section \<open>Flipped bytes and cut files\<close>

text \<open>
  Two kinds of damage that a snapshot always shows.  A byte all of whose bits are flipped is
  refused wherever it is, the version field included.  A file that was cut is refused at every
  length, when the index reads its payload to the end: then the header, the preamble, the
  checksum or the index itself runs out of input.
\<close>

subsection \<open>A flipped byte\<close>

lemma loadable_version:
  assumes "decode_snapshot (E :: ('i, 'm, 'ie) env) bytes = Inr i"
  shows "12 \<le> length bytes" and "take 4 (drop 8 bytes) \<in> {[1, 0, 0, 0], [2, 0, 0, 0]}"
proof -
  obtain tag h region where h: "header_ok (host_umax E) h" "bytes = header_image tag h @ region"
      "length (header_image tag h) = 41 + length (INDEX_TYPE (index E))"
    using decode_snapshot_parts [OF assms] by blast
  have "fh_version h \<in> {1, 2}"
    using h(1) version_supported [of "fh_version h"] by (simp add: header_ok_def)
  then show "take 4 (drop 8 bytes) \<in> {[1, 0, 0, 0], [2, 0, 0, 0]}"
    using header_version_field [OF h(1), of tag region] h(2) by (auto simp: version_bytes)
  show "12 \<le> length bytes" using h(2,3) by simp
qed

lemma flipped_version_refused:
  assumes loads: "decode_snapshot (E :: ('i, 'm, 'ie) env) bytes = Inr i" and k: "8 \<le> k" "k < 12"
  shows "decode_snapshot E (bytes[k := bytes ! k XOR 0xFF]) \<noteq> Inr j"
proof
  let ?b = "bytes ! k XOR 0xFF"
  assume bad: "decode_snapshot E (bytes[k := ?b]) = Inr j"
  note len = loadable_version(1) [OF loads]
  have old: "bytes ! k = take 4 (drop 8 bytes) ! (k - 8)" and new: "?b = take 4 (drop 8 (bytes[k := ?b])) ! (k - 8)"
    using k len by (simp_all add: nth_take_drop)
  have few: "xs ! (k - 8) \<in> {0, 1, 2}" if "xs \<in> {[1, 0, 0, 0], [2, 0, 0, 0]}" for xs :: bytes
  proof -
    have "k - 8 = 0 \<or> k - 8 = 1 \<or> k - 8 = 2 \<or> k - 8 = 3" using k by arith
    then show ?thesis using that by auto
  qed
  have "bytes ! k \<in> {0, 1, 2}" by (subst old) (rule few [OF loadable_version(2) [OF loads]])
  moreover have "?b \<in> {0, 1, 2}" by (subst new) (rule few [OF loadable_version(2) [OF bad]])
  ultimately have False by auto
  then show False .
qed

lemma flipped_byte_refused:
  assumes crc: "crc_detects (crc_hash E)" and loads: "decode_snapshot (E :: ('i, 'm, 'ie) env) bytes = Inr i"
    and k: "k < length bytes"
  shows "\<exists>e. decode_snapshot E (bytes[k := bytes ! k XOR 0xFF]) = Inl e"
proof -
  have ne: "bytes ! k \<noteq> bytes ! k XOR 0xFF" by (rule xor_changes) simp
  have "decode_snapshot E (bytes[k := bytes ! k XOR 0xFF]) \<noteq> Inr j" for j
  proof (cases "41 + length (INDEX_TYPE (index E)) \<le> k")
    case True
    from decode_damaged [OF crc loads this k ne] show ?thesis by auto
  next
    case False
    then consider "8 \<le> k" "k < 12" | "k < 41 + length (INDEX_TYPE (index E))" "k < 8 \<or> 12 \<le> k" by linarith
    then show ?thesis
      by cases (rule flipped_version_refused [OF loads], assumption+, rule decode_damaged_header [OF loads _ ne], assumption+)
  qed
  then show ?thesis by (cases "decode_snapshot E (bytes[k := bytes ! k XOR 0xFF])") auto
qed


subsection \<open>A file that was cut\<close>

text \<open>
  A reader program is \<open>steady\<close> when more input does not change what it returned.  It is
  \<open>extendable\<close> without the account of the errors.
\<close>

definition steady :: "(reader, 'ie, 'a) prog \<Rightarrow> bool" where
  "steady m \<longleftrightarrow> (\<forall>xs ys p v r. m \<lparr>rrest = xs, rpos = p, rend = None\<rparr> = (Inr v, r) \<longrightarrow>
     rend r = None \<and> m \<lparr>rrest = xs @ ys, rpos = p, rend = None\<rparr> = (Inr v, r\<lparr>rrest := rrest r @ ys\<rparr>))"

named_theorems steady_rules \<open>programs that are steady\<close>

lemma steadyE:
  assumes "steady m" and "m \<lparr>rrest = xs, rpos = p, rend = None\<rparr> = (Inr v, r)"
  obtains zs q where "r = \<lparr>rrest = zs, rpos = q, rend = None\<rparr>"
    and "\<And>ys. m \<lparr>rrest = xs @ ys, rpos = p, rend = None\<rparr> = (Inr v, \<lparr>rrest = zs @ ys, rpos = q, rend = None\<rparr>)"
  using assms(1) [unfolded steady_def, rule_format, OF assms(2)] that by (cases r) auto

lemma steady_pure [steady_rules]: "steady (sret x)" "steady (sfail e)" "steady (slift r)"
  by (auto simp: steady_def sret_def sfail_def slift_def split: sum.splits)

lemma steady_read [steady_rules]: "steady (read_io n)"
  by (auto simp: steady_def read_io_def smap_err_def read_exact_def split: if_splits)

lemma steady_sbind [steady_rules]:
  assumes m: "steady m" and f: "\<And>x. steady (f x)"
  shows "steady (sbind m f)"
  unfolding steady_def
proof (intro allI impI)
  fix xs ys p v r
  assume run: "sbind m f \<lparr>rrest = xs, rpos = p, rend = None\<rparr> = (Inr v, r)"
  then obtain x r1 where one: "m \<lparr>rrest = xs, rpos = p, rend = None\<rparr> = (Inr x, r1)" and two: "f x r1 = (Inr v, r)"
    by (auto simp: sbind_Inr_iff)
  obtain zs q where r1: "r1 = \<lparr>rrest = zs, rpos = q, rend = None\<rparr>"
    and more: "\<And>ys. m \<lparr>rrest = xs @ ys, rpos = p, rend = None\<rparr> = (Inr x, \<lparr>rrest = zs @ ys, rpos = q, rend = None\<rparr>)"
    using steadyE [OF m one] by metis
  from f [of x, unfolded steady_def, rule_format, OF two [unfolded r1]] more
  show "rend r = None \<and> sbind m f \<lparr>rrest = xs @ ys, rpos = p, rend = None\<rparr> = (Inr v, r\<lparr>rrest := rrest r @ ys\<rparr>)"
    by (simp add: sbind_def)
qed

lemma steady_if [steady_rules]: "(b \<Longrightarrow> steady m) \<Longrightarrow> (\<not> b \<Longrightarrow> steady m') \<Longrightarrow> steady (if b then m else m')"
  by simp

text \<open>An index whose payload says where it ends, and that reads it to the end.\<close>

locale delimited = persistable IX valid payload umax
  for IX :: "('i, 'm, 'ie) index_ops" and valid and payload and umax +
  assumes steady: "steady (load_from IX)"
    and reads_all: "valid i \<Longrightarrow> rrest (snd (load_from IX (cursor_new (payload i)))) = []"
begin

lemma cut_payload:
  assumes "valid i" and "k < length (payload i)"
  shows "fst (load_from IX (cursor_new (take k (payload i)))) \<noteq> Inr j"
proof
  assume bad: "fst (load_from IX (cursor_new (take k (payload i)))) = Inr j"
  obtain a r where run: "load_from IX (cursor_new (take k (payload i))) = (a, r)" by (metis prod.exhaust)
  have "load_from IX \<lparr>rrest = take k (payload i), rpos = 0, rend = None\<rparr> = (Inr j, r)"
    using run bad by (simp add: cursor_new_def)
  then obtain zs q where "\<And>ys. load_from IX \<lparr>rrest = take k (payload i) @ ys, rpos = 0, rend = None\<rparr> =
      (Inr j, \<lparr>rrest = zs @ ys, rpos = q, rend = None\<rparr>)"
    using steadyE [OF steady] by metis
  from this [of "drop k (payload i)"] have "drop k (payload i) = []"
    using reads_all [OF assms(1)] by (simp add: cursor_new_def)
  then show False using assms(2) by simp
qed

end

lemma cut_region:
  assumes "decode_region umax C (take m (region_of NoCompression raw raw)) = (Inr raw' :: ('ie, bytes) result)"
  shows "9 \<le> m \<and> raw' = take (m - 9) raw"
proof (cases "9 \<le> m")
  case True
  have region: "take m (region_of NoCompression raw raw) = SCHEME_NONE # to_le 8 (of_nat (length raw) :: u64) @ take (m - 9) raw"
    using True by (simp add: region_of_def take_Cons' del: to_le.simps)
  with assms True show ?thesis
    by (auto simp: decode_region_def decode_def scheme_defs rbind_Inr_iff Let_def simp del: to_le.simps split: if_splits)
next
  case False
  with assms show ?thesis by (auto simp: decode_region_def split: if_splits)
qed

lemma cut_snapshot_refused:
  fixes E :: "('i, 'm, 'ie) env"
  assumes snap: "snapshots E valid payload" and index: "delimited (index E) valid payload (host_umax E)"
    and wrap: "valid (inner this)" "cfg_compression (config this) = NoCompression"
    and img: "snapshot_image E this = Inr bytes" and k: "k < length bytes"
  shows "\<exists>e. decode_snapshot E (take k bytes) = Inl e"
proof -
  let ?raw = "payload (inner this)"
  let ?region = "region_of NoCompression ?raw ?raw"
  let ?h = "header_of E (inner this) ?region"
  have enc: "encode (codecs E) (cfg_compression (config this)) ?raw = (Inr ?raw :: ('ie, bytes) result)"
    by (simp add: wrap(2))
  obtain tag where bytes: "bytes = header_image tag ?h @ ?region" and w: "writable ?h tag"
    using snapshots.snapshot_image_Inr [OF snap wrap(1) enc, unfolded wrap(2)] img by (metis Inr_inject)
  have ok: "header_ok (host_umax E) ?h" using snapshots.header_of_ok [OF snap wrap(1)] by blast
  have "decode_snapshot E (take k bytes) \<noteq> Inr j" for j
  proof
    assume bad: "decode_snapshot E (take k bytes) = Inr j"
    then obtain tag' h' region' where h': "take k bytes = header_image tag' h' @ region'"
        "length (header_image tag' h') = 41 + length (INDEX_TYPE (index E))"
      using decode_snapshot_parts by metis
    let ?n = "length (header_image tag ?h)"
    have n: "?n = 41 + length (INDEX_TYPE (index E))" by (simp add: length_header_image header_of_def)
    have "length (take k bytes) \<ge> ?n" unfolding h'(1) using h'(2) n by simp
    then have cut: "take k bytes = header_image tag ?h @ take (k - ?n) ?region" by (simp add: bytes)
    from bad [unfolded cut decode_snapshot_header [OF ok w]]
    have "load_region E ?h (take (k - ?n) ?region) = Inr j" by simp
    then obtain raw' where raw': "decode_region (host_umax E) (codecs E) (take (k - ?n) ?region) = (Inr raw' :: ('ie, bytes) result)"
      and ld: "fst (load_from (index E) (cursor_new raw')) = Inr j"
      by (auto simp: load_region_def header_of_def CURRENT_VERSION_def rbind_Inr_iff)
    have "k - ?n - 9 < length ?raw" and "raw' = take (k - ?n - 9) ?raw"
      using cut_region [OF raw'] k by (auto simp: bytes region_of_def)
    then show False using delimited.cut_payload [OF index wrap(1)] ld by blast
  qed
  then show ?thesis by (cases "decode_snapshot E (take k bytes)") auto
qed

end
