(* ===== verification/Log_Sessions.thy ===== *)
theory Log_Sessions
  imports Sessions
begin

section \<open>Sessions of mutations only\<close>

text \<open>
  What the tests and examples do most: open a database in WAL mode, log a number of accepted
  mutations, and look at the files or load again.  The log then holds exactly these mutations
  behind the snapshot of the first index; any index may be reached, as long as nothing has to
  write it.
\<close>

text \<open>Accepted mutations on a calm world: the log keeps up, and no other file is touched.\<close>

lemma mutations_logged:
  fixes E :: "('i, 'm, 'ie) env"
  assumes "in_step E base rs (this, w)" and "calm w" and clean: "refuses_cleanly (index E)"
    and "\<forall>r\<in>set rs'. record_ok (metadata E) r" and "accepts (index E) (inner this) rs' j"
  shows "\<exists>this' w'. perform_all E (map Mutation rs') (this, w) = (Inr (), (this', w')) \<and>
    in_step E base (rs @ rs') (this', w') \<and> config this' = config this \<and> calm w' \<and> fs_ok w' \<and> in_place w w' \<and>
    old_names w' = old_names w \<and> (\<forall>bs. durable w (cfg_path (config this)) (Some bs) \<longrightarrow> durable w' (cfg_path (config this)) (Some bs))"
  using assms(1,2,4,5)
proof (induction rs' arbitrary: rs this w)
  case Nil
  then have "fs_ok w" by (auto simp: in_step_def log_state_def opened_def wal_ready_def)
  with Nil show ?case by (simp add: sret_def)
next
  case (Cons r rs')
  obtain l where l: "wal_of this = Some l" using Cons.prems(1) by (auto simp: in_step_def log_state_def)
  obtain k where dim: "right_dim (index E) r (inner this)" and ok: "apply_record (index E) r (inner this) = (Inr (), k)"
    and rest: "accepts (index E) k rs' j"
    using Cons.prems(4) by (cases "apply_record (index E) r (inner this)") auto
  obtain this1 w1 where m: "mutate E r (this, w) = (Inr (), (this1, w1))" and w1: "calm w1" "inner this1 = k" "in_place w w1"
    using mutate_sure [OF Cons.prems(2) l _ ok] Cons.prems(3) by fastforce
  note eff = mutate_in_step [OF Cons.prems(1) clean m]
  have step: "in_step E base (rs @ [r]) (this1, w1)" using eff(8) dim by simp
  have acc: "accepts (index E) (inner this1) rs' j" using rest w1(2) by simp
  have good: "\<forall>r\<in>set rs'. record_ok (metadata E) r" using Cons.prems(3) by simp
  obtain this' w' where run: "perform_all E (map Mutation rs') (this1, w1) = (Inr (), (this', w'))"
    and w': "in_step E base ((rs @ [r]) @ rs') (this', w')" "config this' = config this1" "calm w'" "fs_ok w'" "in_place w1 w'"
      "old_names w' = old_names w1" "\<forall>bs. durable w1 (cfg_path (config this1)) (Some bs) \<longrightarrow> durable w' (cfg_path (config this1)) (Some bs)"
    using Cons.IH [OF step w1(1) good acc] by blast
  have "durable w1 (cfg_path (config this)) (Some bs)" if "durable w (cfg_path (config this)) (Some bs)" for bs
    using spares_durable [OF eff(4) _ that] wal_path_neq by metis
  moreover have "in_place w w'" using in_place_trans [OF w1(3) w'(5)] .
  ultimately show ?case
    using run w' m eff(1,6) by (intro exI [of _ this'] exI [of _ w']) (simp add: sbind_def)
qed


text \<open>The same from the opening.\<close>

lemma opened_logged:
  fixes E :: "('i, 'm, 'ie) env"
  assumes snap: "snapshots E valid payload" and valid: "valid i"
    and cfg: "validate_config (codecs E) cfg = (Inr () :: ('ie, unit) result)" "wal_enabled cfg" "cfg_fsync_policy cfg = Always"
      "cfg_compression cfg = NoCompression"
    and world: "fs_ok w" "calm w" "room (cfg_path cfg) w" "placed (cfg_path cfg)"
    and rs: "\<forall>r\<in>set rs. record_ok (metadata E) r" "accepts (index E) i rs j"
  obtains db w1 this v bytes where "open_with E i cfg w = (Inr db, w1)"
    and "perform_all E (map Mutation rs) (db, w1) = (Inr (), (this, v))"
    and "in_step E i rs (this, v)" and "config this = cfg" and "inner this = j"
    and "calm v" "fs_ok v" "room (cfg_path cfg) v"
    and "content v (cfg_path cfg) = Some bytes" and "decode_snapshot E bytes = Inr i"
    and "content v (wal_path (cfg_path cfg)) = Some (wal_log (crc_hash E) (metadata E) rs)"
    and "durable v (cfg_path cfg) (Some bytes)"
proof -
  let ?t = "\<lparr>inner = i, config = cfg, storage_of = std_fs_storage, wal_of = None\<rparr> :: ('i, 'ie) persisted"
  have t: "inner ?t = i" "config ?t = cfg" by simp_all
  have enc: "encode (codecs E) (cfg_compression cfg) (payload i) = (Inr (payload i) :: ('ie, bytes) result)" by (simp add: cfg(4))
  obtain bytes where img: "snapshot_image E ?t = Inr bytes"
    by (rule snapshots.snapshot_image_Inr [OF snap, of ?t, unfolded t, OF valid enc])
  have dec: "decode_snapshot E bytes = Inr i"
    using snapshots.decode_saved [OF snap, of ?t, unfolded t, OF valid _ img] by (simp add: cfg(4))
  obtain db w1 where op: "open_with E i cfg w = (Inr db, w1)" and w1: "calm w1" "room (cfg_path cfg) w1"
    using open_with_sure [OF world(2-4) cfg(2,1) img] by blast
  have unix: "cfg_unix w" using world(3) by (simp add: room_def)
  have pol: "cfg_fsync_policy cfg \<noteq> Never" by (simp add: cfg(3))
  obtain bytes' where db: "inner db = i" "config db = cfg" and img': "snapshot_image E db = Inr bytes'"
    and dur: "durable w1 (cfg_path cfg) (Some bytes')" and step: "in_step E i [] (db, w1)"
    by (rule open_with_effect [OF world(1) unix cfg(2) pol op])
  have same: "bytes' = bytes" using img' img snapshot_image_cong [of db ?t E] db by simp
  have clean: "refuses_cleanly (index E)" using snap by (auto simp: snapshots_def intro: persistable.refuses)
  have acc: "accepts (index E) (inner db) rs j" using rs(2) db(1) by simp
  obtain this v where run: "perform_all E (map Mutation rs) (db, w1) = (Inr (), (this, v))"
    and v: "in_step E i rs (this, v)" "config this = cfg" "calm v" "fs_ok v" "in_place w1 v" "durable v (cfg_path cfg) (Some bytes)"
    using mutations_logged [OF step w1(1) clean rs(1) acc] dur same db(2) by auto
  have "inner this = j" using v(1) rs(2) accepts_fun [of "index E" i rs] by (simp add: in_step_def)
  moreover have "content v (wal_path (cfg_path cfg)) = Some (wal_log (crc_hash E) (metadata E) rs)"
    using v(1,2) log_state_content [of E rs "(this, v)"] by (auto simp: in_step_def)
  ultimately show thesis
    using that [OF op run v(1,2) _ v(3,4) room_in_place [OF w1(2) v(5)] durable_content [OF v(6)] dec _ v(6)] by blast
qed

text \<open>Loading what the session left.\<close>

lemma load_logged:
  assumes "in_step E i rs (this, v)" and "config this = cfg" and "calm v" and "fs_ok v"
    and "validate_config (codecs E) cfg = (Inr () :: ('ie, unit) result)" "wal_enabled cfg"
    and "content v (cfg_path cfg) = Some bytes" and "decode_snapshot E bytes = Inr i"
    and "readable E rs" and "accepts (index E) i rs j"
  shows "load (E :: ('i, 'm, 'ie) env) cfg v = (Inr (loaded cfg j v), v)" and "in_step E i rs (loaded cfg j v, v)"
proof -
  have log: "content v (wal_path (cfg_path cfg)) = Some (wal_log (crc_hash E) (metadata E) rs)"
    using assms(1,2) log_state_content [of E rs "(this, v)"] by (auto simp: in_step_def)
  show "load E cfg v = (Inr (loaded cfg j v), v)" and "in_step E i rs (loaded cfg j v, v)"
    using load_in_step [OF assms(3-8) log assms(9,10)] by simp_all
qed

end
