(* ===== verification/Log_Entry.thy ===== *)
theory Log_Entry
  imports Hazards Log_Sessions
begin

section \<open>The directory entry of the log\<close>

text \<open>
  \<open>Wal::create\<close> syncs the file but not its directory: the entry of a log it created may still
  be missing after a crash.  Mutations do not sync the directory either, so the entry, and with
  it every mutation acknowledged since, stays at risk until the first checkpoint.
\<close>

lemma wal_create_unsynced:
  assumes ok: "fs_ok w" and run: "wal_create p policy w = (Inr l :: ('ie, wal) result, w')"
    and absent: "names w (wal_path p) = None"
  shows "None \<in> set (old_names w' (wal_path p))" and "parent_exists w' (wal_path p)" and "\<not> dirs w' (wal_path p)"
proof -
  let ?p = "wal_path p"
  obtain rf w1 where op: "fs_open_rw True ?p w = (rf, w1)" by (cases "fs_open_rw True ?p w")
  with run obtain h where rf: "rf = Inr h"
    by (cases rf) (auto simp: wal_create_def Let_def sbind_def smap_err_def)
  obtain out w0 where d: "draw w = (out, w0)" by (cases "draw w")
  note q = quiet_draw [OF d]
  have pe: "parent_exists w0 ?p = parent_exists w ?p"
    by (simp add: parent_exists_def quietD [OF q] split: option.split)
  have new: "w1 = new_file ?p w0" "parent_exists w ?p" "\<not> dirs w ?p"
    using op rf d absent
    by (auto simp: fs_open_rw_def call_def quietD [OF q] pe split: outcome.splits if_splits)
  have w1: "None \<in> set (old_names w1 ?p)" "dirs w1 = dirs w"
    using absent q by (auto simp: new(1) new_file_def set_name_def set_node_def quiet_def)
  let ?l = "new_wal h ?p policy"
  have "returning_wal (sbind wal_write_header (\<lambda>_. sync_now)) ?l w1 = (Inr l :: ('ie, wal) result, w')"
    using run op rf by (simp add: wal_create_def Let_def sbind_def smap_err_def)
  then obtain l' res where m: "sbind wal_write_header (\<lambda>_. sync_now) (?l, w1) = (res :: ('ie, unit) result, (l', w'))"
    by (rule returning_wal_cases) blast
  have ready: "wal_ready (?l, w1)"
    using fs_open_rw_effect [OF ok op] rf by (simp add: wal_ready_def new_wal_def wal_node_def wal_ino_def)
  have "own_file (?l, w1) (l', w')" using write_header_sync [OF ready m] by blast
  then have same: "old_names w' = old_names w1" "dirs w' = dirs w" using w1(2) by (simp_all add: own_file_def)
  show "None \<in> set (old_names w' ?p)" using w1(1) same(1) by simp
  show "parent_exists w' ?p" "\<not> dirs w' ?p" using new same(2) by (simp_all add: parent_exists_def split: option.splits)
qed

lemma crash_forgets:
  assumes "fs_ok w" and "None \<in> set (old_names w p)"
  shows "\<exists>v. crash w v \<and> names v = (names w)(p := None) \<and> calm v"
proof -
  let ?v = "w\<lparr>nodes := (\<lambda>i. sync_inode (nodes w i)), names := (names w)(p := None), old_names := (\<lambda>p. []),
    faults := [], down := False\<rparr>"
  have "survives (nodes w i) (sync_inode (nodes w i))" for i
    using fs_okD(5) [OF assms(1), of i]
    by (auto simp: survives_def sync_inode_def inode_ok_def intro: exI [of _ "length (data (nodes w i))"])
  then have "crash w ?v"
    using assms by (auto simp: crash_def dest: fs_okD(3))
  then show ?thesis by (intro exI [of _ ?v]) (simp add: calm_def)
qed

lemma load_missing_log:
  assumes calm: "calm w" and ok: "fs_ok w"
    and cfg: "validate_config (codecs E) cfg = (Inr () :: ('ie, unit) result)" "wal_enabled cfg"
    and snap: "content w (cfg_path cfg) = Some bytes" "decode_snapshot E bytes = Inr base"
    and absent: "names w (wal_path (cfg_path cfg)) = None" "\<not> dirs w (wal_path (cfg_path cfg))"
      "parent_exists w (wal_path (cfg_path cfg))"
  shows "\<exists>this w'. load (E :: ('i, 'm, 'ie) env) cfg w = (Inr this, w') \<and> inner this = base"
proof -
  let ?p = "wal_path (cfg_path cfg)"
  have replay: "replay (host_umax E) (crc_hash E) (metadata E) (index E) (cfg_path cfg) (base, w) =
      (Inr 0 :: ('ie, nat) result, (base, w))"
    using absent by (simp add: replay_def Let_def fs_read_def call_def draw_calm [OF calm] content_def not_found_def)
  let ?l = "new_wal \<lparr>h_ino = next_ino w, h_pos = 0\<rparr> ?p (cfg_fsync_policy cfg)"
  have open': "fs_exists ?p w = (False, w)" "fs_open_rw False ?p w = (Inr \<lparr>h_ino = next_ino w, h_pos = 0\<rparr>, new_file ?p w)"
    using absent by (simp_all add: fs_exists_def fs_open_rw_def call_def draw_calm [OF calm])
  have "sure (sbind (on_file fs_seek_end) (\<lambda>end_pos. sbind wal_write_header (\<lambda>_. sync_now)) :: ('ie, unit) wal_prog)"
    by (intro surely)
  then obtain x s' where "sbind (on_file fs_seek_end) (\<lambda>end_pos. sbind wal_write_header (\<lambda>_. sync_now)) (?l, new_file ?p w) =
      (Inr x :: ('ie, unit) result, s')"
    using calm by (metis sureE snd_conv calm_nodes(2))
  then obtain l w' where "wal_open_for_append (cfg_path cfg) (cfg_fsync_policy cfg) w = (Inr l :: ('ie, wal) result, w')"
    by (cases s') (simp add: wal_open_for_append_def Let_def open' sbind_def smap_err_def returning_wal_def)
  then show ?thesis
    using cfg snap by (simp add: load_def load_with_storage_def sbind_def std_read_all_calm [OF calm ok snap(1)] replay)
qed

text \<open>As long as the entry is not synced, there is a crash behind which the log is not found.\<close>

lemma log_entry_forgotten:
  fixes E :: "('i, 'm, 'ie) env"
  assumes cfg: "validate_config (codecs E) cfg = (Inr () :: ('ie, unit) result)" "wal_enabled cfg"
    and step: "in_step E base rs (this, w)" "config this = cfg"
    and snap: "durable w (cfg_path cfg) (Some bytes)" "decode_snapshot E bytes = Inr base"
    and entry: "None \<in> set (old_names w (wal_path (cfg_path cfg)))" "parent_exists w (wal_path (cfg_path cfg))"
  shows "\<exists>v that v'. crash w v \<and> load E cfg v = (Inr that, v') \<and> inner that = base"
proof -
  let ?p = "wal_path (cfg_path cfg)"
  obtain l where l: "log_state E rs (this, w) l" using step(1) by (auto simp: in_step_def)
  then have ok: "fs_ok w" and "names w ?p = Some (wal_ino (l, w))"
    using step(2) by (auto simp: log_state_def opened_def wal_ready_def)
  then have nd: "\<not> dirs w ?p" using fs_okD(2) by blast
  obtain v where v: "crash w v" "names v = (names w)(?p := None)" "calm v"
    using crash_forgets [OF ok entry(1)] by blast
  then have "dirs v = dirs w" by (simp add: crash_def)
  then have absent: "names v ?p = None" "\<not> dirs v ?p" "parent_exists v ?p"
    using v(2) nd entry(2) by (simp_all add: parent_exists_def split: option.splits)
  have "content v (cfg_path cfg) = Some bytes" by (rule crash_durable(1) [OF v(1) snap(1)])
  from load_missing_log [OF v(3) crash_ok [OF v(1) ok] cfg this snap(2) absent] v(1) show ?thesis by blast
qed

subsection \<open>From the opening on\<close>

lemma open_with_unsynced:
  fixes E :: "('i, 'm, 'ie) env"
  assumes world: "fs_ok w" "calm w" "room (cfg_path cfg) w" "placed (cfg_path cfg)"
    and absent: "names w (wal_path (cfg_path cfg)) = None"
    and cfg: "wal_enabled cfg"
    and img: "snapshot_image E \<lparr>inner = i, config = cfg, storage_of = std_fs_storage, wal_of = None\<rparr> = Inr bytes"
    and run: "open_with E i cfg w = (Inr db, w1)"
  shows "None \<in> set (old_names w1 (wal_path (cfg_path cfg)))" and "parent_exists w1 (wal_path (cfg_path cfg))"
proof -
  let ?t = "\<lparr>inner = i, config = cfg, storage_of = std_fs_storage, wal_of = None\<rparr> :: ('i, 'ie) persisted"
  obtain w0 l where snap: "write_snapshot E ?t w = (Inr (), w0)"
    and wal: "wal_create (cfg_path cfg) (cfg_fsync_policy cfg) w0 = (Inr l :: ('ie, wal) result, w1)"
    using run cfg by (auto simp: open_with_def open_with_storage_def elim!: sbind_InrE)
  obtain v where "write_snapshot E ?t w = (Inr (), v)" and v: "\<forall>q. q \<noteq> cfg_path cfg \<longrightarrow> names v q = names w q"
    using write_snapshot_sure [of w ?t E bytes] world img by auto
  with snap have "names w0 (wal_path (cfg_path cfg)) = None" using absent by simp
  moreover have "fs_ok w0" using write_snapshot_cases [OF snap _ world(1)] by (auto simp: atomic_outcome_def)
  ultimately show "None \<in> set (old_names w1 (wal_path (cfg_path cfg)))" and "parent_exists w1 (wal_path (cfg_path cfg))"
    using wal_create_unsynced [OF _ wal] by blast+
qed

text \<open>
  C35. Acknowledged mutations can be lost with the log's directory entry.  A database is
  opened on unix where no log was, under a policy other than \<open>Never\<close>, and no call fails.
  \<open>open_with\<close> syncs the snapshot, the directory and the log it then creates, but not the
  directory again, and no mutation does.  So however many mutations were acknowledged, under
  \<open>Always\<close> each of them synced, there is a crash after which loading succeeds and gives the
  index of the snapshot, without any of them.
\<close>

theorem unsynced_log_entry_lost:
  fixes E :: "('i, 'm, 'ie) env"
  assumes clean: "refuses_cleanly (index E)"
    and cfg: "validate_config (codecs E) cfg = (Inr () :: ('ie, unit) result)" "wal_enabled cfg" "cfg_fsync_policy cfg \<noteq> Never"
    and img: "snapshot_image E \<lparr>inner = i, config = cfg, storage_of = std_fs_storage, wal_of = None\<rparr> = Inr bytes"
      "decode_snapshot E bytes = Inr i"
    and world: "fs_ok w" "calm w" "room (cfg_path cfg) w" "placed (cfg_path cfg)" "names w (wal_path (cfg_path cfg)) = None"
    and rs: "\<forall>r\<in>set rs. record_ok (metadata E) r" "accepts (index E) i rs j"
  shows "\<exists>db w1 this v u that v'. open_with E i cfg w = (Inr db, w1) \<and>
    perform_all E (map Mutation rs) (db, w1) = (Inr (), (this, v)) \<and> inner this = j \<and>
    crash v u \<and> load E cfg u = (Inr that, v') \<and> inner that = i"
proof -
  let ?p = "wal_path (cfg_path cfg)"
  obtain db w1 where op: "open_with E i cfg w = (Inr db, w1)" and w1: "calm w1"
    using open_with_sure [OF world(2-4) cfg(2,1) img(1)] by blast
  have unix: "cfg_unix w" using world(3) by (simp add: room_def)
  obtain bytes' where db: "inner db = i" "config db = cfg" and img': "snapshot_image E db = Inr bytes'"
    and dur: "durable w1 (cfg_path cfg) (Some bytes')" and step: "in_step E i [] (db, w1)"
    by (rule open_with_effect [OF world(1) unix cfg(2,3) op])
  have "bytes' = bytes"
    using img' img(1) snapshot_image_cong [of db "\<lparr>inner = i, config = cfg, storage_of = std_fs_storage, wal_of = None\<rparr>" E] db
    by simp
  note dur = dur [unfolded this]
  have acc: "accepts (index E) (inner db) rs j" using rs(2) db(1) by simp
  obtain this v where run: "perform_all E (map Mutation rs) (db, w1) = (Inr (), (this, v))"
    and v: "in_step E i rs (this, v)" "config this = cfg" "in_place w1 v" "old_names v = old_names w1"
      "durable v (cfg_path cfg) (Some bytes)"
    using mutations_logged [OF step w1 clean rs(1) acc] dur db(2) by auto
  note entry = open_with_unsynced [OF world(1-5) cfg(2) img(1) op]
  have "None \<in> set (old_names v ?p)" using entry(1) v(4) by simp
  moreover have "parent_exists v ?p" using entry(2) v(3) by (simp add: parent_exists_def in_place_def split: option.splits)
  ultimately obtain u that v' where "crash v u" "load E cfg u = (Inr that, v')" "inner that = i"
    using log_entry_forgotten [OF cfg(1,2) v(1,2,5) img(2)] by blast
  moreover have "inner this = j" using v(1) rs(2) accepts_fun [of "index E" i rs] by (simp add: in_step_def)
  ultimately show ?thesis using op run by blast
qed

theorem unsynced_log_entry_lost_witness:
  "\<exists>db w1 this v u that v'. open_with (mock_env :: (mock_index, bool list, unit) env) (mock_at 0) mock_wal_config
      (example_world []) = (Inr db, w1) \<and>
    perform_all mock_env (map Mutation [mock_row, mock_row]) (db, w1) = (Inr (), (this, v)) \<and> inner this = mock_at 2 \<and>
    crash v u \<and> load (mock_env :: (mock_index, bool list, unit) env) mock_wal_config u = (Inr that, v') \<and>
    inner that = mock_at 0"
proof -
  let ?E = "mock_env :: (mock_index, bool list, unit) env"
  have clean: "refuses_cleanly (index ?E)" using mock.refuses by (simp add: mock_env_def)
  let ?t = "\<lparr>inner = mock_at 0, config = mock_wal_config, storage_of = std_fs_storage, wal_of = None\<rparr>
    :: (mock_index, unit) persisted"
  have valid: "mock_wf U64_MAX (inner ?t)" by (simp add: mock_at_wf)
  have enc: "encode (codecs ?E) (cfg_compression (config ?t)) (mock_payload (inner ?t)) =
      (Inr (mock_payload (inner ?t)) :: (unit, bytes) result)" by (simp add: mock_wal_config_def)
  obtain bytes where img: "snapshot_image ?E ?t = Inr bytes"
    by (rule mock_snapshots.snapshot_image_Inr [OF valid enc])
  have "decode_snapshot ?E bytes = Inr (inner ?t)"
    by (rule mock_snapshots.decode_saved [OF valid _ img]) (simp add: mock_wal_config_def)
  then have dec: "decode_snapshot ?E bytes = Inr (mock_at 0)" by simp
  have path: "placed (cfg_path mock_wal_config)" using db_path_placed by simp
  have ok: "\<forall>r\<in>set [mock_row, mock_row]. record_ok (metadata ?E) r"
    using loggable_record_ok [OF mock_row_loggable] by (simp add: mock_env_def)
  have acc: "accepts (index ?E) (mock_at 0) [mock_row, mock_row] (mock_at 2)" by (simp add: numeral_2_eq_2)
  show ?thesis
    by (rule unsynced_log_entry_lost [OF clean _ _ _ img dec example_world_ok _ _ path _ ok acc])
      (use example_room in \<open>simp_all add: calm_def example_world_def\<close>)
qed

end
