(* ===== verification/Adversarial_Tests.thy ===== *)
theory Adversarial_Tests
  imports Wal_Recovery Damage Invariant_Tests Log_Sessions
begin

section \<open>The adversarial tests of \<open>tests/adversarial.rs\<close>\<close>

text \<open>
  A valid snapshot with every single byte flipped in turn, and cut at every length, is refused
  each time; a log cut at every length is recovered from each time.  The components of the test
  vectors, products of floats in the code, are a parameter, and so is the directory.  Three tests
  of the file are left out: the one that flips the bytes of a log, where a flipped length field
  may collide with a checksum, and the two that load pseudo-random bytes, which assert that
  nothing panics, and that garbage behind the real magic is refused as a snapshot.
\<close>

subsection \<open>The index\<close>

text \<open>
  The struct, \<open>insert\<close>, \<open>delete\<close> and \<open>save_to\<close> are those of the examples; \<open>load_from\<close> bounds
  the dimension and the number of rows first.
\<close>

definition bounded_load_from :: "nat \<Rightarrow> (reader, 'ie, vec_index) prog" where
  "bounded_load_from umax =
     sbind (read_io 8) (\<lambda>b8. let dim = as_usize umax (of_le b8) in
     if dim > 2 ^ 16 then sfail (InvalidPayload ''mock dim too large'')
     else
       sbind (read_io 8) (\<lambda>b8. let n = as_usize umax (of_le b8) in
       if n > 2 ^ 24 then sfail (InvalidPayload ''mock row count too large'')
       else
         sbind (read_rows dim n []) (\<lambda>rows.
         sret \<lparr>vec_dim = dim, vec_metric = Cosine, vec_rows = rows\<rparr>)))"

definition bounded_ops :: "nat \<Rightarrow> (vec_index, 'm, 'ie) index_ops" where
  "bounded_ops umax = \<lparr>ix_insert = vec_insert, ix_delete = vec_retain, ix_len = vec_len, ix_dim = vec_dim,
     ix_metric = vec_metric, INDEX_TYPE = ascii ''store'', save_to = cosine_save_to,
     load_from = bounded_load_from umax\<rparr>"

subsection \<open>The snapshot tests\<close>

fun insert_range :: "(nat \<Rightarrow> f32 list) \<Rightarrow> nat list \<Rightarrow> vec_index \<Rightarrow> ('ie, vec_index) test" where
  "insert_range row [] idx = sret idx"
| "insert_range row (i # is) idx =
     (let (r, idx) = vec_insert (U64 (of_nat i)) (row i) (None :: unit option) idx in
      sbind (unwrap (slift (map_iqdb r))) (\<lambda>_. insert_range row is idx))"

definition populated :: "(nat \<Rightarrow> nat \<Rightarrow> f32) \<Rightarrow> nat \<Rightarrow> nat \<Rightarrow> ('ie, vec_index) test" where
  "populated coord dim n =
     sbind (unwrap (slift (map_iqdb (vec_new dim Cosine)))) (\<lambda>idx.
     insert_range (\<lambda>i. map (coord i) [0..<dim]) [0..<n] idx)"

definition attempt :: "(world, 'ie, 'a) prog \<Rightarrow> ('ie, ('ie, 'a) result) test" where
  "attempt m w = (let (r, v) = m w in (Inr r, v))"

definition load_snapshot ::
  "(vec_index, 'm, 'ie) env \<Rightarrow> path \<Rightarrow> bytes \<Rightarrow> ('ie, ('ie, (vec_index, 'ie) persisted) result) test" where
  "load_snapshot E path bytes = sbind (test_write path bytes) (\<lambda>_. attempt (load E (config_new path)))"

definition is_err :: "'e + 'a \<Rightarrow> bool" where
  "is_err r = (case r of Inl _ \<Rightarrow> True | Inr _ \<Rightarrow> False)"

definition good_snapshot ::
  "(vec_index, 'm, 'ie) env \<Rightarrow> (nat \<Rightarrow> nat \<Rightarrow> f32) \<Rightarrow> path \<Rightarrow> ('ie, bytes) test" where
  "good_snapshot E coord good =
     sbind (populated coord 8 20) (\<lambda>idx.
     sbind (unwrap (open_with E idx (config_new good))) (\<lambda>db.
     sbind (unwrap (save E db)) (\<lambda>_. test_read good)))"

definition every_single_byte_flip_in_a_snapshot_is_rejected ::
  "(vec_index, 'm, 'ie) env \<Rightarrow> tempdir \<Rightarrow> (nat \<Rightarrow> nat \<Rightarrow> f32) \<Rightarrow> ('ie, unit) test" where
  "every_single_byte_flip_in_a_snapshot_is_rejected E tempdir coord =
     sbind (new_tempdir tempdir) (\<lambda>dir.
     sbind (good_snapshot E coord (path_join dir ''good.iqdb'')) (\<lambda>bytes.
     let probe = path_join dir ''probe.iqdb'' in
     sbind (load_snapshot E probe bytes) (\<lambda>r.
     sbind (assert_that (\<not> is_err r)) (\<lambda>_.
     for_test (\<lambda>i.
       sbind (load_snapshot E probe (bytes[i := bytes ! i XOR 0xFF])) (\<lambda>r. assert_that (is_err r)))
       [0..<length bytes]))))"

definition every_truncation_of_a_snapshot_is_rejected ::
  "(vec_index, 'm, 'ie) env \<Rightarrow> tempdir \<Rightarrow> (nat \<Rightarrow> nat \<Rightarrow> f32) \<Rightarrow> ('ie, unit) test" where
  "every_truncation_of_a_snapshot_is_rejected E tempdir coord =
     sbind (new_tempdir tempdir) (\<lambda>dir.
     sbind (good_snapshot E coord (path_join dir ''good.iqdb'')) (\<lambda>bytes.
     let probe = path_join dir ''probe.iqdb'' in
     sbind (for_test (\<lambda>t. sbind (load_snapshot E probe (take t bytes)) (\<lambda>r. assert_that (is_err r)))
       [0..<length bytes]) (\<lambda>_.
     sbind (load_snapshot E probe bytes) (\<lambda>r. assert_that (\<not> is_err r)))))"

subsection \<open>The log test\<close>

definition wal_cfg :: "path \<Rightarrow> persist_config" where
  "wal_cfg path = (config_new path)\<lparr>wal_enabled := True\<rparr>"

fun log_inserts ::
  "(vec_index, 'm, 'ie) env \<Rightarrow> (nat \<Rightarrow> f32) \<Rightarrow> nat list \<Rightarrow> (vec_index, 'ie) persisted \<times> world \<Rightarrow>
     ('ie persist_error option + unit) \<times> (vec_index, 'ie) persisted \<times> world" where
  "log_inserts E coord [] = sret ()"
| "log_inserts E coord (i # is) =
     sbind (smap_err Some (insert_vector E (U64 (of_nat i)) (replicate 4 (coord i)) None)) (\<lambda>_. log_inserts E coord is)"

definition build_wal ::
  "(vec_index, 'm, 'ie) env \<Rightarrow> (nat \<Rightarrow> f32) \<Rightarrow> path \<Rightarrow> nat \<Rightarrow> ('ie, path \<times> bytes) test" where
  "build_wal E coord dir n =
     (let path = path_join dir ''idx.iqdb'' in
      sbind (unwrap (slift (map_iqdb (vec_new 4 Cosine)))) (\<lambda>idx.
      sbind (unwrap (open_with E idx (wal_cfg path))) (\<lambda>db w.
        case log_inserts E coord [0..<n] (db, w) of
          (Inl e, (_, w)) \<Rightarrow> (Inl e, w)
        | (Inr _, (_, w)) \<Rightarrow> sbind (test_read (wal_path path)) (\<lambda>wal. sret (path, wal)) w)))"

definition every_truncation_of_a_wal_recovers_cleanly ::
  "(vec_index, 'm, 'ie) env \<Rightarrow> tempdir \<Rightarrow> (nat \<Rightarrow> f32) \<Rightarrow> ('ie, unit) test" where
  "every_truncation_of_a_wal_recovers_cleanly E tempdir coord =
     sbind (new_tempdir tempdir) (\<lambda>dir.
     sbind (build_wal E coord dir 12) (\<lambda>(path, wal).
     for_test (\<lambda>t.
       sbind (test_write (wal_path path) (take t wal)) (\<lambda>_.
       sbind (unwrap (load E (wal_cfg path))) (\<lambda>db.
       assert_that (vec_len (index_ref db) \<le> 12))))
       [0..<length wal + 1]))"

subsection \<open>The contract\<close>

definition bounded_wf :: "nat \<Rightarrow> vec_index \<Rightarrow> bool" where
  "bounded_wf umax i \<longleftrightarrow> cosine_wf umax i \<and> vec_dim i \<le> 2 ^ 16 \<and> length (vec_rows i) \<le> 2 ^ 24"

lemma bounded_loads:
  assumes "bounded_wf umax i" and "umax \<le> U64_MAX"
  shows "fst (bounded_load_from umax (cursor_new (cosine_payload i))) = Inr i"
    and "rrest (snd (bounded_load_from umax (cursor_new (cosine_payload i)) :: ('ie, vec_index) result \<times> _)) = []"
proof -
  have i: "cosine_wf umax i" "vec_dim i \<le> 2 ^ 16" "length (vec_rows i) \<le> 2 ^ 24"
    using assms(1) by (simp_all add: bounded_wf_def)
  show "fst (bounded_load_from umax (cursor_new (cosine_payload i))) = Inr i"
    and "rrest (snd (bounded_load_from umax (cursor_new (cosine_payload i)) :: ('ie, vec_index) result \<times> _)) = []"
    using i assms(2) cosine_rows_bound [OF i(1)]
    by (simp_all add: cosine_wf_def bounded_load_from_def sbind_def sret_def cosine_payload_def cursor_new_def read_io_ok
        read_rows_image [where ys = "[]", simplified] as_usize_of_nat Let_def del: to_le.simps)
qed

lemma steady_rows [steady_rules]: "steady (read_components k v)" "steady (read_rows dim n rows)"
proof -
  show one: "steady (read_components k v)" for k v
    by (induction k arbitrary: v) (auto intro!: steady_rules)
  show "steady (read_rows dim n rows)"
    by (induction n arbitrary: rows) (auto intro!: steady_rules one)
qed

lemma bounded_persistable:
  assumes "4096 \<le> umax" and "umax \<le> U64_MAX"
  shows "persistable (bounded_ops umax) (bounded_wf umax) cosine_payload umax"
proof
  fix i
  assume "bounded_wf umax i"
  then have "cosine_wf umax i" by (simp add: bounded_wf_def)
  then show "header_fits umax (bounded_ops umax) i \<and> length (cosine_payload i) \<le> umax"
    using assms cosine_rows_bound [of umax i]
    by (simp add: header_fits_def bounded_ops_def cosine_wf_def vec_len_def MAX_INDEX_TYPE_LEN_def ascii_def
        metric_tag_def)
qed (use assms in \<open>simp_all add: bounded_ops_def cosine_saves bounded_loads vec_insert_def vec_retain_def\<close>)

lemma bounded_delimited:
  assumes "4096 \<le> umax" and "umax \<le> U64_MAX"
  shows "delimited (bounded_ops umax) (bounded_wf umax) cosine_payload umax"
proof (rule delimited.intro [OF bounded_persistable [OF assms]], unfold_locales)
  show "steady (load_from (bounded_ops umax))"
    unfolding bounded_ops_def index_ops.simps bounded_load_from_def Let_def by (intro steady_rules)
  show "rrest (snd (load_from (bounded_ops umax) (cursor_new (cosine_payload i)))) = []" if "bounded_wf umax i" for i
    by (simp add: bounded_ops_def bounded_loads [OF that assms(2)])
qed

interpretation bounded: delimited "bounded_ops U64_MAX" "bounded_wf U64_MAX" cosine_payload U64_MAX
  by (rule bounded_delimited) (simp_all add: U64_MAX_def)


subsection \<open>The snapshot tests pass\<close>

definition bounded_env ::
  "nat \<Rightarrow> codec \<Rightarrow> (bytes \<Rightarrow> u32) \<Rightarrow> 'm metadata_ops \<Rightarrow> (vec_index, 'm, 'ie) env" where
  "bounded_env umax C crc M =
     \<lparr>host_umax = umax, codecs = C, crc_hash = crc, metadata = M, index = bounded_ops umax\<rparr>"

lemma bounded_env_simps [simp]:
  "index (bounded_env umax C crc M) = bounded_ops umax" "codecs (bounded_env umax C crc M) = C"
  "host_umax (bounded_env umax C crc M) = umax" "metadata (bounded_env umax C crc M) = M"
  "crc_hash (bounded_env umax C crc M) = crc"
  by (simp_all add: bounded_env_def)

lemma bounded_snapshots:
  assumes "4096 \<le> umax" and "umax \<le> U64_MAX" and "codec_ok C"
  shows "snapshots (bounded_env umax C crc M :: (vec_index, 'm, 'ie) env) (bounded_wf umax) cosine_payload"
  using bounded_persistable [OF assms(1,2)] assms(3) by (simp add: snapshots_def snapshots_axioms_def)

definition grid :: "(nat \<Rightarrow> nat \<Rightarrow> f32) \<Rightarrow> nat \<Rightarrow> nat \<Rightarrow> vec_index" where
  "grid coord dim n = \<lparr>vec_dim = dim, vec_metric = Cosine,
     vec_rows = map (\<lambda>i. (of_nat i, map (coord i) [0..<dim])) [0..<n]\<rparr>"

lemma insert_range_run:
  "insert_range row is idx w = (Inr (idx\<lparr>vec_rows := vec_rows idx @ map (\<lambda>i. (of_nat i, row i)) is\<rparr>), w)"
  by (induction "is" arbitrary: idx)
    (simp_all add: vec_insert_def Let_def sbind_def slift_def unwrap_def smap_err_def sret_def)

lemma populated_run: "populated coord dim n w = (Inr (grid coord dim n), w)"
  by (simp add: populated_def vec_new_def sbind_def slift_def unwrap_def smap_err_def insert_range_run grid_def)

lemma grid_size: "length (cosine_payload (grid coord dim n)) = 16 + n * (8 + 4 * dim)"
proof -
  have "length (concat (map (to_le 4 \<circ> f) xs)) = 4 * length xs" for f :: "nat \<Rightarrow> f32" and xs
    by (induction xs) (simp_all del: to_le.simps)
  then show ?thesis
    by (induction n) (simp_all add: cosine_payload_def grid_def rows_image_def row_image_def)
qed

lemma grid_wf: "16 + n * (8 + 4 * dim) \<le> 4096 \<Longrightarrow> dim \<le> 4096 \<Longrightarrow> n \<le> 4096 \<Longrightarrow> 4096 \<le> umax \<Longrightarrow> bounded_wf umax (grid coord dim n)"
  using grid_size [of coord dim n] by (auto simp: bounded_wf_def cosine_wf_def grid_def)

text \<open>\<open>load_snapshot\<close> is a test of \<open>decode_snapshot\<close>.\<close>

lemma load_snapshot_run:
  assumes "writable_file probe w"
  shows "\<exists>r v. load_snapshot E probe bs w = (Inr r, v) \<and> is_err r = is_err (decode_snapshot E bs) \<and> writable_file probe v"
proof -
  obtain v where wr: "test_write probe bs w = (Inr () :: 'a persist_error option + unit, v)"
    and v: "writable_file probe v" "content v probe = Some bs"
    using test_write_run [OF assms, of bs] by blast
  then have calm: "calm v" "fs_ok v" by (simp_all add: writable_file_def)
  show ?thesis
  proof (cases "decode_snapshot E bs")
    case (Inl e)
    from load_calm_refused [OF calm v(2) this] show ?thesis
      using wr v(1) by (simp add: load_snapshot_def sbind_def attempt_def Inl is_err_def)
  next
    case (Inr i)
    from load_calm_snapshot [OF calm v(2) this] show ?thesis
      using wr v(1) by (simp add: load_snapshot_def sbind_def attempt_def Inr is_err_def)
  qed
qed

lemma probe_all:
  assumes "\<forall>i\<in>set is. is_err (decode_snapshot E (damage i))" and "writable_file probe w"
  shows "\<exists>v. for_test (\<lambda>i. sbind (load_snapshot E probe (damage i)) (\<lambda>r. assert_that (is_err r))) is w = (Inr (), v) \<and>
    writable_file probe v"
proof (rule for_test_passes [where good = "writable_file probe", OF _ assms(2)])
  fix i u
  assume i: "i \<in> set is" and u: "writable_file probe u"
  obtain r v where "load_snapshot E probe (damage i) u = (Inr r, v)" "is_err r = is_err (decode_snapshot E (damage i))"
      "writable_file probe v"
    using load_snapshot_run [OF u] by blast
  then show "\<exists>v. sbind (load_snapshot E probe (damage i)) (\<lambda>r. assert_that (is_err r)) u = (Inr (), v) \<and> writable_file probe v"
    using assms(1) i by (simp add: sbind_def sret_def)
qed

lemma good_snapshot_run:
  fixes M :: "'m metadata_ops"
  assumes host: "4096 \<le> umax" "umax \<le> U64_MAX" and C: "codec_ok C"
    and tempdir: "tempdir_ok tempdir ''good.iqdb''" "tempdir_ok tempdir ''probe.iqdb''" and world: "fs_ok w" "calm w"
  obtains dir w1 bytes v where "new_tempdir tempdir w = (Inr dir :: 'ie persist_error option + path, w1)"
    and "good_snapshot (bounded_env umax C crc M :: (vec_index, 'm, 'ie) env) coord (path_join dir ''good.iqdb'') w1 = (Inr bytes, v)"
    and "writable_file (path_join dir ''probe.iqdb'') v"
    and "decode_snapshot (bounded_env umax C crc M :: (vec_index, 'm, 'ie) env) bytes = Inr (grid coord 8 20)"
    and "\<forall>k<length bytes. is_err (decode_snapshot (bounded_env umax C crc M :: (vec_index, 'm, 'ie) env) (take k bytes))"
proof -
  let ?E = "bounded_env umax C crc M :: (vec_index, 'm, 'ie) env" and ?i = "grid coord 8 20"
  note snap = bounded_snapshots [OF host C, where crc = crc and M = M and 'ie = 'ie]
  have valid: "bounded_wf umax ?i" using host(1) by (intro grid_wf) simp_all
  obtain dir w1 where dir: "tempdir w = (Inr dir, w1)" and w1: "fs_ok w1" "calm w1"
      "room (path_join dir ''good.iqdb'') w1" "placed (path_join dir ''good.iqdb'')"
    using tempdir(1) world unfolding tempdir_ok_def by blast
  have probe: "\<not> dirs w1 (path_join dir ''probe.iqdb'')" "parent_exists w1 (path_join dir ''probe.iqdb'')"
    using tempdir(2) world dir unfolding tempdir_ok_def room_def by fastforce+
  let ?good = "path_join dir ''good.iqdb''"
  let ?t = "\<lparr>inner = ?i, config = config_new ?good, storage_of = std_fs_storage, wal_of = None\<rparr> :: (vec_index, 'ie) persisted"
  obtain bytes v where run: "open_with ?E ?i (config_new ?good) w1 = (Inr ?t, w1)" "save ?E ?t w1 = (Inr (), v)"
    and dec: "decode_snapshot ?E bytes = Inr ?i" and v: "calm v" "fs_ok v" "content v ?good = Some bytes" "dirs v = dirs w1"
    and img: "snapshot_image ?E ?t = Inr bytes"
    by (rule saved_under [OF snap valid, where cfg = "config_new ?good" and packed = "cosine_payload ?i" and w = w1,
          unfolded config_new_simps])
      (use w1 in \<open>auto simp: too_dense_def\<close>)
  have "is_err (decode_snapshot ?E (take k bytes))" if "k < length bytes" for k
  proof -
    have "\<exists>e. decode_snapshot ?E (take k bytes) = Inl e"
      by (rule cut_snapshot_refused [OF snap _ _ _ img that]) (simp_all add: bounded_delimited [OF host] valid)
    then show ?thesis by (auto simp: is_err_def)
  qed
  moreover have "writable_file (path_join dir ''probe.iqdb'') v"
    using v probe by (simp add: writable_file_def parent_exists_def)
  moreover have "good_snapshot ?E coord ?good w1 = (Inr bytes, v)"
    using run by (simp add: good_snapshot_def sbind_def populated_run test_read_calm [OF v(1-3)])
  moreover have "new_tempdir tempdir w = (Inr dir :: 'ie persist_error option + path, w1)"
    by (simp add: new_tempdir_def smap_err_def dir)
  ultimately show thesis using dec that by blast
qed


lemma flips_pass:
  fixes M :: "'m metadata_ops"
  assumes host: "4096 \<le> umax" "umax \<le> U64_MAX" and C: "codec_ok C" and crc: "crc_detects crc"
    and tempdir: "tempdir_ok tempdir ''good.iqdb''" "tempdir_ok tempdir ''probe.iqdb''" and world: "fs_ok w" "calm w"
  shows "passes (every_single_byte_flip_in_a_snapshot_is_rejected
    (bounded_env umax C crc M :: (vec_index, 'm, 'ie) env) tempdir coord) w"
proof -
  let ?E = "bounded_env umax C crc M :: (vec_index, 'm, 'ie) env"
  obtain dir w1 bytes v where start: "new_tempdir tempdir w = (Inr dir :: 'ie persist_error option + path, w1)"
      "good_snapshot ?E coord (path_join dir ''good.iqdb'') w1 = (Inr bytes, v)" "writable_file (path_join dir ''probe.iqdb'') v"
    and dec: "decode_snapshot ?E bytes = Inr (grid coord 8 20)"
    by (rule good_snapshot_run [OF host C tempdir world, where crc = crc and M = M and coord = coord and 'ie = 'ie])
  obtain r u where good: "load_snapshot ?E (path_join dir ''probe.iqdb'') bytes v = (Inr r, u)" "\<not> is_err r"
      "writable_file (path_join dir ''probe.iqdb'') u"
    using load_snapshot_run [OF start(3), of ?E bytes] dec by (auto simp: is_err_def)
  have "is_err (decode_snapshot ?E (bytes[i := bytes ! i XOR 0xFF]))" if "i < length bytes" for i
    using flipped_byte_refused [of ?E bytes "grid coord 8 20" i] dec crc that by (auto simp: is_err_def)
  then have "\<forall>i\<in>set [0..<length bytes]. is_err (decode_snapshot ?E (bytes[i := bytes ! i XOR 0xFF]))" by simp
  from probe_all [where damage = "\<lambda>i. bytes[i := bytes ! i XOR 0xFF]", OF this good(3)] start(1,2) good(1,2) show ?thesis
    by (auto simp: passes_def every_single_byte_flip_in_a_snapshot_is_rejected_def sbind_def Let_def)
qed

lemma cuts_pass:
  fixes M :: "'m metadata_ops"
  assumes host: "4096 \<le> umax" "umax \<le> U64_MAX" and C: "codec_ok C"
    and tempdir: "tempdir_ok tempdir ''good.iqdb''" "tempdir_ok tempdir ''probe.iqdb''" and world: "fs_ok w" "calm w"
  shows "passes (every_truncation_of_a_snapshot_is_rejected
    (bounded_env umax C crc M :: (vec_index, 'm, 'ie) env) tempdir coord) w"
proof -
  let ?E = "bounded_env umax C crc M :: (vec_index, 'm, 'ie) env"
  obtain dir w1 bytes v where start: "new_tempdir tempdir w = (Inr dir :: 'ie persist_error option + path, w1)"
      "good_snapshot ?E coord (path_join dir ''good.iqdb'') w1 = (Inr bytes, v)" "writable_file (path_join dir ''probe.iqdb'') v"
    and dec: "decode_snapshot ?E bytes = Inr (grid coord 8 20)"
    and cut: "\<forall>k<length bytes. is_err (decode_snapshot ?E (take k bytes))"
    by (rule good_snapshot_run [OF host C tempdir world, where crc = crc and M = M and coord = coord and 'ie = 'ie])
  have "\<forall>i\<in>set [0..<length bytes]. is_err (decode_snapshot ?E (take i bytes))" using cut by simp
  from probe_all [where damage = "\<lambda>i. take i bytes", OF this start(3)] obtain u where all: "for_test (\<lambda>i. sbind (load_snapshot ?E (path_join dir ''probe.iqdb'')
        (take i bytes)) (\<lambda>r. assert_that (is_err r))) [0..<length bytes] v = (Inr (), u)"
    and u: "writable_file (path_join dir ''probe.iqdb'') u" by blast
  obtain r u' where good: "load_snapshot ?E (path_join dir ''probe.iqdb'') bytes u = (Inr r, u')" "\<not> is_err r"
    using load_snapshot_run [OF u, of ?E bytes] dec by (auto simp: is_err_def)
  show ?thesis
    using start(1,2) all good
    by (simp add: passes_def every_truncation_of_a_snapshot_is_rejected_def sbind_def Let_def sret_def)
qed

subsection \<open>The log test passes\<close>

definition line :: "(nat \<Rightarrow> f32) \<Rightarrow> nat \<Rightarrow> 'm wal_record" where
  "line coord i = Insert (U64 (of_nat i)) (replicate 4 (coord i)) None"

definition lines :: "(nat \<Rightarrow> f32) \<Rightarrow> nat list \<Rightarrow> vec_index" where
  "lines coord is = \<lparr>vec_dim = 4, vec_metric = Cosine, vec_rows = map (\<lambda>i. (of_nat i, replicate 4 (coord i))) is\<rparr>"

lemma mutate_line: "mutate E (line coord i) = insert_vector E (U64 (of_nat i)) (replicate 4 (coord i)) None"
  by (simp add: mutate_def line_def)

lemma log_inserts_run:
  "perform_all E (map Mutation (map (line coord) is)) s = (Inr (), s') \<Longrightarrow> log_inserts E coord is s = (Inr (), s')"
proof (induction "is" arbitrary: s)
  case (Cons i js)
  from Cons.prems obtain s1 where "insert_vector E (U64 (of_nat i)) (replicate 4 (coord i)) None s = (Inr (), s1)"
      and "perform_all E (map Mutation (map (line coord) js)) s1 = (Inr (), s')"
    by (auto simp: sbind_Inr_iff mutate_line)
  with Cons.IH show ?case by (simp add: sbind_def smap_err_def)
qed simp

lemma lines_accepted:
  "accepts (bounded_ops umax) (lines coord is) (map (line coord) js) j \<longleftrightarrow> j = lines coord (is @ js)"
proof (induction js arbitrary: "is")
  case (Cons i js)
  have "vec_insert (U64 (of_nat i)) (replicate 4 (coord i)) (None :: 'a option) (lines coord is) =
      (Inr () :: 'b + unit, lines coord (is @ [i]))" by (simp add: vec_insert_def lines_def)
  moreover have "vec_dim (lines coord is) = 4" by (simp add: lines_def)
  ultimately show ?case using Cons [of "is @ [i]"] by (simp add: line_def bounded_ops_def)
qed auto

lemma lines_readable:
  assumes "metadata_ok M" and "MAX_RECORD_LEN \<le> umax" and "length is \<le> 12"
  shows "readable (bounded_env umax C crc M) (map (line coord) is)"
proof -
  have size: "length (record_image M (line coord i)) = 31" for i
    by (simp add: line_def length_components4 del: map_replicate)
  have "length (record_frames crc M (map (line coord) is)) = 39 * length is" by (induction "is") (simp_all add: size)
  then show ?thesis
    using assms by (auto simp: readable_def loggable_def size wal_log_def MAX_RECORD_LEN_def)
qed

lemma wal_cfg_simps [simp]:
  "cfg_path (wal_cfg p) = p" "wal_enabled (wal_cfg p)" "cfg_fsync_policy (wal_cfg p) = Always"
  "cfg_compression (wal_cfg p) = NoCompression" "validate_config C (wal_cfg p) = Inr ()"
  by (simp_all add: wal_cfg_def config_new_def validate_config_def)

lemma build_wal_run:
  fixes M :: "'m metadata_ops"
  assumes host: "MAX_RECORD_LEN \<le> umax" "umax \<le> U64_MAX" and C: "codec_ok C" and M: "metadata_ok M"
    and world: "fs_ok w" "calm w" "room (path_join dir ''idx.iqdb'') w" "placed (path_join dir ''idx.iqdb'')"
  obtains bytes v where "build_wal (bounded_env umax C crc M :: (vec_index, 'm, 'ie) env) coord dir 12 w =
      (Inr (path_join dir ''idx.iqdb'', wal_log crc M (map (line coord) [0..<12])), v)"
    and "writable_file (wal_path (path_join dir ''idx.iqdb'')) v" and "content v (path_join dir ''idx.iqdb'') = Some bytes"
    and "decode_snapshot (bounded_env umax C crc M :: (vec_index, 'm, 'ie) env) bytes = Inr (lines coord [])"
proof -
  let ?E = "bounded_env umax C crc M :: (vec_index, 'm, 'ie) env" and ?p = "path_join dir ''idx.iqdb''"
  let ?i = "lines coord []" and ?rs = "map (line coord) [0..<12] :: 'm wal_record list"
  let ?t = "\<lparr>inner = ?i, config = wal_cfg ?p, storage_of = std_fs_storage, wal_of = None\<rparr> :: (vec_index, 'ie) persisted"
  have big: "4096 \<le> umax" using host(1) by (simp add: MAX_RECORD_LEN_def)
  note snap = bounded_snapshots [OF big host(2) C, where crc = crc and M = M and 'ie = 'ie]
  have valid: "bounded_wf umax ?i"
    using big by (simp add: bounded_wf_def cosine_wf_def lines_def cosine_payload_def rows_image_def)
  have "readable ?E ?rs" by (rule lines_readable [OF M host(1)]) simp
  then have recs: "\<forall>r\<in>set ?rs. record_ok (metadata ?E) r" by (simp add: readable_def loggable_record_ok)
  have acc: "accepts (index ?E) ?i ?rs (lines coord [0..<12])" by (simp add: lines_accepted del: upt_rec_numeral)
  obtain db w1 this v bytes where op: "open_with ?E ?i (wal_cfg ?p) w = (Inr db, w1)"
    and run: "perform_all ?E (map Mutation ?rs) (db, w1) = (Inr (), (this, v))" and v: "calm v" "fs_ok v" "room ?p v"
    and files: "content v ?p = Some bytes" "decode_snapshot ?E bytes = Inr ?i" "content v (wal_path ?p) = Some (wal_log crc M ?rs)"
    by (rule opened_logged [OF snap valid, of "wal_cfg ?p" w ?rs, unfolded wal_cfg_simps bounded_env_simps])
      (use world recs acc in auto)
  have "writable_file (wal_path ?p) v"
    using v placed_parent(2) [OF world(4)] by (simp add: writable_file_def room_def parent_exists_def)
  moreover have "build_wal ?E coord dir 12 w = (Inr (?p, wal_log crc M ?rs), v)"
    using op log_inserts_run [OF run]
    by (simp add: test_read_calm [OF v(1,2) files(3)] build_wal_def Let_def vec_new_def sbind_def slift_def lines_def sret_def
        del: upt_rec_numeral)
  ultimately show thesis using that files by blast
qed

lemma wal_cuts_pass:
  fixes M :: "'m metadata_ops"
  assumes host: "MAX_RECORD_LEN \<le> umax" "umax \<le> U64_MAX" and C: "codec_ok C" and M: "metadata_ok M"
    and tempdir: "tempdir_ok tempdir ''idx.iqdb''" and world: "fs_ok w" "calm w"
  shows "passes (every_truncation_of_a_wal_recovers_cleanly
    (bounded_env umax C crc M :: (vec_index, 'm, 'ie) env) tempdir coord) w"
proof -
  let ?E = "bounded_env umax C crc M :: (vec_index, 'm, 'ie) env"
  let ?rs = "map (line coord) [0..<12] :: 'm wal_record list"
  obtain dir w1 where dir: "tempdir w = (Inr dir, w1)" and w1: "fs_ok w1" "calm w1"
      "room (path_join dir ''idx.iqdb'') w1" "placed (path_join dir ''idx.iqdb'')"
    using tempdir world unfolding tempdir_ok_def by blast
  let ?p = "path_join dir ''idx.iqdb''" and ?wal = "wal_log crc M ?rs"
  obtain bytes v where build: "build_wal ?E coord dir 12 w1 = (Inr (?p, ?wal), v)"
    and v: "writable_file (wal_path ?p) v" "content v ?p = Some bytes"
    and dec: "decode_snapshot ?E bytes = Inr (lines coord [])"
    by (rule build_wal_run [OF host C M w1, where crc = crc and coord = coord and 'ie = 'ie])
  have read: "readable ?E ?rs" by (rule lines_readable [OF M host(1)]) simp
  have parse: "\<exists>n. parse_records umax crc M (take t ?wal) = (Inr (take n ?rs) :: ('ie, 'm wal_record list) result)" for t
    using parse_truncated [of ?rs M umax crc t] whole_frames_prefix [of M "t - 12" ?rs] read by (auto simp: readable_def)
  have step: "\<exists>v. sbind (test_write (wal_path ?p) (take t ?wal)) (\<lambda>_.
        sbind (unwrap (load ?E (wal_cfg ?p))) (\<lambda>db. assert_that (vec_len (index_ref db) \<le> 12))) u = (Inr (), v) \<and>
      writable_file (wal_path ?p) v \<and> content v ?p = Some bytes"
    if u: "writable_file (wal_path ?p) u \<and> content u ?p = Some bytes" for t u
  proof -
    obtain x where wr: "test_write (wal_path ?p) (take t ?wal) u = (Inr () :: 'ie persist_error option + unit, x)"
      and x: "writable_file (wal_path ?p) x" "content x (wal_path ?p) = Some (take t ?wal)" "content x ?p = Some bytes"
      using test_write_run [OF conjunct1 [OF u], of "take t ?wal", where 'ie = 'ie] u not_sym [OF wal_path_neq [of ?p]] by auto
    obtain n where n: "parse_records umax crc M (take t ?wal) = (Inr (take n ?rs) :: ('ie, 'm wal_record list) result)"
      using parse [of t] by blast
    have "take n ?rs = map (line coord) (take n [0..<12])" by (simp add: take_map)
    moreover have "accepts (bounded_ops umax :: (vec_index, 'm, 'ie) index_ops) (lines coord []) (map (line coord) (take n [0..<12]))
        (lines coord (take n [0..<12]))" by (simp add: lines_accepted)
    ultimately have "replay_loop (bounded_ops umax :: (vec_index, 'm, 'ie) index_ops) (take n ?rs) 0 (lines coord []) =
        (Inr (length (take n ?rs)), lines coord (take n [0..<12]))"
      by (simp add: replay_loop_accepts)
    then have "load ?E (wal_cfg ?p) x = (Inr (loaded (wal_cfg ?p) (lines coord (take n [0..<12])) x), x)"
      using load_calm [of x ?E "wal_cfg ?p" bytes "lines coord []" "take t ?wal"] x dec n by (simp add: writable_file_def)
    moreover have "length (vec_rows (lines coord (take n [0..<12]))) \<le> 12" by (simp add: lines_def)
    ultimately show ?thesis
      using wr x by (simp add: sbind_def index_ref_def vec_len_def sret_def)
  qed
  have "\<exists>v'. for_test (\<lambda>t. sbind (test_write (wal_path ?p) (take t ?wal)) (\<lambda>_.
        sbind (unwrap (load ?E (wal_cfg ?p))) (\<lambda>db. assert_that (vec_len (index_ref db) \<le> 12))))
      [0..<length ?wal + 1] v = (Inr (), v') \<and> writable_file (wal_path ?p) v' \<and> content v' ?p = Some bytes"
    by (rule for_test_passes [where good = "\<lambda>u. writable_file (wal_path ?p) u \<and> content u ?p = Some bytes"])
      (use step v in blast)+
  moreover have "new_tempdir tempdir w = (Inr dir :: 'ie persist_error option + path, w1)"
    by (simp add: new_tempdir_def smap_err_def dir)
  ultimately show ?thesis
    using build
    by (auto simp: passes_def every_truncation_of_a_wal_recovers_cleanly_def sbind_def simp del: upt_Suc upt_rec_numeral)
qed


text \<open>
  C31. Damaged files never load as if nothing had happened.  Three of the adversarial tests pass, for
  any components, host, codecs, metadata and directory, when no call fails: a snapshot with any
  one byte flipped, or cut at any length, is refused, and a log cut at any length is recovered
  from, with at most the mutations that were logged.
\<close>

theorem adversarial_tests_pass:
  fixes M :: "'m metadata_ops"
  assumes host: "MAX_RECORD_LEN \<le> umax" "umax \<le> U64_MAX" and C: "codec_ok C" and crc: "crc_detects crc" and M: "metadata_ok M"
    and tempdir: "tempdir_ok tempdir ''good.iqdb''" "tempdir_ok tempdir ''probe.iqdb''" "tempdir_ok tempdir ''idx.iqdb''"
    and world: "fs_ok w" "calm w"
  shows "passes (every_single_byte_flip_in_a_snapshot_is_rejected
      (bounded_env umax C crc M :: (vec_index, 'm, 'ie) env) tempdir coord) w \<and>
    passes (every_truncation_of_a_snapshot_is_rejected
      (bounded_env umax C crc M :: (vec_index, 'm, 'ie) env) tempdir coord) w \<and>
    passes (every_truncation_of_a_wal_recovers_cleanly
      (bounded_env umax C crc M :: (vec_index, 'm, 'ie) env) tempdir (\<lambda>i. coord i 0)) w"
proof -
  have big: "4096 \<le> umax" using host(1) by (simp add: MAX_RECORD_LEN_def)
  show ?thesis
    using flips_pass [OF big host(2) C crc tempdir(1,2) world] cuts_pass [OF big host(2) C tempdir(1,2) world]
      wal_cuts_pass [OF host C M tempdir(3) world] by blast
qed

theorem adversarial_tests_pass_witness:
  "passes (every_single_byte_flip_in_a_snapshot_is_rejected
      (bounded_env U64_MAX stored_codec crc32_ieee flag_ops :: (vec_index, bool list, unit) env) empty_disk (\<lambda>i d. of_nat (i + d)))
      (example_world []) \<and>
    passes (every_truncation_of_a_wal_recovers_cleanly
      (bounded_env U64_MAX stored_codec crc32_ieee flag_ops :: (vec_index, bool list, unit) env) empty_disk of_nat) (example_world [])"
proof -
  have host: "MAX_RECORD_LEN \<le> U64_MAX" by (simp add: MAX_RECORD_LEN_def U64_MAX_def)
  have dirs: "tempdir_ok empty_disk ''good.iqdb''" "tempdir_ok empty_disk ''probe.iqdb''" "tempdir_ok empty_disk ''idx.iqdb''"
    by (simp_all add: empty_disk_ok)
  have calm: "calm (example_world [])" by (simp add: calm_def example_world_def)
  from adversarial_tests_pass [OF host order_refl stored_codec_ok ieee.crc_detects_axioms flag_ops_ok dirs example_world_ok calm,
      where coord = "\<lambda>i d. of_nat (i + d)" and 'ie = unit]
  show ?thesis by simp
qed

end
