(* ===== verification/Header_Tests.thy ===== *)
theory Header_Tests
  imports Format
begin

section \<open>The tests of the header (\<open>tests/header_roundtrip.rs\<close>)\<close>

text \<open>
  The property test on random headers and the five tests on broken ones, as programs that
  return whether their assertions hold; an \<open>unwrap\<close> on an error is the error of the test.
  What a strategy draws is a predicate.
\<close>

definition metric_strategy :: "distance_metric \<Rightarrow> bool" where
  "metric_strategy m \<longleftrightarrow> m \<in> set [Cosine, DotProduct, Euclidean, Manhattan, Hamming]"

definition index_type_char :: "byte \<Rightarrow> bool" where
  "index_type_char c \<longleftrightarrow>
     (0x61 \<le> c \<and> c \<le> 0x7A) \<or> (0x30 \<le> c \<and> c \<le> 0x39) \<or> c = 0x5F \<or> c = 0x2D"

definition index_type_strategy :: "bytes \<Rightarrow> bool" where
  "index_type_strategy s \<longleftrightarrow> 1 \<le> length s \<and> length s \<le> 16 \<and> list_all index_type_char s"

definition header_drawn :: "bytes \<Rightarrow> nat \<Rightarrow> distance_metric \<Rightarrow> nat \<Rightarrow> bool" where
  "header_drawn index_type dim metric n_vectors \<longleftrightarrow>
     index_type_strategy index_type \<and> 1 \<le> dim \<and> dim \<le> 16384 \<and> metric_strategy metric \<and>
     n_vectors \<le> 2 ^ 20"

definition drawn_header :: "bytes \<Rightarrow> nat \<Rightarrow> distance_metric \<Rightarrow> nat \<Rightarrow> u32 \<Rightarrow> file_header" where
  "drawn_header index_type dim metric n_vectors crc32 =
     \<lparr>fh_magic = MAGIC, fh_version = CURRENT_VERSION, fh_index_type = index_type, fh_dim = dim,
      fh_metric = metric, fh_n_vectors = n_vectors, fh_crc32 = crc32\<rparr>"

definition header_roundtrip :: "nat \<Rightarrow> bytes \<Rightarrow> nat \<Rightarrow> distance_metric \<Rightarrow> nat \<Rightarrow> u32 \<Rightarrow> ('ie, bool) result" where
  "header_roundtrip umax index_type dim metric n_vectors crc32 =
     (let header = drawn_header index_type dim metric n_vectors crc32;
          (written, buf) = write_header header (vec_writer []) in
      rbind written (\<lambda>_.
      rbind (fst (read_header umax (cursor_new (wbuf buf)))) (\<lambda>parsed.
      Inr (parsed = header))))"

definition bad_magic_surfaces :: "nat \<Rightarrow> 'ie itself \<Rightarrow> bool" where
  "bad_magic_surfaces umax T =
     (let buf = ascii ''NOTAFILE'' @ to_le 4 (1 :: u32) in
      case fst (read_header umax (cursor_new buf)) :: ('ie, file_header) result of
        Inl (BadMagic found) \<Rightarrow> True | _ \<Rightarrow> False)"

definition wrong_version_surfaces :: "nat \<Rightarrow> 'ie itself \<Rightarrow> bool" where
  "wrong_version_surfaces umax T =
     (let buf = MAGIC @ to_le 4 (999 :: u32) in
      case fst (read_header umax (cursor_new buf)) :: ('ie, file_header) result of
        Inl (UnsupportedVersion found supported) \<Rightarrow> found = 999 \<and> supported = 2 | _ \<Rightarrow> False)"

definition truncated_after_magic_surfaces :: "nat \<Rightarrow> 'ie itself \<Rightarrow> bool" where
  "truncated_after_magic_surfaces umax T =
     (case fst (read_header umax (cursor_new MAGIC)) :: ('ie, file_header) result of
        Inl (TruncatedHeader needed found) \<Rightarrow> True | _ \<Rightarrow> False)"

definition truncated_in_index_type_surfaces :: "nat \<Rightarrow> 'ie itself \<Rightarrow> bool" where
  "truncated_in_index_type_surfaces umax T =
     (let buf = MAGIC @ to_le 4 CURRENT_VERSION @ to_le 8 (100 :: u64) @ ascii ''hello'' in
      case fst (read_header umax (cursor_new buf)) :: ('ie, file_header) result of
        Inl (TruncatedHeader needed found) \<Rightarrow> True | _ \<Rightarrow> False)"

definition invalid_metric_tag_surfaces :: "nat \<Rightarrow> 'ie itself \<Rightarrow> bool" where
  "invalid_metric_tag_surfaces umax T =
     (let tag = ascii ''flat'';
          buf = MAGIC @ to_le 4 CURRENT_VERSION @ to_le 8 (of_nat (length tag) :: u64) @ tag @
            to_le 8 (8 :: u64) @ [99] @ to_le 8 (3 :: u64) @ to_le 4 (0 :: u32) in
      case fst (read_header umax (cursor_new buf)) :: ('ie, file_header) result of
        Inl (InvalidMetric t) \<Rightarrow> t = 99 | _ \<Rightarrow> False)"

subsection \<open>They pass\<close>

lemma metric_strategy_tag: "metric_strategy m \<Longrightarrow> \<exists>tag. metric_tag m = Some tag"
  by (auto simp: metric_strategy_def metric_tag_def)

lemma index_type_char_ascii: "index_type_char c \<Longrightarrow> c < 0x80"
  by (auto simp: index_type_char_def word_less_nat_alt word_le_nat_alt)

lemma index_type_utf8: "list_all index_type_char s \<Longrightarrow> utf8_valid s"
  by (induction s) (auto dest: index_type_char_ascii)

text \<open>A drawn header is acceptable on every host of at least 32 bits.\<close>

lemma drawn_header_ok:
  assumes "header_drawn it dim m n" and "2 ^ 20 \<le> umax"
  shows "header_ok umax (drawn_header it dim m n crc)"
proof -
  obtain tag where "metric_tag m = Some tag"
    using assms(1) metric_strategy_tag by (auto simp: header_drawn_def)
  then have "writable (drawn_header it dim m n crc) tag"
    using assms(1) by (auto simp: writable_def drawn_header_def header_drawn_def index_type_strategy_def U64_MAX_def)
  moreover have "utf8_valid it" "length it \<le> 16"
    using assms(1) index_type_utf8 by (auto simp: header_drawn_def index_type_strategy_def)
  ultimately show ?thesis
    using assms by (auto simp: header_ok_def drawn_header_def header_drawn_def MIN_SUPPORTED_VERSION_def
        CURRENT_VERSION_def MAX_INDEX_TYPE_LEN_def)
qed

text \<open>
  The property test of the header holds on every input it draws: for any index type, dimension,
  metric, count and checksum of its strategies, writing succeeds, reading succeeds, and the header
  read equals the header written.
\<close>

theorem header_roundtrip_holds:
  assumes "header_drawn it dim m n" and "2 ^ 20 \<le> umax"
  shows "header_roundtrip umax it dim m n crc = (Inr True :: ('ie, bool) result)"
proof -
  have ok: "header_ok umax (drawn_header it dim m n crc)" by (rule drawn_header_ok [OF assms])
  then obtain tag where tag: "writable (drawn_header it dim m n crc) tag" using header_ok_writable by blast
  show ?thesis
    by (simp add: header_roundtrip_def Let_def write_header_image [OF tag] cursor_new_def)
      (simp add: vec_writer_def read_header_image [OF ok tag, of "[]", simplified])
qed

theorem header_roundtrip_holds_witness:
  "header_roundtrip U32_MAX (ascii ''ivf_flat-2'') 16384 Hamming (2 ^ 20) 0xFFFFFFFF = (Inr True :: (unit, bool) result)"
  by (rule header_roundtrip_holds)
    (simp_all add: header_drawn_def index_type_strategy_def index_type_char_def metric_strategy_def ascii_def U32_MAX_def)

lemma bad_magic_surfaces_holds: "bad_magic_surfaces umax TYPE('ie)"
  by (simp add: bad_magic_surfaces_def read_header_def sbind_def cursor_new_def read_exact_or_truncated_def
      smap_err_def read_exact_def ascii_def MAGIC_def)

lemma wrong_version_surfaces_holds: "wrong_version_surfaces umax TYPE('ie)"
  by (simp add: wrong_version_surfaces_def read_header_def sbind_def cursor_new_def read_exact_ok
      read_exact_ok [where ys = "[]", simplified] MIN_SUPPORTED_VERSION_def CURRENT_VERSION_def Let_def
      del: to_le.simps)

lemma truncated_after_magic_holds: "truncated_after_magic_surfaces umax TYPE('ie)"
  by (simp add: truncated_after_magic_surfaces_def read_header_def sbind_def cursor_new_def
      read_exact_ok [where ys = "[]", simplified] read_exact_short)

lemma truncated_in_index_type_holds:
  assumes "100 \<le> umax"
  shows "truncated_in_index_type_surfaces umax TYPE('ie)"
  using assms
  by (simp add: truncated_in_index_type_surfaces_def read_header_def sbind_def cursor_new_def read_exact_ok
      read_exact_short MIN_SUPPORTED_VERSION_def CURRENT_VERSION_def MAX_INDEX_TYPE_LEN_def
      u64_to_usize_def usize_try_from_def Let_def del: to_le.simps)

lemma invalid_metric_tag_holds:
  assumes "8 \<le> umax"
  shows "invalid_metric_tag_surfaces umax TYPE('ie)"
proof -
  have "utf8_valid (ascii ''flat'')" by (simp add: ascii_def)
  then show ?thesis
    using assms
    by (simp add: invalid_metric_tag_surfaces_def read_header_def sbind_def cursor_new_def read_exact_ok
        read_exact_one MIN_SUPPORTED_VERSION_def CURRENT_VERSION_def MAX_INDEX_TYPE_LEN_def
        u64_to_usize_def usize_try_from_def Let_def utf8_valid_from_utf8 tag_to_metric_def del: to_le.simps)
qed

end
