(* ===== verification/Packed_Tests.thy ===== *)
theory Packed_Tests
  imports Adversarial_Tests
begin

section \<open>The tests of compressed snapshots (\<open>tests/compression.rs\<close>)\<close>

text \<open>
  A populated index saved and loaded under each codec, a flipped bit in a compressed region, and
  a file of format version 1 built by hand.  The codecs stay a parameter: what a test needs of
  them, that the payload at hand is compressed and the ratio guard lets it through, is a
  hypothesis of the lemma that the test passes.
\<close>

subsection \<open>The index\<close>

text \<open>The struct and its mutations are those of the first example; a metric without a tag is written as 255.\<close>

fun metric_byte :: "distance_metric \<Rightarrow> byte" where
  "metric_byte Cosine = 0"
| "metric_byte DotProduct = 1"
| "metric_byte Euclidean = 2"
| "metric_byte Manhattan = 3"
| "metric_byte Hamming = 4"
| "metric_byte (OtherMetric n) = 255"

definition byte_metric :: "string \<Rightarrow> byte \<Rightarrow> ('ie, distance_metric) result" where
  "byte_metric reason t =
     (if t = 0 then Inr Cosine
      else if t = 1 then Inr DotProduct
      else if t = 2 then Inr Euclidean
      else if t = 3 then Inr Manhattan
      else if t = 4 then Inr Hamming
      else Inl (InvalidPayload reason))"

definition packed_save_to :: "vec_index \<Rightarrow> (writer, 'ie, unit) prog" where
  "packed_save_to this =
     sbind (write_all (to_le 8 (of_nat (vec_dim this) :: u64))) (\<lambda>_.
     sbind (write_all [metric_byte (vec_metric this)]) (\<lambda>_.
     sbind (write_all (to_le 8 (of_nat (length (vec_rows this)) :: u64))) (\<lambda>_.
     write_rows (vec_rows this))))"

definition packed_load_from :: "nat \<Rightarrow> (reader, 'ie, vec_index) prog" where
  "packed_load_from umax =
     sbind (read_io 8) (\<lambda>b8. let dim = as_usize umax (of_le b8) in
     sbind (read_io 1) (\<lambda>b1.
     sbind (slift (byte_metric ''bad metric tag'' (b1 ! 0))) (\<lambda>metric.
     sbind (read_io 8) (\<lambda>b8. let n = as_usize umax (of_le b8) in
     sbind (read_rows dim n []) (\<lambda>rows.
     sret \<lparr>vec_dim = dim, vec_metric = metric, vec_rows = rows\<rparr>)))))"

definition packed_ops :: "nat \<Rightarrow> (vec_index, 'm, 'ie) index_ops" where
  "packed_ops umax = \<lparr>ix_insert = vec_insert, ix_delete = vec_delete, ix_len = vec_len, ix_dim = vec_dim,
     ix_metric = vec_metric, INDEX_TYPE = ascii ''store'', save_to = packed_save_to,
     load_from = packed_load_from umax\<rparr>"

subsection \<open>The tests\<close>

definition zero_rows :: "nat \<Rightarrow> nat \<Rightarrow> ('ie, vec_index) test" where
  "zero_rows dim n =
     sbind (unwrap (slift (map_iqdb (vec_new dim Cosine)))) (\<lambda>idx.
     insert_range (\<lambda>i. replicate dim 0) [0..<n] idx)"

definition compressed_by :: "compression \<Rightarrow> path \<Rightarrow> persist_config" where
  "compressed_by scheme path = (config_new path)\<lparr>cfg_compression := scheme\<rparr>"

definition save_rows :: "(vec_index, 'm, 'ie) env \<Rightarrow> nat \<Rightarrow> nat \<Rightarrow> persist_config \<Rightarrow> ('ie, unit) test" where
  "save_rows E dim n cfg =
     sbind (zero_rows dim n) (\<lambda>idx. sbind (unwrap (open_with E idx cfg)) (\<lambda>db. unwrap (save E db)))"

definition round_trip_with :: "(vec_index, 'm, 'ie) env \<Rightarrow> tempdir \<Rightarrow> compression \<Rightarrow> ('ie, unit) test" where
  "round_trip_with E tempdir scheme =
     sbind (new_tempdir tempdir) (\<lambda>dir. let cfg = compressed_by scheme (path_join dir ''c.iqdb'') in
     sbind (save_rows E 16 200 cfg) (\<lambda>_.
     sbind (unwrap (load E cfg)) (\<lambda>restored.
     sbind (assert_that (vec_len (index_ref restored) = 200)) (\<lambda>_.
     assert_that (vec_dim (index_ref restored) = 16)))))"

definition zstd_snapshot_round_trips :: "(vec_index, 'm, 'ie) env \<Rightarrow> tempdir \<Rightarrow> ('ie, unit) test" where
  "zstd_snapshot_round_trips E tempdir = round_trip_with E tempdir (Zstd 3)"

definition lz4_snapshot_round_trips :: "(vec_index, 'm, 'ie) env \<Rightarrow> tempdir \<Rightarrow> ('ie, unit) test" where
  "lz4_snapshot_round_trips E tempdir = round_trip_with E tempdir Lz4"

text \<open>The length in the metadata of a file is the length of what reading it gives.\<close>

definition compression_shrinks_a_compressible_snapshot :: "(vec_index, 'm, 'ie) env \<Rightarrow> tempdir \<Rightarrow> ('ie, unit) test" where
  "compression_shrinks_a_compressible_snapshot E tempdir =
     sbind (new_tempdir tempdir) (\<lambda>dir.
     let raw_path = path_join dir ''raw.iqdb''; zstd_path = path_join dir ''zstd.iqdb'' in
     sbind (save_rows E 64 500 (config_new raw_path)) (\<lambda>_.
     sbind (save_rows E 64 500 (compressed_by (Zstd 9) zstd_path)) (\<lambda>_.
     sbind (test_read raw_path) (\<lambda>raw.
     sbind (test_read zstd_path) (\<lambda>zstd.
     assert_that (length zstd < length raw))))))"

definition corrupt_compressed_payload_is_caught_by_crc :: "(vec_index, 'm, 'ie) env \<Rightarrow> tempdir \<Rightarrow> ('ie, unit) test" where
  "corrupt_compressed_payload_is_caught_by_crc E tempdir =
     sbind (new_tempdir tempdir) (\<lambda>dir.
     let path = path_join dir ''c.iqdb''; cfg = compressed_by Lz4 path in
     sbind (save_rows E 8 50 cfg) (\<lambda>_.
     sbind (test_read path) (\<lambda>bytes. let last = length bytes - 1 in
     sbind (test_write path (bytes[last := bytes ! last XOR 1])) (\<lambda>_.
     sbind (unwrap_err (load E cfg)) (\<lambda>e.
     assert_that (case e of ChecksumMismatch expected computed \<Rightarrow> True | _ \<Rightarrow> False))))))"

definition legacy_v1_snapshot_still_loads :: "(vec_index, 'm, 'ie) env \<Rightarrow> tempdir \<Rightarrow> ('ie, unit) test" where
  "legacy_v1_snapshot_still_loads E tempdir =
     sbind (new_tempdir tempdir) (\<lambda>dir. let path = path_join dir ''legacy.iqdb'' in
     sbind (zero_rows 4 10) (\<lambda>idx.
     let (saved, raw) = save_to (index E) idx (vec_writer []) in
     sbind (unwrap (slift saved)) (\<lambda>_.
     let header = \<lparr>fh_magic = MAGIC, fh_version = 1, fh_index_type = INDEX_TYPE (index E),
           fh_dim = ix_dim (index E) idx, fh_metric = ix_metric (index E) idx,
           fh_n_vectors = ix_len (index E) idx, fh_crc32 = compute (crc_hash E) (wbuf raw)\<rparr>;
         (written, out) = write_header header (vec_writer []) in
     sbind (unwrap (slift written)) (\<lambda>_.
     sbind (test_write path (wbuf out @ wbuf raw)) (\<lambda>_.
     sbind (unwrap (load E (config_new path))) (\<lambda>restored.
     sbind (assert_that (vec_len (index_ref restored) = 10)) (\<lambda>_.
     assert_that (vec_dim (index_ref restored) = 4))))))))"

subsection \<open>The contract\<close>

lemma metric_byte_tag: "metric_tag m = Some t \<Longrightarrow> metric_byte m = t \<and> byte_metric reason t = Inr m"
  by (cases m) (auto simp: metric_tag_def byte_metric_def)

lemma packed_saves:
  assumes "vec_wf umax i"
  shows "packed_save_to i (vec_writer buf) = (Inr (), vec_writer (buf @ vec_payload i))"
proof -
  obtain t where "metric_tag (vec_metric i) = Some t" using assms by (auto simp: vec_wf_def)
  then show ?thesis
    by (simp add: packed_save_to_def sbind_def metric_byte_tag write_rows_image vec_payload_def del: to_le.simps)
qed

lemma packed_loads:
  assumes "vec_wf umax i" and "umax \<le> U64_MAX"
  shows "fst (packed_load_from umax (cursor_new (vec_payload i))) = Inr i"
proof -
  obtain t where "metric_tag (vec_metric i) = Some t" using assms by (auto simp: vec_wf_def)
  moreover have "\<forall>row\<in>set (vec_rows i). length (snd row) = vec_dim i" and "vec_dim i \<le> umax"
    using assms(1) by (simp_all add: vec_wf_def)
  ultimately show ?thesis
    using vec_rows_bound [OF assms(1)] assms(2)
    by (simp add: packed_load_from_def sbind_def sret_def vec_payload_def cursor_new_def read_io_ok read_io_one
        read_rows_image [where ys = "[]", simplified] metric_byte_tag as_usize_of_nat Let_def del: to_le.simps)
qed

lemma packed_persistable:
  assumes "4096 \<le> umax" and "umax \<le> U64_MAX"
  shows "persistable (packed_ops umax) (vec_wf umax) vec_payload umax"
proof
  fix i
  assume "vec_wf umax i"
  then show "header_fits umax (packed_ops umax) i \<and> length (vec_payload i) \<le> umax"
    using assms vec_rows_bound [of umax i]
    by (simp add: header_fits_def packed_ops_def vec_wf_def vec_len_def MAX_INDEX_TYPE_LEN_def ascii_def)
qed (use assms in \<open>simp_all add: packed_ops_def packed_saves packed_loads vec_insert_def vec_delete_def\<close>)

interpretation packed: persistable "packed_ops U64_MAX" "vec_wf U64_MAX" vec_payload U64_MAX
  by (rule packed_persistable) (simp_all add: U64_MAX_def)

definition packed_env ::
  "nat \<Rightarrow> codec \<Rightarrow> (bytes \<Rightarrow> u32) \<Rightarrow> 'm metadata_ops \<Rightarrow> (vec_index, 'm, 'ie) env" where
  "packed_env umax C crc M =
     \<lparr>host_umax = umax, codecs = C, crc_hash = crc, metadata = M, index = packed_ops umax\<rparr>"

lemma packed_env_simps [simp]:
  "index (packed_env umax C crc M) = packed_ops umax" "codecs (packed_env umax C crc M) = C"
  "host_umax (packed_env umax C crc M) = umax" "metadata (packed_env umax C crc M) = M"
  "crc_hash (packed_env umax C crc M) = crc"
  by (simp_all add: packed_env_def)

lemma packed_snapshots:
  assumes "4096 \<le> umax" and "umax \<le> U64_MAX" and "codec_ok C"
  shows "snapshots (packed_env umax C crc M :: (vec_index, 'm, 'ie) env) (vec_wf umax) vec_payload"
  using packed_persistable [OF assms(1,2)] assms(3) by (simp add: snapshots_def snapshots_axioms_def)


subsection \<open>They pass\<close>

definition zeros :: "nat \<Rightarrow> nat \<Rightarrow> vec_index" where
  "zeros dim n = \<lparr>vec_dim = dim, vec_metric = Cosine, vec_rows = map (\<lambda>i. (of_nat i, replicate dim 0)) [0..<n]\<rparr>"

lemma zeros_simps [simp]:
  "vec_dim (zeros dim n) = dim" "vec_metric (zeros dim n) = Cosine" "vec_len (zeros dim n) = n"
  by (simp_all add: zeros_def vec_len_def)

lemma zero_rows_run: "zero_rows dim n w = (Inr (zeros dim n), w)"
  by (simp add: zero_rows_def vec_new_def sbind_def slift_def unwrap_def smap_err_def insert_range_run zeros_def)

lemma zeros_size: "length (vec_payload (zeros dim n)) = 17 + n * (8 + 4 * dim)"
  by (induction n) (simp_all add: vec_payload_def zeros_def rows_image_def row_image_def length_components
      del: to_le.simps map_replicate)

lemma zeros_wf: "17 + n * (8 + 4 * dim) \<le> umax \<Longrightarrow> dim \<le> umax \<Longrightarrow> vec_wf umax (zeros dim n)"
  using zeros_size [of dim n] by (auto simp: vec_wf_def zeros_def metric_tag_def)

text \<open>The codecs pack the payload of the rows, and the decoder lets the result through.\<close>

definition packs :: "nat \<Rightarrow> codec \<Rightarrow> compression \<Rightarrow> nat \<Rightarrow> nat \<Rightarrow> bytes \<Rightarrow> bool" where
  "packs umax C scheme dim n packed \<longleftrightarrow>
     encode C scheme (vec_payload (zeros dim n)) = (Inr packed :: (unit, bytes) result) \<and>
     \<not> too_dense umax scheme (vec_payload (zeros dim n)) packed"

lemma encode_Inr_any: "encode C scheme raw = (Inr packed :: ('a, bytes) result) \<Longrightarrow> encode C scheme raw = (Inr packed :: ('b, bytes) result)"
  by (cases scheme) (auto simp: encode_zstd_def encode_lz4_def split: if_splits option.splits)

lemma compressed_by_simps [simp]:
  "cfg_path (compressed_by scheme p) = p" "cfg_compression (compressed_by scheme p) = scheme"
  "\<not> wal_enabled (compressed_by scheme p)" "compressed_by NoCompression p = config_new p"
  by (simp_all add: compressed_by_def config_new_def)

lemma packs_valid: "packs umax C scheme dim n packed \<Longrightarrow> validate_config C (compressed_by scheme p) = Inr ()"
  by (cases scheme) (auto simp: packs_def validate_config_def encode_zstd_def encode_lz4_def split: if_splits)

lemma save_rows_run:
  fixes M :: "'m metadata_ops"
  assumes host: "2 ^ 20 \<le> umax" "umax \<le> U64_MAX" and C: "codec_ok C"
    and size: "17 + n * (8 + 4 * dim) \<le> umax" "dim \<le> umax" and packs: "packs umax C scheme dim n packed"
    and world: "fs_ok w" "calm w" "room p w" "placed p"
  obtains bytes v where "save_rows (packed_env umax C crc M :: (vec_index, 'm, 'ie) env) dim n (compressed_by scheme p) w = (Inr (), v)"
    and "load (packed_env umax C crc M :: (vec_index, 'm, 'ie) env) (compressed_by scheme p) v =
      (Inr \<lparr>inner = zeros dim n, config = compressed_by scheme p, storage_of = std_fs_storage, wal_of = None\<rparr>, v)"
    and "decode_snapshot (packed_env umax C crc M :: (vec_index, 'm, 'ie) env) bytes = Inr (zeros dim n)"
    and "length bytes = 55 + length packed" and "calm v" "fs_ok v" "room p v" "content v p = Some bytes"
    and "dirs v = dirs w" "\<forall>q. q \<noteq> p \<longrightarrow> names v q = names w q" "spares p w v"
proof -
  let ?E = "packed_env umax C crc M :: (vec_index, 'm, 'ie) env" and ?cfg = "compressed_by scheme p"
  have big: "4096 \<le> umax" using host(1) by simp
  note snap = packed_snapshots [OF big host(2) C, where crc = crc and M = M and 'ie = 'ie]
  have valid: "vec_wf umax (zeros dim n)" using zeros_wf [OF size] .
  have cfg: "validate_config C ?cfg = (Inr () :: ('ie, unit) result)" using packs_valid [OF packs] .
  have enc: "encode C scheme (vec_payload (zeros dim n)) = (Inr packed :: ('ie, bytes) result)"
      "\<not> too_dense umax scheme (vec_payload (zeros dim n)) packed"
    using packs encode_Inr_any by (auto simp: packs_def)
  let ?t = "\<lparr>inner = zeros dim n, config = ?cfg, storage_of = std_fs_storage, wal_of = None\<rparr> :: (vec_index, 'ie) persisted"
  have t: "inner ?t = zeros dim n" "config ?t = ?cfg" by simp_all
  obtain bytes v where run: "open_with ?E (zeros dim n) ?cfg w = (Inr ?t, w)" "save ?E ?t w = (Inr (), v)"
    and dec: "decode_snapshot ?E bytes = Inr (zeros dim n)"
    and v: "calm v" "fs_ok v" "room p v" "content v p = Some bytes" "dirs v = dirs w"
      "\<forall>q. q \<noteq> p \<longrightarrow> names v q = names w q" "spares p w v"
    and img: "snapshot_image ?E ?t = Inr bytes"
    by (rule saved_under [OF snap valid, where cfg = ?cfg and packed = packed and w = w,
          unfolded packed_env_simps compressed_by_simps])
      (use cfg enc world in auto)
  obtain tag where "bytes = header_image tag (header_of ?E (zeros dim n) (region_of scheme (vec_payload (zeros dim n)) packed)) @
      region_of scheme (vec_payload (zeros dim n)) packed"
    by (rule snapshots.snapshot_image_Inr [OF snap, of ?t, unfolded t compressed_by_simps packed_env_simps, OF valid enc(1)])
      (use img in auto)
  then have "length bytes = 55 + length packed"
    by (simp add: length_header_image header_of_def region_of_def packed_ops_def)
  moreover have "save_rows ?E dim n ?cfg w = (Inr (), v)"
    using run by (simp add: save_rows_def sbind_def zero_rows_run)
  moreover have "load ?E ?cfg v = (Inr ?t, v)"
    by (rule load_snapshot_only [OF v(1,2) _ dec]) (simp_all add: v(4) cfg)
  ultimately show thesis using dec v that by blast
qed


lemma tempdirE:
  assumes "tempdir_ok tempdir name" and "fs_ok w" "calm w"
  obtains dir v where "tempdir w = (Inr dir, v)" and "new_tempdir tempdir w = (Inr dir :: 'ie persist_error option + path, v)"
    and "fs_ok v" "calm v" "room (path_join dir name) v" "placed (path_join dir name)"
  using assms unfolding tempdir_ok_def by (fastforce simp: new_tempdir_def smap_err_def)

lemma round_trip_with_passes:
  fixes M :: "'m metadata_ops"
  assumes host: "2 ^ 20 \<le> umax" "umax \<le> U64_MAX" and C: "codec_ok C" and packs: "packs umax C scheme 16 200 packed"
    and tempdir: "tempdir_ok tempdir ''c.iqdb''" and world: "fs_ok w" "calm w"
  shows "passes (round_trip_with (packed_env umax C crc M :: (vec_index, 'm, 'ie) env) tempdir scheme) w"
proof -
  let ?E = "packed_env umax C crc M :: (vec_index, 'm, 'ie) env"
  obtain dir w1 where dir: "new_tempdir tempdir w = (Inr dir :: 'ie persist_error option + path, w1)"
    and w1: "fs_ok w1" "calm w1" "room (path_join dir ''c.iqdb'') w1" "placed (path_join dir ''c.iqdb'')"
    by (rule tempdirE [OF tempdir world])
  have size: "17 + 200 * (8 + 4 * 16) \<le> umax" "16 \<le> umax" using host(1) by simp_all
  let ?cfg = "compressed_by scheme (path_join dir ''c.iqdb'')"
  obtain v where "save_rows ?E 16 200 ?cfg w1 = (Inr (), v)"
    and "load ?E ?cfg v = (Inr \<lparr>inner = zeros 16 200, config = ?cfg, storage_of = std_fs_storage, wal_of = None\<rparr>, v)"
    by (rule save_rows_run [OF host C size packs w1, where crc = crc and M = M and 'ie = 'ie])
  then show ?thesis
    using dir by (simp add: passes_def round_trip_with_def sbind_def Let_def index_ref_def sret_def)
qed

lemma corrupt_payload_passes:
  fixes M :: "'m metadata_ops"
  assumes host: "2 ^ 20 \<le> umax" "umax \<le> U64_MAX" and C: "codec_ok C" and crc: "crc_detects crc"
    and packs: "packs umax C Lz4 8 50 packed"
    and tempdir: "tempdir_ok tempdir ''c.iqdb''" and world: "fs_ok w" "calm w"
  shows "passes (corrupt_compressed_payload_is_caught_by_crc (packed_env umax C crc M :: (vec_index, 'm, 'ie) env) tempdir) w"
proof -
  let ?E = "packed_env umax C crc M :: (vec_index, 'm, 'ie) env"
  obtain dir w1 where dir: "new_tempdir tempdir w = (Inr dir :: 'ie persist_error option + path, w1)"
    and w1: "fs_ok w1" "calm w1" "room (path_join dir ''c.iqdb'') w1" "placed (path_join dir ''c.iqdb'')"
    by (rule tempdirE [OF tempdir world])
  let ?p = "path_join dir ''c.iqdb''"
  let ?cfg = "compressed_by Lz4 ?p"
  have size: "17 + 50 * (8 + 4 * 8) \<le> umax" "8 \<le> umax" using host(1) by simp_all
  obtain bytes v where run: "save_rows ?E 8 50 ?cfg w1 = (Inr (), v)" and dec: "decode_snapshot ?E bytes = Inr (zeros 8 50)"
    and len: "length bytes = 55 + length packed" and v: "calm v" "fs_ok v" "room ?p v" "content v ?p = Some bytes"
    by (rule save_rows_run [OF host C size packs w1, where crc = crc and M = M and 'ie = 'ie])
  let ?last = "length bytes - 1"
  let ?bad = "bytes[?last := bytes ! ?last XOR 1]"
  have last: "41 + length (INDEX_TYPE (index ?E)) \<le> ?last" "?last < length bytes"
    using len by (auto simp: packed_ops_def)
  have "bytes ! ?last \<noteq> bytes ! ?last XOR 1" by (rule xor_changes) simp
  from decode_damaged [of ?E, OF _ dec last this] obtain expected computed
    where refused: "decode_snapshot ?E ?bad = Inl (ChecksumMismatch expected computed)"
    using crc by auto
  have "writable_file ?p v" using v by (simp add: writable_file_def room_def)
  then obtain x where wr: "test_write ?p ?bad v = (Inr () :: 'ie persist_error option + unit, x)"
    and x: "writable_file ?p x" "content x ?p = Some ?bad"
    using test_write_run [of ?p v ?bad] by blast
  have calm: "calm x" "fs_ok x" using x(1) by (simp_all add: writable_file_def)
  have "load ?E ?cfg x = (Inl (ChecksumMismatch expected computed), x)"
    using packs_valid [OF packs, of ?p, where 'a = 'ie] x(2) refused
    by (simp add: load_def load_with_storage_def sbind_def slift_def std_read_all_calm [OF calm])
  then show ?thesis
    using dir run wr
    by (simp add: passes_def corrupt_compressed_payload_is_caught_by_crc_def sbind_def Let_def
        test_read_calm [OF v(1,2,4)] sret_def)
qed


text \<open>A saved file leaves the room of its neighbours alone, as long as it is not their temp file.\<close>

lemma room_beside:
  assumes "room q w" and "room p w" "room p v" "dirs v = dirs w" "\<forall>q. q \<noteq> p \<longrightarrow> names v q = names w q"
    and "\<And>f pid n. path_file_name q = Some f \<Longrightarrow> path_join (target_dir q) (temp_name f pid n) \<noteq> p"
  shows "room q v"
  using assms by (auto simp: room_def parent_exists_def Let_def split: option.splits)

lemma compression_shrinks_passes:
  fixes M :: "'m metadata_ops"
  assumes host: "2 ^ 20 \<le> umax" "umax \<le> U64_MAX" and C: "codec_ok C"
    and packs: "packs umax C (Zstd 9) 64 500 packed" and small: "length packed < length (vec_payload (zeros 64 500))"
    and tempdir: "tempdir_ok tempdir ''raw.iqdb''" "tempdir_ok tempdir ''zstd.iqdb''" and world: "fs_ok w" "calm w"
  shows "passes (compression_shrinks_a_compressible_snapshot (packed_env umax C crc M :: (vec_index, 'm, 'ie) env) tempdir) w"
proof -
  let ?E = "packed_env umax C crc M :: (vec_index, 'm, 'ie) env"
  obtain dir w1 where temp: "tempdir w = (Inr dir, w1)" and dir: "new_tempdir tempdir w = (Inr dir :: 'ie persist_error option + path, w1)"
    and w1: "fs_ok w1" "calm w1" "room (path_join dir ''raw.iqdb'') w1" "placed (path_join dir ''raw.iqdb'')"
    by (rule tempdirE [OF tempdir(1) world])
  let ?raw = "path_join dir ''raw.iqdb''" and ?zstd = "path_join dir ''zstd.iqdb''"
  have other: "room ?zstd w1" "placed ?zstd"
    using tempdir(2) world temp unfolding tempdir_ok_def by fastforce+
  have size: "17 + 500 * (8 + 4 * 64) \<le> umax" "64 \<le> umax" using host(1) by simp_all
  have plain: "packs umax C NoCompression 64 500 (vec_payload (zeros 64 500))" by (simp add: packs_def too_dense_def)
  obtain bytes v where one: "save_rows ?E 64 500 (config_new ?raw) w1 = (Inr (), v)"
    and len: "length bytes = 55 + length (vec_payload (zeros 64 500))"
    and v: "calm v" "fs_ok v" "room ?raw v" "content v ?raw = Some bytes" "dirs v = dirs w1" "\<forall>q. q \<noteq> ?raw \<longrightarrow> names v q = names w1 q"
    by (rule save_rows_run [OF host C size plain w1, where crc = crc and M = M and 'ie = 'ie, unfolded compressed_by_simps])
  have beside: "room ?zstd v"
    by (rule room_beside [OF other(1) w1(3) v(3,5,6)]) (cases dir; auto simp: temp_name_def target_dir_def)
  obtain bytes' v' where two: "save_rows ?E 64 500 (compressed_by (Zstd 9) ?zstd) v = (Inr (), v')"
    and len': "length bytes' = 55 + length packed"
    and v': "calm v'" "fs_ok v'" "content v' ?zstd = Some bytes'" "spares ?zstd v v'"
    by (rule save_rows_run [OF host C size packs v(2,1) beside other(2), where crc = crc and M = M and 'ie = 'ie])
  have "?raw \<noteq> ?zstd" by (cases dir) simp
  from spares_content [OF v'(4) this v(4)] have "content v' ?raw = Some bytes" .
  with one two dir show ?thesis
    using len len' small
    by (simp add: passes_def compression_shrinks_a_compressible_snapshot_def sbind_def Let_def
        test_read_calm [OF v'(1,2)] v'(3) sret_def)
qed

lemma legacy_v1_passes:
  fixes M :: "'m metadata_ops"
  assumes host: "2 ^ 20 \<le> umax" "umax \<le> U64_MAX" and C: "codec_ok C"
    and tempdir: "tempdir_ok tempdir ''legacy.iqdb''" and world: "fs_ok w" "calm w"
  shows "passes (legacy_v1_snapshot_still_loads (packed_env umax C crc M :: (vec_index, 'm, 'ie) env) tempdir) w"
proof -
  let ?E = "packed_env umax C crc M :: (vec_index, 'm, 'ie) env" and ?i = "zeros 4 10"
  obtain dir w1 where dir: "new_tempdir tempdir w = (Inr dir :: 'ie persist_error option + path, w1)"
    and w1: "fs_ok w1" "calm w1" "room (path_join dir ''legacy.iqdb'') w1" "placed (path_join dir ''legacy.iqdb'')"
    by (rule tempdirE [OF tempdir world])
  let ?p = "path_join dir ''legacy.iqdb''"
  have big: "4096 \<le> umax" using host(1) by simp
  note snap = packed_snapshots [OF big host(2) C, where crc = crc and M = M and 'ie = 'ie]
  have valid: "vec_wf umax ?i" using host(1) by (intro zeros_wf) simp_all
  let ?h = "(header_of ?E ?i (vec_payload ?i))\<lparr>fh_version := 1\<rparr>"
  have h: "\<lparr>fh_magic = MAGIC, fh_version = 1, fh_index_type = INDEX_TYPE (packed_ops umax :: (vec_index, 'm, 'ie) index_ops),
      fh_dim = ix_dim (packed_ops umax :: (vec_index, 'm, 'ie) index_ops) ?i,
      fh_metric = ix_metric (packed_ops umax :: (vec_index, 'm, 'ie) index_ops) ?i,
      fh_n_vectors = ix_len (packed_ops umax :: (vec_index, 'm, 'ie) index_ops) ?i,
      fh_crc32 = compute crc (vec_payload ?i)\<rparr> = ?h"
    by (simp add: header_of_def)
  have metric: "metric_tag (ix_metric (index ?E) ?i) = Some 0" by (simp add: packed_ops_def metric_tag_def)
  have w: "writable ?h 0" by (simp add: writable_def header_of_def packed_ops_def metric_tag_def U64_MAX_def)
  have dec: "decode_snapshot ?E (header_image 0 ?h @ vec_payload ?i) = Inr ?i"
    by (rule snapshots.decode_version_1 [OF snap valid metric])
  have "writable_file ?p w1" using w1 by (simp add: writable_file_def room_def)
  then obtain x where wr: "test_write ?p (header_image 0 ?h @ vec_payload ?i) w1 = (Inr () :: 'ie persist_error option + unit, x)"
    and x: "writable_file ?p x" "content x ?p = Some (header_image 0 ?h @ vec_payload ?i)"
    using test_write_run [of ?p w1] by blast
  have calm: "calm x" "fs_ok x" using x(1) by (simp_all add: writable_file_def)
  have raw: "save_to (packed_ops umax :: (vec_index, 'm, 'ie) index_ops) ?i (vec_writer []) = (Inr (), vec_writer (vec_payload ?i))"
    using packed_saves [OF valid, of "[]"] by (simp add: packed_ops_def)
  have wbuf: "wbuf (vec_writer b) = b" for b by (simp add: vec_writer_def)
  show ?thesis
    using dir
    by (simp add: passes_def legacy_v1_snapshot_still_loads_def sbind_def Let_def zero_rows_run raw wbuf slift_def
        h write_header_image [OF w] wr load_calm_snapshot [OF calm x(2) dec] index_ref_def sret_def)
qed


text \<open>What the tests need of the codecs: they pack their payloads, and the last one to fewer bytes.\<close>

definition packs_tests :: "nat \<Rightarrow> codec \<Rightarrow> bool" where
  "packs_tests umax C \<longleftrightarrow>
     (\<exists>packed. packs umax C (Zstd 3) 16 200 packed) \<and> (\<exists>packed. packs umax C Lz4 16 200 packed) \<and>
     (\<exists>packed. packs umax C Lz4 8 50 packed) \<and>
     (\<exists>packed. packs umax C (Zstd 9) 64 500 packed \<and> length packed < length (vec_payload (zeros 64 500)))"

text \<open>
  Compressed snapshots work end to end.  With codecs that pack the test data the five tests pass:
  an index is loaded unchanged under each codec, a compressible snapshot is smaller on disk than
  the raw one, a flipped bit in a compressed region is a checksum mismatch, and a file of version
  1 loads.
\<close>

theorem compression_tests_pass:
  fixes M :: "'m metadata_ops"
  assumes host: "2 ^ 20 \<le> umax" "umax \<le> U64_MAX" and C: "codec_ok C" "packs_tests umax C" and crc: "crc_detects crc"
    and tempdir: "\<forall>name\<in>set [''c.iqdb'', ''raw.iqdb'', ''zstd.iqdb'', ''legacy.iqdb'']. tempdir_ok tempdir name"
    and world: "fs_ok w" "calm w"
  shows "passes (zstd_snapshot_round_trips (packed_env umax C crc M :: (vec_index, 'm, 'ie) env) tempdir) w \<and>
    passes (lz4_snapshot_round_trips (packed_env umax C crc M :: (vec_index, 'm, 'ie) env) tempdir) w \<and>
    passes (compression_shrinks_a_compressible_snapshot (packed_env umax C crc M :: (vec_index, 'm, 'ie) env) tempdir) w \<and>
    passes (corrupt_compressed_payload_is_caught_by_crc (packed_env umax C crc M :: (vec_index, 'm, 'ie) env) tempdir) w \<and>
    passes (legacy_v1_snapshot_still_loads (packed_env umax C crc M :: (vec_index, 'm, 'ie) env) tempdir) w"
proof -
  have dirs: "tempdir_ok tempdir ''c.iqdb''" "tempdir_ok tempdir ''raw.iqdb''" "tempdir_ok tempdir ''zstd.iqdb''"
      "tempdir_ok tempdir ''legacy.iqdb''"
    using tempdir by simp_all
  obtain a b c d where packs: "packs umax C (Zstd 3) 16 200 a" "packs umax C Lz4 16 200 b" "packs umax C Lz4 8 50 c"
      "packs umax C (Zstd 9) 64 500 d" "length d < length (vec_payload (zeros 64 500))"
    using C(2) unfolding packs_tests_def by blast
  show ?thesis
    unfolding zstd_snapshot_round_trips_def lz4_snapshot_round_trips_def
    by (intro conjI)
      (rule round_trip_with_passes [OF host C(1) packs(1) dirs(1) world]
        round_trip_with_passes [OF host C(1) packs(2) dirs(1) world]
        compression_shrinks_passes [OF host C(1) packs(4,5) dirs(2,3) world]
        corrupt_payload_passes [OF host C(1) crc packs(3) dirs(1) world]
        legacy_v1_passes [OF host C(1) dirs(4) world])+
qed

text \<open>Codecs that only know one block of zeros, at the end of a payload.\<close>

definition block_pack :: "bytes \<Rightarrow> bytes" where
  "block_pack raw =
     (if 256 \<le> length raw \<and> drop (length raw - 256) raw = replicate 256 0
      then 1 # take (length raw - 256) raw else 0 # raw)"

definition block_unpack :: "bytes \<Rightarrow> bytes option" where
  "block_unpack xs =
     (case xs of [] \<Rightarrow> None | k # raw \<Rightarrow> Some (if k = 1 then raw @ replicate 256 0 else raw))"

definition block_codec :: codec where
  "block_codec = \<lparr>zstd_feature = True, lz4_feature = True,
     zstd_encode_all = (\<lambda>raw level. Some (block_pack raw)), zstd_decode_all = block_unpack,
     lz4_compress = block_pack, lz4_decompress = (\<lambda>xs n. block_unpack xs)\<rparr>"

lemma block_unpack_pack: "block_unpack (block_pack raw) = Some raw"
proof (cases "256 \<le> length raw \<and> drop (length raw - 256) raw = replicate 256 0")
  case True
  then have "take (length raw - 256) raw @ replicate 256 0 = raw"
    using append_take_drop_id [of "length raw - 256" raw] by metis
  then show ?thesis using True by (simp add: block_pack_def block_unpack_def del: replicate.simps)
qed (auto simp: block_pack_def block_unpack_def)

lemma block_codec_ok: "codec_ok block_codec"
  by (simp add: codec_ok_def block_codec_def block_unpack_pack)

lemma block_pack_length: "length raw < length (block_pack raw) + 256"
  by (simp add: block_pack_def del: replicate.simps)

lemma block_packs:
  assumes "scheme = Lz4 \<or> (\<exists>level. scheme = Zstd level \<and> 1 \<le> sint level \<and> sint level \<le> 22)"
    and "17 + n * (8 + 4 * dim) \<le> umax"
  shows "packs umax block_codec scheme dim n (block_pack (vec_payload (zeros dim n)))"
proof -
  have one: "1 \<le> length (block_pack raw)" for raw by (simp add: block_pack_def)
  have "length raw \<le> 4096 * length (block_pack raw)" for raw
    using one [of raw] block_pack_length [of raw] by linarith
  from this [of "vec_payload (zeros dim n)"] have "\<not> too_dense umax scheme (vec_payload (zeros dim n)) (block_pack (vec_payload (zeros dim n)))"
    using assms(2) zeros_size [of dim n] unfolding too_dense_def by linarith
  then show ?thesis
    using assms(1) by (auto simp: packs_def block_codec_def encode_zstd_def encode_lz4_def)
qed

lemma zero_components: "concat (map (to_le 4) (replicate k (0 :: f32))) = replicate (4 * k) 0"
  by (induction k) (simp_all add: eval_nat_numeral)

lemma zeros_end: "\<exists>xs. vec_payload (zeros 64 (Suc n)) = xs @ replicate 256 0"
proof -
  have row: "row_image (m, replicate 64 (0 :: f32)) = to_le 8 m @ replicate 256 0" for m
    using zero_components [of 64] by (simp add: row_image_def del: to_le.simps replicate.simps map_replicate)
  show ?thesis
    by (simp add: vec_payload_def zeros_def rows_image_def row del: to_le.simps replicate.simps map_replicate)
qed

lemma block_packs_tests:
  assumes "2 ^ 20 \<le> umax"
  shows "packs_tests umax block_codec"
proof -
  obtain xs where xs: "vec_payload (zeros 64 (Suc 499)) = xs @ replicate 256 0" using zeros_end by blast
  have "length (block_pack (xs @ replicate 256 0)) = Suc (length xs)"
    by (simp add: block_pack_def del: replicate.simps)
  then have less: "length (block_pack (vec_payload (zeros 64 500))) < length (vec_payload (zeros 64 500))"
    using xs by (simp del: replicate.simps)
  have fits: "17 + 200 * (8 + 4 * 16) \<le> umax" "17 + 50 * (8 + 4 * 8) \<le> umax" "17 + 500 * (8 + 4 * 64) \<le> umax"
    using assms by simp_all
  have levels: "1 \<le> sint (3 :: u32) \<and> sint (3 :: u32) \<le> 22" "1 \<le> sint (9 :: u32) \<and> sint (9 :: u32) \<le> 22" by simp_all
  have "packs umax block_codec (Zstd 3) 16 200 (block_pack (vec_payload (zeros 16 200)))"
    and "packs umax block_codec Lz4 16 200 (block_pack (vec_payload (zeros 16 200)))"
    and "packs umax block_codec Lz4 8 50 (block_pack (vec_payload (zeros 8 50)))"
    and "packs umax block_codec (Zstd 9) 64 500 (block_pack (vec_payload (zeros 64 500)))"
    using block_packs [of "Zstd 3" 200 16 umax] block_packs [of Lz4 200 16 umax] block_packs [of Lz4 50 8 umax]
      block_packs [of "Zstd 9" 500 64 umax] fits levels by simp_all
  with less show ?thesis unfolding packs_tests_def by blast
qed

theorem compression_tests_pass_witness:
  "passes (compression_shrinks_a_compressible_snapshot
      (packed_env U64_MAX block_codec crc32_ieee flag_ops :: (vec_index, bool list, unit) env) empty_disk) (example_world []) \<and>
    passes (corrupt_compressed_payload_is_caught_by_crc
      (packed_env U64_MAX block_codec crc32_ieee flag_ops :: (vec_index, bool list, unit) env) empty_disk) (example_world [])"
proof -
  have host: "2 ^ 20 \<le> U64_MAX" by (simp add: U64_MAX_def)
  have dirs: "\<forall>name\<in>set [''c.iqdb'', ''raw.iqdb'', ''zstd.iqdb'', ''legacy.iqdb'']. tempdir_ok empty_disk name"
    by (simp add: empty_disk_ok)
  have calm: "calm (example_world [])" by (simp add: calm_def example_world_def)
  from compression_tests_pass [OF host order_refl block_codec_ok block_packs_tests [OF host] ieee.crc_detects_axioms dirs
      example_world_ok calm, where 'ie = unit and M = flag_ops]
  show ?thesis by simp
qed

end
