(* ===== verification/Lifecycle_Tests.thy ===== *)
theory Lifecycle_Tests
  imports Packed_Tests
begin

section \<open>The lifecycle tests of the log (\<open>tests/wal.rs\<close>)\<close>

text \<open>
  Seven tests on the public interface: a database opened in WAL mode, changed, dropped without a
  checkpoint, loaded again, with a cut log and with appends behind a recovery.  The index keeps
  identifiers of both kinds and metadata, but its snapshot only has numeric identifiers and no
  metadata: the log carries the rest.
\<close>

subsection \<open>The index\<close>

record 'm id_index =
  id_dim :: nat
  id_metric :: distance_metric
  id_rows :: "(vector_id \<times> f32 list \<times> 'm option) list"

definition row_ids :: "'m id_index \<Rightarrow> vector_id list" where
  "row_ids this = map (\<lambda>(rid, _, _). rid) (id_rows this)"

definition meta_of :: "vector_id \<Rightarrow> 'm id_index \<Rightarrow> 'm option" where
  "meta_of vid this =
     (case List.find (\<lambda>(rid, _, _). rid = vid) (id_rows this) of
        None \<Rightarrow> None
      | Some (_, _, m) \<Rightarrow> m)"

definition id_insert :: "vector_id \<Rightarrow> f32 list \<Rightarrow> 'm option \<Rightarrow> 'm id_index \<Rightarrow> ('ie + unit) \<times> 'm id_index" where
  "id_insert vid v m this = (Inr (), this\<lparr>id_rows := id_rows this @ [(vid, v, m)]\<rparr>)"

definition id_delete :: "vector_id \<Rightarrow> 'm id_index \<Rightarrow> ('ie + unit) \<times> 'm id_index" where
  "id_delete vid this = (Inr (), this\<lparr>id_rows := filter (\<lambda>(rid, _, _). rid \<noteq> vid) (id_rows this)\<rparr>)"

definition id_len :: "'m id_index \<Rightarrow> nat" where
  "id_len this = length (id_rows this)"

definition id_new :: "nat \<Rightarrow> distance_metric \<Rightarrow> 'ie + 'm id_index" where
  "id_new dim metric = Inr \<lparr>id_dim = dim, id_metric = metric, id_rows = []\<rparr>"

definition put_id_row :: "vector_id \<times> f32 list \<times> 'm option \<Rightarrow> (writer, 'ie, unit) prog" where
  "put_id_row row =
     (case row of (vid, v, _) \<Rightarrow>
        sbind (case vid of U64 n \<Rightarrow> sret n | Bytes _ \<Rightarrow> sfail (InvalidPayload ''mock only serialises U64 ids'')) (\<lambda>n.
        sbind (write_all (to_le 8 n)) (\<lambda>_.
        for_each (\<lambda>c. write_all (to_le 4 c)) v)))"

definition id_save_to :: "'m id_index \<Rightarrow> (writer, 'ie, unit) prog" where
  "id_save_to this =
     sbind (write_all (to_le 8 (of_nat (id_dim this) :: u64))) (\<lambda>_.
     sbind (write_all [metric_byte (id_metric this)]) (\<lambda>_.
     sbind (write_all (to_le 8 (of_nat (length (id_rows this)) :: u64))) (\<lambda>_.
     for_each put_id_row (id_rows this))))"

definition get_id_row :: "nat \<Rightarrow> (reader, 'ie, vector_id \<times> f32 list \<times> 'm option) prog" where
  "get_id_row dim =
     sbind (read_io 8) (\<lambda>b8.
     sbind (collect_n dim (sbind (read_io 4) (\<lambda>b4. sret (of_le b4)))) (\<lambda>v.
     sret (U64 (of_le b8), v, None)))"

definition id_load_from :: "nat \<Rightarrow> (reader, 'ie, 'm id_index) prog" where
  "id_load_from umax =
     sbind (read_io 8) (\<lambda>b8. let dim = as_usize umax (of_le b8) in
     sbind (read_io 1) (\<lambda>b1.
     sbind (slift (byte_metric ''bad metric tag in mock payload'' (b1 ! 0))) (\<lambda>metric.
     sbind (read_io 8) (\<lambda>b8. let n = as_usize umax (of_le b8) in
     sbind (collect_n n (get_id_row dim)) (\<lambda>rows.
     sret \<lparr>id_dim = dim, id_metric = metric, id_rows = rows\<rparr>)))))"

definition id_ops :: "nat \<Rightarrow> ('m id_index, 'm, 'ie) index_ops" where
  "id_ops umax = \<lparr>ix_insert = id_insert, ix_delete = id_delete, ix_len = id_len, ix_dim = id_dim,
     ix_metric = id_metric, INDEX_TYPE = ascii ''store'', save_to = id_save_to, load_from = id_load_from umax\<rparr>"

subsection \<open>The contract\<close>

text \<open>The rows a snapshot can carry.\<close>

fun plain_row :: "nat \<Rightarrow> vector_id \<times> f32 list \<times> 'm option \<Rightarrow> bool" where
  "plain_row dim (U64 n, v, None) \<longleftrightarrow> length v = dim"
| "plain_row dim _ \<longleftrightarrow> False"

fun id_row_image :: "vector_id \<times> f32 list \<times> 'm option \<Rightarrow> bytes" where
  "id_row_image (U64 n, v, _) = to_le 8 n @ concat (map component_image v)"
| "id_row_image (Bytes _, v, _) = []"

interpretation id_row_io: io_field put_id_row "get_id_row dim" id_row_image "plain_row dim" for dim
proof
  fix x :: "vector_id \<times> f32 list \<times> 'm option" and buf ys :: bytes and p e
  assume "plain_row dim x"
  then obtain n v where x: "x = (U64 n, v, None)" and dim: "dim = length v"
    by (cases "(dim, x)" rule: plain_row.cases) auto
  have comps: "for_each (\<lambda>c. write_all (to_le 4 c)) v (vec_writer b) =
      (Inr (), vec_writer (b @ concat (map component_image v)))" for b
    by (rule component_io.put_each) simp
  show "put_id_row x (vec_writer buf) = (Inr (), vec_writer (buf @ id_row_image x))"
    by (simp add: x put_id_row_def sbind_def sret_def comps del: to_le.simps)
  show "get_id_row dim \<lparr>rrest = id_row_image x @ ys, rpos = p, rend = e\<rparr> =
      (Inr x, \<lparr>rrest = ys, rpos = p + length (id_row_image x), rend = e\<rparr>)"
    by (simp add: x dim get_id_row_def sbind_def sret_def read_io_ok component_io.get_each add.assoc del: to_le.simps)
qed

definition id_payload :: "'m id_index \<Rightarrow> bytes" where
  "id_payload i = to_le 8 (of_nat (id_dim i) :: u64) @ the (metric_tag (id_metric i)) #
     to_le 8 (of_nat (length (id_rows i)) :: u64) @ concat (map id_row_image (id_rows i))"

definition id_wf :: "nat \<Rightarrow> 'm id_index \<Rightarrow> bool" where
  "id_wf umax i \<longleftrightarrow> id_dim i \<le> umax \<and> metric_tag (id_metric i) \<noteq> None \<and>
     (\<forall>row\<in>set (id_rows i). plain_row (id_dim i) row) \<and> length (id_payload i) \<le> umax"

lemma id_rows_bound: "id_wf umax i \<Longrightarrow> length (id_rows i) \<le> umax"
proof -
  have "length rows \<le> length (concat (map id_row_image rows))" if "\<forall>row\<in>set rows. plain_row dim row"
    for dim and rows :: "(vector_id \<times> f32 list \<times> 'a option) list"
    using that
  proof (induction rows)
    case (Cons row rows)
    then have "1 \<le> length (id_row_image row)"
      by (cases "(dim, row)" rule: plain_row.cases) auto
    with Cons show ?case by simp
  qed simp
  from this [of "id_rows i" "id_dim i"] show "id_wf umax i \<Longrightarrow> length (id_rows i) \<le> umax"
    by (simp add: id_wf_def id_payload_def)
qed

lemma id_saves:
  assumes "id_wf umax i"
  shows "id_save_to i (vec_writer buf) = (Inr (), vec_writer (buf @ id_payload i))"
proof -
  obtain t where "metric_tag (id_metric i) = Some t" using assms by (auto simp: id_wf_def)
  moreover have rows: "\<forall>row\<in>set (id_rows i). plain_row (id_dim i) row" using assms by (simp add: id_wf_def)
  ultimately show ?thesis
    by (simp add: id_save_to_def sbind_def metric_byte_tag id_row_io.put_each [OF rows] id_payload_def del: to_le.simps)
qed

lemma id_loads:
  assumes "id_wf umax i" and "umax \<le> U64_MAX"
  shows "fst (id_load_from umax (cursor_new (id_payload i))) = Inr i"
proof -
  obtain t where "metric_tag (id_metric i) = Some t" using assms by (auto simp: id_wf_def)
  moreover have rows: "\<forall>row\<in>set (id_rows i). plain_row (id_dim i) row" and "id_dim i \<le> umax"
    using assms(1) by (simp_all add: id_wf_def)
  ultimately show ?thesis
    using id_rows_bound [OF assms(1)] assms(2)
    by (simp add: id_load_from_def sbind_def sret_def id_payload_def cursor_new_def read_io_ok read_io_one
        id_row_io.get_each [OF rows, where ys = "[]", simplified] metric_byte_tag as_usize_of_nat Let_def del: to_le.simps)
qed

lemma id_persistable:
  assumes "4096 \<le> umax" and "umax \<le> U64_MAX"
  shows "persistable (id_ops umax) (id_wf umax) id_payload umax"
proof
  fix i :: "'a id_index"
  assume "id_wf umax i"
  then show "header_fits umax (id_ops umax) i \<and> length (id_payload i) \<le> umax"
    using assms id_rows_bound [of umax i]
    by (simp add: header_fits_def id_ops_def id_wf_def id_len_def MAX_INDEX_TYPE_LEN_def ascii_def)
qed (use assms in \<open>simp_all add: id_ops_def id_saves id_loads id_insert_def id_delete_def\<close>)

interpretation ids: persistable "id_ops U64_MAX" "id_wf U64_MAX" id_payload U64_MAX
  by (rule id_persistable) (simp_all add: U64_MAX_def)


definition id_env ::
  "nat \<Rightarrow> codec \<Rightarrow> (bytes \<Rightarrow> u32) \<Rightarrow> 'm metadata_ops \<Rightarrow> ('m id_index, 'm, 'ie) env" where
  "id_env umax C crc M =
     \<lparr>host_umax = umax, codecs = C, crc_hash = crc, metadata = M, index = id_ops umax\<rparr>"

lemma id_env_simps [simp]:
  "index (id_env umax C crc M) = id_ops umax" "codecs (id_env umax C crc M) = C"
  "host_umax (id_env umax C crc M) = umax" "metadata (id_env umax C crc M) = M"
  "crc_hash (id_env umax C crc M) = crc"
  by (simp_all add: id_env_def)

lemma id_snapshots:
  assumes "4096 \<le> umax" and "umax \<le> U64_MAX" and "codec_ok C"
  shows "snapshots (id_env umax C crc M :: ('m id_index, 'm, 'ie) env) (id_wf umax) id_payload"
  using id_persistable [OF assms(1,2)] assms(3) by (simp add: snapshots_def snapshots_axioms_def)

subsection \<open>The tests\<close>

text \<open>
  \<open>on_db\<close> is a call on a wrapper with its result unwrapped; it hands on the wrapper as the call
  left it.  Dropping a wrapper does nothing.  Vectors are given in bits.
\<close>

definition on_db :: "('i, 'ie, unit) wrapper_prog \<Rightarrow> ('i, 'ie) persisted \<Rightarrow> ('ie, ('i, 'ie) persisted) test" where
  "on_db m db w =
     (case m (db, w) of
        (Inl e, (_, w)) \<Rightarrow> (Inl (Some e), w)
      | (Inr _, (db, w)) \<Rightarrow> (Inr db, w))"

definition test_exists :: "path \<Rightarrow> ('ie, bool) test" where
  "test_exists p w = (let (b, w) = fs_exists p w in (Inr b, w))"

definition id_open :: "('m id_index, 'm, 'ie) env \<Rightarrow> distance_metric \<Rightarrow> persist_config \<Rightarrow> ('ie, ('m id_index, 'ie) persisted) test" where
  "id_open E metric cfg =
     sbind (unwrap (slift (map_iqdb (id_new 2 metric)))) (\<lambda>idx. unwrap (open_with E idx cfg))"

definition has_id :: "('m id_index, 'ie) persisted \<Rightarrow> vector_id \<Rightarrow> bool" where
  "has_id db vid \<longleftrightarrow> vid \<in> set (row_ids (index_ref db))"

definition idx_path :: "path \<Rightarrow> path" where
  "idx_path dir = path_join dir ''idx.iqdb''"

definition open_with_wal_writes_initial_snapshot_and_wal ::
  "('m id_index, 'm, 'ie) env \<Rightarrow> tempdir \<Rightarrow> ('ie, unit) test" where
  "open_with_wal_writes_initial_snapshot_and_wal E tempdir =
     sbind (new_tempdir tempdir) (\<lambda>dir. let path = idx_path dir in
     sbind (id_open E Euclidean (wal_cfg path)) (\<lambda>_.
     sbind (test_exists path) (\<lambda>b. sbind (assert_that b) (\<lambda>_.
     sbind (test_exists (wal_path path)) assert_that))))"

definition tag_entry :: "bytes \<times> metadata_value" where
  "tag_entry = (ascii ''tag'', VString (ascii ''a''))"

definition crash_recovery_replays_unckeckpointed_mutations ::
  "('m id_index, 'm, 'ie) env \<Rightarrow> tempdir \<Rightarrow> ('m \<Rightarrow> bytes \<Rightarrow> metadata_value option) \<Rightarrow> ('ie, unit) test" where
  "crash_recovery_replays_unckeckpointed_mutations E tempdir get =
     sbind (new_tempdir tempdir) (\<lambda>dir. let path = idx_path dir in
     sbind (id_open E Cosine (wal_cfg path)) (\<lambda>db.
     sbind (on_db (insert_vector E (U64 1) [0, 0x3F800000] None) db) (\<lambda>db.
     let meta = meta_collect (metadata E) [tag_entry] in
     sbind (on_db (insert_vector E (U64 2) [0x40000000, 0x40400000] (Some meta)) db) (\<lambda>db.
     sbind (on_db (insert_vector E (U64 3) [0x40800000, 0x40A00000] None) db) (\<lambda>db.
     sbind (on_db (delete_vector E (U64 1)) db) (\<lambda>_.
     sbind (unwrap (load E (wal_cfg path))) (\<lambda>recovered.
     sbind (assert_that (id_len (index_ref recovered) = 2)) (\<lambda>_.
     sbind (assert_that (has_id recovered (U64 2))) (\<lambda>_.
     sbind (assert_that (has_id recovered (U64 3))) (\<lambda>_.
     sbind (assert_that (\<not> has_id recovered (U64 1))) (\<lambda>_.
     (case meta_of (U64 2) (index_ref recovered) of
        None \<Rightarrow> sfail None
      | Some m \<Rightarrow> assert_that (get m (ascii ''tag'') = Some (VString (ascii ''a'')))))))))))))))"

definition checkpoint_resets_wal_and_avoids_double_apply ::
  "('m id_index, 'm, 'ie) env \<Rightarrow> tempdir \<Rightarrow> ('ie, unit) test" where
  "checkpoint_resets_wal_and_avoids_double_apply E tempdir =
     sbind (new_tempdir tempdir) (\<lambda>dir. let path = idx_path dir in
     sbind (id_open E Cosine (wal_cfg path)) (\<lambda>db.
     sbind (on_db (insert_vector E (U64 1) [0x3F800000, 0x3F800000] None) db) (\<lambda>db.
     sbind (on_db (insert_vector E (U64 2) [0x40000000, 0x40000000] None) db) (\<lambda>db.
     sbind (on_db (checkpoint E) db) (\<lambda>db.
     sbind (on_db (insert_vector E (U64 3) [0x40400000, 0x40400000] None) db) (\<lambda>_.
     sbind (unwrap (load E (wal_cfg path))) (\<lambda>recovered.
     sbind (assert_that (id_len (index_ref recovered) = 3)) (\<lambda>_.
     for_test (\<lambda>n. assert_that (has_id recovered (U64 n))) [1, 2, 3]))))))))"

definition torn_tail_record_is_discarded_on_recovery ::
  "('m id_index, 'm, 'ie) env \<Rightarrow> tempdir \<Rightarrow> ('ie, unit) test" where
  "torn_tail_record_is_discarded_on_recovery E tempdir =
     sbind (new_tempdir tempdir) (\<lambda>dir. let path = idx_path dir in
     sbind (id_open E Cosine (wal_cfg path)) (\<lambda>db.
     sbind (on_db (insert_vector E (U64 1) [0x3F800000, 0x3F800000] None) db) (\<lambda>db.
     sbind (on_db (insert_vector E (U64 2) [0x40000000, 0x40000000] None) db) (\<lambda>_.
     let wp = wal_path path in
     sbind (test_read wp) (\<lambda>bytes.
     sbind (assert_that (6 < length bytes)) (\<lambda>_.
     sbind (test_write wp (take (length bytes - 5) bytes)) (\<lambda>_.
     sbind (unwrap (load E (wal_cfg path))) (\<lambda>recovered.
     sbind (assert_that (id_len (index_ref recovered) = 1)) (\<lambda>_.
     assert_that (has_id recovered (U64 1)))))))))))"

definition continued_appends_after_recovery_persist ::
  "('m id_index, 'm, 'ie) env \<Rightarrow> tempdir \<Rightarrow> ('ie, unit) test" where
  "continued_appends_after_recovery_persist E tempdir =
     sbind (new_tempdir tempdir) (\<lambda>dir. let path = idx_path dir in
     sbind (id_open E Cosine (wal_cfg path)) (\<lambda>db.
     sbind (on_db (insert_vector E (U64 1) [0x3F800000, 0x3F800000] None) db) (\<lambda>_.
     sbind (unwrap (load E (wal_cfg path))) (\<lambda>db.
     sbind (assert_that (id_len (index_ref db) = 1)) (\<lambda>_.
     sbind (on_db (insert_vector E (U64 2) [0x40000000, 0x40000000] None) db) (\<lambda>_.
     sbind (unwrap (load E (wal_cfg path))) (\<lambda>again.
     assert_that (id_len (index_ref again) = 2))))))))"

definition bytes_vector_id_round_trips_through_wal ::
  "('m id_index, 'm, 'ie) env \<Rightarrow> tempdir \<Rightarrow> ('ie, unit) test" where
  "bytes_vector_id_round_trips_through_wal E tempdir =
     sbind (new_tempdir tempdir) (\<lambda>dir. let path = idx_path dir; key = Bytes (ascii ''content-hash-key'') in
     sbind (id_open E Cosine (wal_cfg path)) (\<lambda>db.
     sbind (on_db (insert_vector E key [0x40E00000, 0x41000000] None) db) (\<lambda>_.
     sbind (unwrap (load E (wal_cfg path))) (\<lambda>recovered.
     assert_that (has_id recovered key)))))"

definition snapshot_only_mode_ignores_wal_api_durability ::
  "('m id_index, 'm, 'ie) env \<Rightarrow> tempdir \<Rightarrow> ('ie, unit) test" where
  "snapshot_only_mode_ignores_wal_api_durability E tempdir =
     sbind (new_tempdir tempdir) (\<lambda>dir. let path = idx_path dir in
     sbind (id_open E Cosine (config_new path)) (\<lambda>db.
     sbind (on_db (insert_vector E (U64 1) [0x3F800000, 0x40000000] None) db) (\<lambda>db.
     sbind (unwrap (save E db)) (\<lambda>_.
     sbind (test_exists (wal_path path)) (\<lambda>b.
     sbind (assert_that (\<not> b)) (\<lambda>_.
     sbind (unwrap (load E (config_new path))) (\<lambda>restored.
     assert_that (id_len (index_ref restored) = 1))))))))"


subsection \<open>What the index makes of mutations\<close>

definition id_at :: "distance_metric \<Rightarrow> (vector_id \<times> f32 list \<times> 'm option) list \<Rightarrow> 'm id_index" where
  "id_at metric rows = \<lparr>id_dim = 2, id_metric = metric, id_rows = rows\<rparr>"

lemma id_at_simps [simp]:
  "id_dim (id_at metric rows) = 2" "id_metric (id_at metric rows) = metric" "id_rows (id_at metric rows) = rows"
  "id_len (id_at metric rows) = length rows" "row_ids (id_at metric rows) = map fst rows"
  by (auto simp: id_at_def id_len_def row_ids_def)

fun id_step :: "'m wal_record \<Rightarrow> (vector_id \<times> f32 list \<times> 'm option) list \<Rightarrow> (vector_id \<times> f32 list \<times> 'm option) list" where
  "id_step (Insert vid v m) rows = rows @ [(vid, v, m)]"
| "id_step (Delete vid) rows = filter (\<lambda>(rid, _, _). rid \<noteq> vid) rows"

fun two_dim :: "'m wal_record \<Rightarrow> bool" where
  "two_dim (Insert vid v m) \<longleftrightarrow> length v = 2"
| "two_dim (Delete vid) \<longleftrightarrow> True"

lemma id_accepts:
  "\<forall>r\<in>set rs. two_dim r \<Longrightarrow>
    accepts (id_ops umax :: ('m id_index, 'm, 'ie) index_ops) (id_at metric rows) rs j \<longleftrightarrow> j = id_at metric (fold id_step rs rows)"
proof (induction rs arbitrary: rows)
  case (Cons r rs)
  have "two_dim r" using Cons.prems by simp
  then have "right_dim (id_ops umax :: ('m id_index, 'm, 'ie) index_ops) r (id_at metric rows) \<and>
      apply_record (id_ops umax :: ('m id_index, 'm, 'ie) index_ops) r (id_at metric rows) = (Inr (), id_at metric (id_step r rows))"
    by (cases r) (simp_all add: id_ops_def id_insert_def id_delete_def id_at_def)
  with Cons show ?case by simp
qed simp

lemma id_empty_wf: "metric \<in> {Cosine, Euclidean} \<Longrightarrow> 4096 \<le> umax \<Longrightarrow> id_wf umax (id_at metric [])"
  by (auto simp: id_wf_def id_payload_def metric_tag_def)

lemma small_readable:
  assumes M: "metadata_ok M" and rs: "\<forall>r\<in>set rs. length (record_image M r) \<le> 4096" "length rs \<le> 100"
    and host: "MAX_RECORD_LEN \<le> umax"
  shows "readable (id_env umax C crc M) rs"
proof -
  have "length (record_frames crc M rs) \<le> 4104 * length rs" using rs(1) by (induction rs) auto
  then have "length (wal_log crc M rs) \<le> umax" using rs(2) host by (simp add: wal_log_def MAX_RECORD_LEN_def)
  with M rs host show ?thesis by (auto simp: readable_def loggable_def MAX_RECORD_LEN_def)
qed

subsection \<open>Running a test\<close>

lemma on_db_run: "m (db, w) = (Inr (), s) \<Longrightarrow> on_db m db w = (Inr (fst s), snd s)"
  by (cases s) (simp add: on_db_def)

lemma test_exists_calm: "calm w \<Longrightarrow> test_exists p w = (Inr (dirs w p \<or> names w p \<noteq> None), w)"
  by (simp add: test_exists_def fs_exists_def call_def draw_calm)

lemma id_start: "id_open E metric cfg w = unwrap (open_with E (id_at metric []) cfg) w"
  by (simp add: id_open_def id_new_def id_at_def sbind_def slift_def unwrap_def smap_err_def)

lemma has_id_loaded [simp]: "has_id (loaded cfg (id_at metric rows) v) vid \<longleftrightarrow> vid \<in> fst ` set rows"
  by (simp add: has_id_def index_ref_def)

text \<open>A database opened on an empty index, filled by readable mutations, and loaded.\<close>

lemma lifecycle:
  fixes M :: "'m metadata_ops"
  defines "E \<equiv> \<lambda>umax C crc M. id_env umax C crc M :: ('m id_index, 'm, 'ie) env"
  assumes host: "MAX_RECORD_LEN \<le> umax" "umax \<le> U64_MAX" and C: "codec_ok C" and metric: "metric \<in> {Cosine, Euclidean}"
    and rs: "readable (E umax C crc M) rs" "\<forall>r\<in>set rs. two_dim r"
    and tempdir: "tempdir_ok tempdir ''idx.iqdb''" and world: "fs_ok w" "calm w"
  obtains dir w1 db w2 this v bytes where "new_tempdir tempdir w = (Inr dir :: 'ie persist_error option + path, w1)"
    and "id_open (E umax C crc M) metric (wal_cfg (idx_path dir)) w1 = (Inr db, w2)"
    and "perform_all (E umax C crc M) (map Mutation rs) (db, w2) = (Inr (), (this, v))"
    and "load (E umax C crc M) (wal_cfg (idx_path dir)) v = (Inr (loaded (wal_cfg (idx_path dir)) (id_at metric (fold id_step rs [])) v), v)"
    and "in_step (E umax C crc M) (id_at metric []) rs (loaded (wal_cfg (idx_path dir)) (id_at metric (fold id_step rs [])) v, v)"
    and "calm v" "fs_ok v" "room (idx_path dir) v" "placed (idx_path dir)"
    and "durable v (idx_path dir) (Some bytes)" "decode_snapshot (E umax C crc M) bytes = Inr (id_at metric [])"
    and "content v (wal_path (idx_path dir)) = Some (wal_log crc M rs)"
proof -
  let ?E = "E umax C crc M"
  have E: "index ?E = id_ops umax" "codecs ?E = C" "metadata ?E = M" "crc_hash ?E = crc" by (simp_all add: E_def)
  have big: "4096 \<le> umax" using host(1) by (simp add: MAX_RECORD_LEN_def)
  have snap: "snapshots ?E (id_wf umax) id_payload" unfolding E_def by (rule id_snapshots [OF big host(2) C])
  have valid: "id_wf umax (id_at metric [] :: 'm id_index)" by (rule id_empty_wf [OF metric big])
  obtain dir w1 where dir: "new_tempdir tempdir w = (Inr dir :: 'ie persist_error option + path, w1)"
    and w1: "fs_ok w1" "calm w1" "room (idx_path dir) w1" "placed (idx_path dir)"
    using tempdirE [OF tempdir world] unfolding idx_path_def by metis
  let ?j = "id_at metric (fold id_step rs [])" and ?cfg = "wal_cfg (idx_path dir)"
  have acc: "accepts (index ?E) (id_at metric []) rs ?j" by (simp add: E id_accepts [OF rs(2)])
  have recs: "\<forall>r\<in>set rs. record_ok (metadata ?E) r" using rs(1) by (simp add: readable_def loggable_record_ok)
  obtain db w2 this v bytes where op: "open_with ?E (id_at metric []) ?cfg w1 = (Inr db, w2)"
    and run: "perform_all ?E (map Mutation rs) (db, w2) = (Inr (), (this, v))"
    and v: "in_step ?E (id_at metric []) rs (this, v)" "config this = ?cfg" "calm v" "fs_ok v" "room (idx_path dir) v"
    and files: "content v (idx_path dir) = Some bytes" "decode_snapshot ?E bytes = Inr (id_at metric [])"
      "content v (wal_path (idx_path dir)) = Some (wal_log crc M rs)" "durable v (idx_path dir) (Some bytes)"
    by (rule opened_logged [OF snap valid, of ?cfg w1 rs ?j, unfolded wal_cfg_simps E])
      (use w1 recs acc in \<open>auto simp: E\<close>)
  have open_db: "id_open ?E metric ?cfg w1 = (Inr db, w2)" by (simp add: id_start op)
  have snap_file: "content v (cfg_path ?cfg) = Some bytes" and accepted: "validate_config (codecs ?E) ?cfg = (Inr () :: ('ie, unit) result)"
    using files(1) by simp_all
  note ld = load_logged [OF v(1,2,3,4) accepted _ snap_file files(2) rs(1) acc]
  show thesis
    by (rule that [OF dir open_db run ld v(3,4,5) w1(4) files(4,2,3)]) simp_all
qed


text \<open>What the tests rely on in \<open>Metadata\<close>: one collected entry is there again.\<close>

definition keeps_entry :: "'m metadata_ops \<Rightarrow> ('m \<Rightarrow> bytes \<Rightarrow> metadata_value option) \<Rightarrow> bool" where
  "keeps_entry M get \<longleftrightarrow> meta_iter M (meta_collect M [tag_entry]) = [tag_entry] \<and>
     get (meta_collect M [tag_entry]) (fst tag_entry) = Some (snd tag_entry)"

lemma plain_record_size:
  "length v = 2 \<Longrightarrow> length (record_image M (Insert (U64 n) v None)) \<le> 4096"
  "length v = 2 \<Longrightarrow> length k \<le> 64 \<Longrightarrow> length (record_image M (Insert (Bytes k) v None)) \<le> 4096"
  "length (record_image M (Delete (U64 n))) \<le> 4096"
  by (simp_all add: length_components4)

lemma tag_record_size:
  assumes "metadata_ok M" and "keeps_entry M get" and "length v = 2"
  shows "length (record_image M (Insert (U64 n) v (Some (meta_collect M [tag_entry])))) \<le> 4096"
  using assms(2,3) by (simp add: keeps_entry_def metadata_image_def entry_image_def tag_entry_def length_components4)

lemma opening_test_passes:
  fixes M :: "'m metadata_ops"
  assumes host: "MAX_RECORD_LEN \<le> umax" "umax \<le> U64_MAX" and C: "codec_ok C" and M: "metadata_ok M"
    and tempdir: "tempdir_ok tempdir ''idx.iqdb''" and world: "fs_ok w" "calm w"
  shows "passes (open_with_wal_writes_initial_snapshot_and_wal (id_env umax C crc M :: ('m id_index, 'm, 'ie) env) tempdir) w"
proof -
  let ?E = "id_env umax C crc M :: ('m id_index, 'm, 'ie) env"
  have none: "readable ?E []" "\<forall>r\<in>set ([] :: 'm wal_record list). two_dim r"
    using small_readable [OF M, of "[]" umax C crc] host(1) by simp_all
  obtain dir w1 db v this u bytes where start: "new_tempdir tempdir w = (Inr dir :: 'ie persist_error option + path, w1)"
      "id_open ?E Euclidean (wal_cfg (idx_path dir)) w1 = (Inr db, v)"
    and run: "perform_all ?E (map Mutation []) (db, v) = (Inr (), (this, u))"
    and u: "calm u" "durable u (idx_path dir) (Some bytes)" "content u (wal_path (idx_path dir)) = Some (wal_log crc M [])"
    by (rule lifecycle [OF host C _ none tempdir world, of Euclidean]) auto
  have "u = v" using run by (simp add: sret_def)
  with u have files: "calm v" "content v (idx_path dir) = Some bytes" "content v (wal_path (idx_path dir)) = Some (wal_log crc M [])"
    using durable_content by auto
  then have "names v (idx_path dir) \<noteq> None" "names v (wal_path (idx_path dir)) \<noteq> None"
    by (auto simp: content_def)
  then show ?thesis
    using start
    by (simp add: passes_def open_with_wal_writes_initial_snapshot_and_wal_def sbind_def Let_def
        test_exists_calm [OF files(1)] sret_def)
qed

lemma crash_recovery_passes:
  fixes M :: "'m metadata_ops"
  assumes host: "MAX_RECORD_LEN \<le> umax" "umax \<le> U64_MAX" and C: "codec_ok C" and M: "metadata_ok M" "keeps_entry M get"
    and tempdir: "tempdir_ok tempdir ''idx.iqdb''" and world: "fs_ok w" "calm w"
  shows "passes (crash_recovery_replays_unckeckpointed_mutations (id_env umax C crc M :: ('m id_index, 'm, 'ie) env) tempdir get) w"
proof -
  let ?E = "id_env umax C crc M :: ('m id_index, 'm, 'ie) env" and ?m = "meta_collect M [tag_entry]"
  let ?rs = "[Insert (U64 1) [0, 0x3F800000] None, Insert (U64 2) [0x40000000, 0x40400000] (Some ?m),
      Insert (U64 3) [0x40800000, 0x40A00000] None, Delete (U64 1)]"
  have rs: "readable ?E ?rs" "\<forall>r\<in>set ?rs. two_dim r"
    using small_readable [OF M(1), of ?rs umax C crc] host(1) tag_record_size [OF M] plain_record_size [where M = M]
    by (simp_all del: record_image.simps)
  obtain dir w1 db w2 this v where start: "new_tempdir tempdir w = (Inr dir :: 'ie persist_error option + path, w1)"
      "id_open ?E Cosine (wal_cfg (idx_path dir)) w1 = (Inr db, w2)"
    and run: "perform_all ?E (map Mutation ?rs) (db, w2) = (Inr (), (this, v))"
    and ld: "load ?E (wal_cfg (idx_path dir)) v = (Inr (loaded (wal_cfg (idx_path dir)) (id_at Cosine (fold id_step ?rs [])) v), v)"
    by (rule lifecycle [OF host C _ rs tempdir world, of Cosine]) auto
  obtain s1 s2 s3 where steps: "insert_vector ?E (U64 1) [0, 0x3F800000] None (db, w2) = (Inr (), s1)"
      "insert_vector ?E (U64 2) [0x40000000, 0x40400000] (Some ?m) s1 = (Inr (), s2)"
      "insert_vector ?E (U64 3) [0x40800000, 0x40A00000] None s2 = (Inr (), s3)"
      "delete_vector ?E (U64 1) s3 = (Inr (), (this, v))"
    using run by (auto simp: sbind_Inr_iff mutate_def sret_def)
  have "meta_of (U64 2) (id_at Cosine (fold id_step ?rs [])) = Some ?m" by (simp add: meta_of_def)
  then show ?thesis
    using start steps ld M(2)
    by (simp add: passes_def crash_recovery_replays_unckeckpointed_mutations_def sbind_def Let_def on_db_run
        index_ref_def sret_def keeps_entry_def tag_entry_def)
qed


lemma bytes_id_passes:
  fixes M :: "'m metadata_ops"
  assumes host: "MAX_RECORD_LEN \<le> umax" "umax \<le> U64_MAX" and C: "codec_ok C" and M: "metadata_ok M"
    and tempdir: "tempdir_ok tempdir ''idx.iqdb''" and world: "fs_ok w" "calm w"
  shows "passes (bytes_vector_id_round_trips_through_wal (id_env umax C crc M :: ('m id_index, 'm, 'ie) env) tempdir) w"
proof -
  let ?E = "id_env umax C crc M :: ('m id_index, 'm, 'ie) env"
  let ?rs = "[Insert (Bytes (ascii ''content-hash-key'')) [0x40E00000, 0x41000000] None] :: 'm wal_record list"
  have rs: "readable ?E ?rs" "\<forall>r\<in>set ?rs. two_dim r"
    using small_readable [OF M, of ?rs umax C crc] host(1) plain_record_size [where M = M]
    by (simp_all del: record_image.simps)
  obtain dir w1 db w2 this v where start: "new_tempdir tempdir w = (Inr dir :: 'ie persist_error option + path, w1)"
      "id_open ?E Cosine (wal_cfg (idx_path dir)) w1 = (Inr db, w2)"
    and run: "perform_all ?E (map Mutation ?rs) (db, w2) = (Inr (), (this, v))"
    and ld: "load ?E (wal_cfg (idx_path dir)) v = (Inr (loaded (wal_cfg (idx_path dir)) (id_at Cosine (fold id_step ?rs [])) v), v)"
    by (rule lifecycle [OF host C _ rs tempdir world, of Cosine]) auto
  have "insert_vector ?E (Bytes (ascii ''content-hash-key'')) [0x40E00000, 0x41000000] None (db, w2) = (Inr (), (this, v))"
    using run by (auto simp: sbind_Inr_iff mutate_def sret_def)
  then show ?thesis
    using start ld
    by (simp add: passes_def bytes_vector_id_round_trips_through_wal_def sbind_def Let_def on_db_run sret_def)
qed

lemma continued_appends_passes:
  fixes M :: "'m metadata_ops"
  assumes host: "MAX_RECORD_LEN \<le> umax" "umax \<le> U64_MAX" and C: "codec_ok C" and M: "metadata_ok M"
    and tempdir: "tempdir_ok tempdir ''idx.iqdb''" and world: "fs_ok w" "calm w"
  shows "passes (continued_appends_after_recovery_persist (id_env umax C crc M :: ('m id_index, 'm, 'ie) env) tempdir) w"
proof -
  let ?E = "id_env umax C crc M :: ('m id_index, 'm, 'ie) env"
  let ?r1 = "Insert (U64 1) [0x3F800000, 0x3F800000] None :: 'm wal_record"
  let ?r2 = "Insert (U64 2) [0x40000000, 0x40000000] None :: 'm wal_record"
  have small: "\<forall>r\<in>set [?r1, ?r2]. length (record_image M r) \<le> 4096"
    using plain_record_size [where M = M] by (simp del: record_image.simps)
  then have one: "readable ?E [?r1]" "\<forall>r\<in>set [?r1]. two_dim r" and both: "readable ?E [?r1, ?r2]"
    using small_readable [OF M, of "[?r1]" umax C crc] small_readable [OF M, of "[?r1, ?r2]" umax C crc] host(1)
    by (simp_all del: record_image.simps)
  obtain dir w1 db w2 this v bytes where start: "new_tempdir tempdir w = (Inr dir :: 'ie persist_error option + path, w1)"
      "id_open ?E Cosine (wal_cfg (idx_path dir)) w1 = (Inr db, w2)"
    and run: "perform_all ?E (map Mutation [?r1]) (db, w2) = (Inr (), (this, v))"
    and ld: "load ?E (wal_cfg (idx_path dir)) v = (Inr (loaded (wal_cfg (idx_path dir)) (id_at Cosine (fold id_step [?r1] [])) v), v)"
    and step: "in_step ?E (id_at Cosine []) [?r1] (loaded (wal_cfg (idx_path dir)) (id_at Cosine (fold id_step [?r1] [])) v, v)"
    and v: "calm v" "durable v (idx_path dir) (Some bytes)" "decode_snapshot ?E bytes = Inr (id_at Cosine [])"
    by (rule lifecycle [OF host C _ one tempdir world, of Cosine]) auto
  let ?cfg = "wal_cfg (idx_path dir)"
  let ?that = "loaded ?cfg (id_at Cosine (fold id_step [?r1] [])) v :: ('m id_index, 'ie) persisted"
  have first: "insert_vector ?E (U64 1) [0x3F800000, 0x3F800000] None (db, w2) = (Inr (), (this, v))"
    using run by (auto simp: sbind_Inr_iff mutate_def sret_def)
  have clean: "refuses_cleanly (index ?E)"
    using persistable.refuses [OF id_persistable, of umax] host by (simp add: MAX_RECORD_LEN_def)
  have rec: "\<forall>r\<in>set [?r2]. record_ok (metadata ?E) r" using both by (simp add: readable_def loggable_record_ok)
  have acc2: "accepts (index ?E) (inner ?that) [?r2] (id_at Cosine (fold id_step [?r1, ?r2] []))"
    and acc: "accepts (index ?E) (id_at Cosine []) [?r1, ?r2] (id_at Cosine (fold id_step [?r1, ?r2] []))"
    using id_accepts [of "[?r2]" umax Cosine "fold id_step [?r1] []" _, where 'ie = 'ie]
      id_accepts [of "[?r1, ?r2]" umax Cosine "[]" _, where 'ie = 'ie]
    by (simp_all del: accepts.simps)
  obtain this' x where run2: "perform_all ?E (map Mutation [?r2]) (?that, v) = (Inr (), (this', x))"
    and x: "in_step ?E (id_at Cosine []) ([?r1] @ [?r2]) (this', x)" "config this' = config ?that" "calm x" "fs_ok x"
      "durable x (idx_path dir) (Some bytes)"
    using mutations_logged [OF step v(1) clean rec acc2] v(2) by auto
  have second: "insert_vector ?E (U64 2) [0x40000000, 0x40000000] None (?that, v) = (Inr (), (this', x))"
    using run2 by (auto simp: sbind_Inr_iff mutate_def sret_def)
  have step2: "in_step ?E (id_at Cosine []) [?r1, ?r2] (this', x)" and cfg: "config this' = ?cfg" using x(1,2) by simp_all
  have again: "load ?E ?cfg x = (Inr (loaded ?cfg (id_at Cosine (fold id_step [?r1, ?r2] [])) x), x)"
    by (rule load_logged(1) [OF step2 cfg x(3,4) _ _ _ v(3) both acc]) (use durable_content [OF x(5)] in simp_all)
  show ?thesis
    using start first ld second again
    by (simp add: passes_def continued_appends_after_recovery_persist_def sbind_def Let_def on_db_run index_ref_def sret_def)
qed


lemma torn_tail_passes:
  fixes M :: "'m metadata_ops"
  assumes host: "MAX_RECORD_LEN \<le> umax" "umax \<le> U64_MAX" and C: "codec_ok C" and M: "metadata_ok M"
    and tempdir: "tempdir_ok tempdir ''idx.iqdb''" and world: "fs_ok w" "calm w"
  shows "passes (torn_tail_record_is_discarded_on_recovery (id_env umax C crc M :: ('m id_index, 'm, 'ie) env) tempdir) w"
proof -
  let ?E = "id_env umax C crc M :: ('m id_index, 'm, 'ie) env"
  let ?r1 = "Insert (U64 1) [0x3F800000, 0x3F800000] None :: 'm wal_record"
  let ?rs = "[?r1, Insert (U64 2) [0x40000000, 0x40000000] None]"
  have rs: "readable ?E ?rs" "\<forall>r\<in>set ?rs. two_dim r"
    using small_readable [OF M, of ?rs umax C crc] host(1) plain_record_size [where M = M]
    by (simp_all del: record_image.simps)
  obtain dir w1 db w2 this v bytes where start: "new_tempdir tempdir w = (Inr dir :: 'ie persist_error option + path, w1)"
      "id_open ?E Cosine (wal_cfg (idx_path dir)) w1 = (Inr db, w2)"
    and run: "perform_all ?E (map Mutation ?rs) (db, w2) = (Inr (), (this, v))"
    and v: "calm v" "fs_ok v" "room (idx_path dir) v" "placed (idx_path dir)" "durable v (idx_path dir) (Some bytes)"
    and dec: "decode_snapshot ?E bytes = Inr (id_at Cosine [])"
    and log: "content v (wal_path (idx_path dir)) = Some (wal_log crc M ?rs)"
    by (rule lifecycle [OF host C _ rs tempdir world, of Cosine]) auto
  let ?cfg = "wal_cfg (idx_path dir)" and ?wp = "wal_path (idx_path dir)"
  let ?cut = "take 69 (wal_log crc M ?rs)"
  obtain s1 where steps: "insert_vector ?E (U64 1) [0x3F800000, 0x3F800000] None (db, w2) = (Inr (), s1)"
      "insert_vector ?E (U64 2) [0x40000000, 0x40000000] None s1 = (Inr (), (this, v))"
    using run by (auto simp: sbind_Inr_iff mutate_def sret_def)
  have len: "length (wal_log crc M ?rs) = 74" by (simp add: wal_log_def)
  have "writable_file ?wp v"
    using v placed_parent(2) [OF v(4)] by (simp add: writable_file_def room_def parent_exists_def)
  then obtain x where wr: "test_write ?wp ?cut v = (Inr () :: 'ie persist_error option + unit, x)"
    and x: "writable_file ?wp x" "content x ?wp = Some ?cut" "\<forall>q. q \<noteq> ?wp \<longrightarrow> content x q = content v q"
    using test_write_run [of ?wp v ?cut] by blast
  have calm: "calm x" "fs_ok x" using x(1) by (simp_all add: writable_file_def)
  have snap: "content x (cfg_path ?cfg) = Some bytes"
    using x(3) durable_content [OF v(5)] not_sym [OF wal_path_neq [of "idx_path dir"]] by simp
  have log': "content x (wal_path (cfg_path ?cfg)) = Some ?cut" using x(2) by simp
  have dec': "decode_snapshot ?E bytes = Inr (id_at Cosine [])" by (rule dec)
  have whole: "whole_frames M (69 - 12) ?rs = [?r1]" by (simp add: Let_def)
  have all: "\<forall>r\<in>set ?rs. loggable M r" "length (wal_log crc M ?rs) \<le> umax"
    using rs(1) by (simp_all add: readable_def)
  have parse: "parse_records umax crc M ?cut = (Inr [?r1] :: ('ie, 'm wal_record list) result)"
    unfolding parse_truncated [OF all(1) host(1) all(2)] whole ..
  have acc: "accepts (id_ops umax :: ('m id_index, 'm, 'ie) index_ops) (id_at Cosine []) [?r1] (id_at Cosine (fold id_step [?r1] []))"
    using id_accepts [of "[?r1]" umax Cosine "[]" "id_at Cosine (fold id_step [?r1] [])", where 'ie = 'ie]
    by (simp del: accepts.simps)
  then have replay: "replay_loop (id_ops umax :: ('m id_index, 'm, 'ie) index_ops) [?r1] 0 (id_at Cosine []) =
      (Inr 1, id_at Cosine (fold id_step [?r1] []))"
    unfolding replay_loop_accepts by simp
  have ld: "load ?E ?cfg x = (Inr (loaded ?cfg (id_at Cosine (fold id_step [?r1] [])) x), x)"
    using load_calm [OF calm _ _ snap dec' log'] parse replay by (simp del: replay_loop.simps)
  show ?thesis
    using start steps wr ld
    by (simp add: passes_def torn_tail_record_is_discarded_on_recovery_def sbind_def Let_def on_db_run index_ref_def sret_def
        test_read_calm [OF v(1,2) log] len)
qed


text \<open>Rows a snapshot can carry, few enough for any host.\<close>

lemma id_at_wf:
  assumes "\<forall>row\<in>set rows. plain_row 2 row" and "length rows \<le> 100" and "4096 \<le> umax"
  shows "id_wf umax (id_at Cosine rows)"
proof -
  have "length (id_row_image row) = 16" if "plain_row 2 row" for row :: "vector_id \<times> f32 list \<times> 'a option"
    using that by (cases "(2 :: nat, row)" rule: plain_row.cases) (auto simp: length_components4)
  then have "length (concat (map id_row_image rows)) = 16 * length rows" using assms(1) by (induction rows) auto
  then show ?thesis using assms by (simp add: id_wf_def id_payload_def metric_tag_def)
qed

lemma checkpoint_test_passes:
  fixes M :: "'m metadata_ops"
  assumes host: "MAX_RECORD_LEN \<le> umax" "umax \<le> U64_MAX" and C: "codec_ok C" and M: "metadata_ok M"
    and tempdir: "tempdir_ok tempdir ''idx.iqdb''" and world: "fs_ok w" "calm w"
  shows "passes (checkpoint_resets_wal_and_avoids_double_apply (id_env umax C crc M :: ('m id_index, 'm, 'ie) env) tempdir) w"
proof -
  let ?E = "id_env umax C crc M :: ('m id_index, 'm, 'ie) env"
  let ?r1 = "Insert (U64 1) [0x3F800000, 0x3F800000] None :: 'm wal_record"
  let ?r2 = "Insert (U64 2) [0x40000000, 0x40000000] None :: 'm wal_record"
  let ?r3 = "Insert (U64 3) [0x40400000, 0x40400000] None :: 'm wal_record"
  let ?as = "[Mutation ?r1, Mutation ?r2, Checkpoint, Mutation ?r3]" and ?rs = "[?r1, ?r2, ?r3]"
  have big: "4096 \<le> umax" using host(1) by (simp add: MAX_RECORD_LEN_def)
  have muts: "mutations ?as = ?rs" by simp
  have two: "two_dim r" if "r \<in> set ?rs" for r using that by auto
  have rs: "readable ?E ?rs"
    using small_readable [OF M, of ?rs umax C crc] host(1) plain_record_size [where M = M]
    by (simp_all del: record_image.simps)
  obtain dir w1 where dir: "new_tempdir tempdir w = (Inr dir :: 'ie persist_error option + path, w1)"
    and w1: "fs_ok w1" "calm w1" "room (idx_path dir) w1" "placed (idx_path dir)"
    using tempdirE [OF tempdir world] unfolding idx_path_def by metis
  let ?cfg = "wal_cfg (idx_path dir)"
  have use: "wal_use ?E (id_wf umax) id_payload ?cfg"
    using id_snapshots [OF big host(2) C, where crc = crc and M = M and 'ie = 'ie] by (simp add: wal_use_def wal_use_axioms_def)
  have enc: "encodes_all ?E ?cfg" by (simp add: encodes_all_def)
  have path: "placed (cfg_path ?cfg)" and rest: "at_rest ?cfg w1" using w1 by (simp_all add: at_rest_def)
  have acc: "accepts (index ?E) (id_at Cosine []) (mutations ?as) (id_at Cosine (fold id_step ?rs []))"
    unfolding muts using id_accepts [of ?rs umax Cosine "[]" "id_at Cosine (fold id_step ?rs [])", where 'ie = 'ie] two
    by (simp del: accepts.simps)
  have valid: "stays_valid ?E ?cfg (id_wf umax) id_payload (id_at Cosine []) (mutations ?as)"
    unfolding stays_valid_def muts
  proof (intro allI impI)
    fix n j
    assume "accepts (index ?E) (id_at Cosine []) (take n ?rs) j"
    then have j: "j = id_at Cosine (fold id_step (take n ?rs) [])"
      using id_accepts [of "take n ?rs" umax Cosine "[]" j, where 'ie = 'ie] two by (fastforce dest: in_set_takeD simp del: accepts.simps)
    have "n = 0 \<or> n = 1 \<or> n = 2 \<or> 3 \<le> n" by linarith
    then have "take n ?rs \<in> {[], [?r1], [?r1, ?r2], [?r1, ?r2, ?r3]}" by auto
    then have "id_wf umax j" unfolding j by (intro id_at_wf [OF _ _ big]) auto
    then show "id_wf umax j \<and> reloadable ?E (cfg_compression ?cfg) (id_payload j)" by simp
  qed
  have readable: "readable ?E (mutations ?as)" using rs unfolding muts .
  obtain this that v where run: "session ?E (id_at Cosine []) ?cfg ?as w1 = (Inr this, v)"
    and ld: "load ?E ?cfg v = (Inr that, v)" "inner that = id_at Cosine (fold id_step ?rs [])"
    using wal_use.session_runs [OF use enc path w1(1) rest acc readable valid] by blast
  obtain db w2 where op: "open_with ?E (id_at Cosine []) ?cfg w1 = (Inr db, w2)"
    and script: "perform_all ?E ?as (db, w2) = (Inr (), (this, v))"
    using run by (auto simp: session_def sbind_def Let_def rbind_def simp del: perform_all.simps split: prod.splits sum.splits)
  obtain s1 s2 s3 where "insert_vector ?E (U64 1) [0x3F800000, 0x3F800000] None (db, w2) = (Inr (), s1)"
      "insert_vector ?E (U64 2) [0x40000000, 0x40000000] None s1 = (Inr (), s2)" "checkpoint ?E s2 = (Inr (), s3)"
      "insert_vector ?E (U64 3) [0x40400000, 0x40400000] None s3 = (Inr (), (this, v))"
    using script by (auto simp: sbind_Inr_iff mutate_def sret_def)
  then show ?thesis
    using dir op ld
    by (simp add: passes_def checkpoint_resets_wal_and_avoids_double_apply_def sbind_def Let_def id_start on_db_run
        index_ref_def has_id_def sret_def)
qed

text \<open>A new directory has no log in it.\<close>

definition no_log_yet :: "tempdir \<Rightarrow> string \<Rightarrow> bool" where
  "no_log_yet tempdir name \<longleftrightarrow> (\<forall>w dir v. tempdir w = (Inr dir, v) \<longrightarrow> names v (wal_path (path_join dir name)) = None)"

lemma snapshot_only_passes:
  fixes M :: "'m metadata_ops"
  assumes host: "MAX_RECORD_LEN \<le> umax" "umax \<le> U64_MAX" and C: "codec_ok C"
    and tempdir: "tempdir_ok tempdir ''idx.iqdb''" "no_log_yet tempdir ''idx.iqdb''" and world: "fs_ok w" "calm w"
  shows "passes (snapshot_only_mode_ignores_wal_api_durability (id_env umax C crc M :: ('m id_index, 'm, 'ie) env) tempdir) w"
proof -
  let ?E = "id_env umax C crc M :: ('m id_index, 'm, 'ie) env"
  let ?i = "id_at Cosine [(U64 1, [0x3F800000, 0x40000000], None)] :: 'm id_index"
  have big: "4096 \<le> umax" using host(1) by (simp add: MAX_RECORD_LEN_def)
  note snap = id_snapshots [OF big host(2) C, where crc = crc and M = M and 'ie = 'ie]
  have valid: "id_wf umax ?i" by (rule id_at_wf [OF _ _ big]) simp_all
  obtain dir w1 where temp: "tempdir w = (Inr dir, w1)" "new_tempdir tempdir w = (Inr dir :: 'ie persist_error option + path, w1)"
    and w1: "fs_ok w1" "calm w1" "room (path_join dir ''idx.iqdb'') w1" "placed (path_join dir ''idx.iqdb'')"
    by (rule tempdirE [OF tempdir(1) world])
  let ?p = "path_join dir ''idx.iqdb''"
  let ?t = "\<lambda>i. \<lparr>inner = i, config = config_new ?p, storage_of = std_fs_storage, wal_of = None\<rparr> :: ('m id_index, 'ie) persisted"
  obtain bytes v where saved: "save ?E (?t ?i) w1 = (Inr (), v)"
    and dec: "decode_snapshot ?E bytes = Inr ?i" and v: "calm v" "fs_ok v" "room ?p v" "content v ?p = Some bytes"
      "\<forall>q. q \<noteq> ?p \<longrightarrow> names v q = names w1 q"
    by (rule saved_under [OF snap valid, where cfg = "config_new ?p" and packed = "id_payload ?i" and w = w1,
          unfolded config_new_simps id_env_simps])
      (use w1 in \<open>auto simp: too_dense_def\<close>)
  have op: "open_with ?E (id_at Cosine []) (config_new ?p) w1 = (Inr (?t (id_at Cosine [])), w1)"
    by (simp add: open_with_def open_with_storage_def sbind_def slift_def sret_def Let_def)
  have ins: "insert_vector ?E (U64 1) [0x3F800000, 0x40000000] None (?t (id_at Cosine []), w1) = (Inr (), (?t ?i, w1))"
    by (simp add: insert_vector_def log_then_apply_def Let_def id_ops_def id_insert_def id_at_def map_iqdb_def)
  have "names w1 (wal_path ?p) = None" using tempdir(2) temp(1) by (simp add: no_log_yet_def)
  then have "names v (wal_path ?p) = None" "\<not> dirs v (wal_path ?p)"
    using v(3,5) wal_path_neq [of ?p] by (simp_all add: room_def)
  then show ?thesis
    using temp(2) op ins saved
    by (simp add: passes_def snapshot_only_mode_ignores_wal_api_durability_def sbind_def Let_def id_start idx_path_def on_db_run
        test_exists_calm [OF v(1)] load_calm_snapshot [OF v(1,2,4) dec] index_ref_def sret_def)
qed


text \<open>
  C39. The lifecycle tests of the log pass, for any host, checksum, codecs and metadata, when no call
  fails: opening writes both files; a crash behind inserts and a delete loses none of them, metadata
  and byte identifiers included; a checkpoint empties the log, so nothing is applied twice; a torn
  frame is dropped alone; appends behind a recovery are kept; without the log no log file appears.
\<close>

theorem lifecycle_tests_pass:
  fixes M :: "'m metadata_ops"
  assumes host: "MAX_RECORD_LEN \<le> umax" "umax \<le> U64_MAX" and C: "codec_ok C" and M: "metadata_ok M" "keeps_entry M get"
    and tempdir: "tempdir_ok tempdir ''idx.iqdb''" "no_log_yet tempdir ''idx.iqdb''" and world: "fs_ok w" "calm w"
  shows "passes (open_with_wal_writes_initial_snapshot_and_wal (id_env umax C crc M :: ('m id_index, 'm, 'ie) env) tempdir) w \<and>
    passes (crash_recovery_replays_unckeckpointed_mutations (id_env umax C crc M :: ('m id_index, 'm, 'ie) env) tempdir get) w \<and>
    passes (checkpoint_resets_wal_and_avoids_double_apply (id_env umax C crc M :: ('m id_index, 'm, 'ie) env) tempdir) w \<and>
    passes (torn_tail_record_is_discarded_on_recovery (id_env umax C crc M :: ('m id_index, 'm, 'ie) env) tempdir) w \<and>
    passes (continued_appends_after_recovery_persist (id_env umax C crc M :: ('m id_index, 'm, 'ie) env) tempdir) w \<and>
    passes (bytes_vector_id_round_trips_through_wal (id_env umax C crc M :: ('m id_index, 'm, 'ie) env) tempdir) w \<and>
    passes (snapshot_only_mode_ignores_wal_api_durability (id_env umax C crc M :: ('m id_index, 'm, 'ie) env) tempdir) w"
  using opening_test_passes [OF host C M(1) tempdir(1) world] crash_recovery_passes [OF host C M tempdir(1) world]
    checkpoint_test_passes [OF host C M(1) tempdir(1) world] torn_tail_passes [OF host C M(1) tempdir(1) world]
    continued_appends_passes [OF host C M(1) tempdir(1) world] bytes_id_passes [OF host C M(1) tempdir(1) world]
    snapshot_only_passes [OF host C tempdir world]
  by blast

text \<open>Metadata that is empty or has the one entry of the test.\<close>

definition tag_ops :: "bool metadata_ops" where
  "tag_ops = \<lparr>meta_len = (\<lambda>b. if b then 1 else 0), meta_iter = (\<lambda>b. if b then [tag_entry] else []),
     meta_collect = (\<lambda>es. es \<noteq> [])\<rparr>"

definition tag_get :: "bool \<Rightarrow> bytes \<Rightarrow> metadata_value option" where
  "tag_get m k = (if m \<and> k = fst tag_entry then Some (snd tag_entry) else None)"

lemma tag_ops_ok: "metadata_ok tag_ops" "keeps_entry tag_ops tag_get"
  by (simp_all add: metadata_ok_def keeps_entry_def tag_ops_def tag_get_def tag_entry_def ascii_def)

theorem lifecycle_tests_pass_witness:
  "passes (crash_recovery_replays_unckeckpointed_mutations
      (id_env U64_MAX stored_codec crc32_ieee tag_ops :: (bool id_index, bool, unit) env) empty_disk tag_get) (example_world []) \<and>
    passes (torn_tail_record_is_discarded_on_recovery
      (id_env U64_MAX stored_codec crc32_ieee tag_ops :: (bool id_index, bool, unit) env) empty_disk) (example_world [])"
proof -
  have host: "MAX_RECORD_LEN \<le> U64_MAX" by (simp add: MAX_RECORD_LEN_def U64_MAX_def)
  have dirs: "tempdir_ok empty_disk ''idx.iqdb''" "no_log_yet empty_disk ''idx.iqdb''"
    by (simp_all add: empty_disk_ok no_log_yet_def empty_disk_def example_world_def)
  have calm: "calm (example_world [])" by (simp add: calm_def example_world_def)
  from lifecycle_tests_pass [OF host order_refl stored_codec_ok tag_ops_ok dirs example_world_ok calm,
      where crc = crc32_ieee and 'ie = unit]
  show ?thesis by simp
qed

end
